(* ===== verification/Prelude.thy ===== *)
theory Prelude
  imports Main "HOL-Library.AList" "HOL-Library.List_Lexorder" "HOL-Library.Char_ord"
begin

section \<open>Prelude: Go values, and the generic facts the components share\<close>

text \<open>
  What the source takes from the Go language and its standard library, modelled once:
  \<^item> instants (\<^verbatim>\<open>time.Time\<close>) and durations as integers that count nanoseconds, with the
    saturating \<^verbatim>\<open>Time.Sub\<close>;
  \<^item> strings as \<open>string\<close> (bytes), with \<^verbatim>\<open>strings.Join\<close> and the decimal rendering of integers;
  \<^item> a map from strings that is iterated as an association list (\<open>HOL-Library.AList\<close>), and
    \<^verbatim>\<open>slices.Sorted\<close> on strings as the library's lexicographic order.
  The prelude also holds the one notion of reachability the step relations use, the locale that
  turns a preserved property into an invariant of every reachable state, and the collections
  \<open>go_simps\<close> and \<open>ctrl_defs\<close> that the component proofs pass to the simplifier.
\<close>

named_theorems go_simps \<open>computation rules of the modelled Go library\<close>
named_theorems ctrl_defs \<open>constants of the controller that proofs unfold\<close>

subsection \<open>Instants and durations\<close>

type_synonym time = int
type_synonym duration = int

definition second :: duration where
  "second = 1000000000"

definition minute :: duration where
  "minute = 60 * second"

text \<open>The zero \<^verbatim>\<open>time.Time\<close>, January 1 of year 1, counted from the Unix epoch.\<close>

definition zero_time :: time where
  "zero_time = - 62135596800 * second"

definition min_duration :: duration where
  "min_duration = - (2 ^ 63)"

definition max_duration :: duration where
  "max_duration = 2 ^ 63 - 1"

text \<open>\<^verbatim>\<open>t.Sub(u)\<close> saturates at the least and the greatest duration.\<close>

definition sub :: "time \<Rightarrow> time \<Rightarrow> duration" where
  "sub t u = max min_duration (min max_duration (t - u))"

lemmas duration_defs = second_def minute_def min_duration_def max_duration_def

lemma sub_le_iff [go_simps]:
  "min_duration \<le> d \<Longrightarrow> d < max_duration \<Longrightarrow> sub t u \<le> d \<longleftrightarrow> t - u \<le> d"
  by (auto simp: sub_def)

lemma sub_less_iff [go_simps]:
  "min_duration < d \<Longrightarrow> d \<le> max_duration \<Longrightarrow> sub t u < d \<longleftrightarrow> t - u < d"
  by (auto simp: sub_def duration_defs)

lemma le_sub_iff [go_simps]:
  "min_duration < d \<Longrightarrow> d \<le> max_duration \<Longrightarrow> d \<le> sub t u \<longleftrightarrow> d \<le> t - u"
  by (auto simp: sub_def duration_defs)

lemma less_sub_iff [go_simps]:
  "min_duration \<le> d \<Longrightarrow> d < max_duration \<Longrightarrow> d < sub t u \<longleftrightarrow> d < t - u"
  by (auto simp: sub_def duration_defs)

lemma sub_self [simp]: "sub t t = 0"
  by (simp add: sub_def duration_defs)

subsection \<open>64-bit integers\<close>

text \<open>An \<^verbatim>\<open>int64\<close> is an integer; where an operation may leave the range the wrap-around is written out.\<close>

definition wrap64 :: "int \<Rightarrow> int" where
  "wrap64 x = (x + 2 ^ 63) mod 2 ^ 64 - 2 ^ 63"

definition is_int64 :: "int \<Rightarrow> bool" where
  "is_int64 x \<longleftrightarrow> - (2 ^ 63) \<le> x \<and> x < 2 ^ 63"

lemma wrap64_id [go_simps]: "is_int64 x \<Longrightarrow> wrap64 x = x"
  by (simp add: wrap64_def is_int64_def)

lemma is_int64_wrap64 [simp]: "is_int64 (wrap64 x)"
proof -
  have "0 \<le> (x + 2 ^ 63) mod 2 ^ 64" "(x + 2 ^ 63) mod 2 ^ 64 < (2 ^ 64 :: int)" by simp_all
  then show ?thesis by (simp add: wrap64_def is_int64_def)
qed

lemma wrap64_add: "wrap64 (wrap64 a + b) = wrap64 (a + b)"
  by (simp add: wrap64_def mod_simps algebra_simps)

subsection \<open>Strings\<close>

text \<open>\<^verbatim>\<open>strings.Join(elems, sep)\<close>.\<close>

fun join :: "'a list \<Rightarrow> 'a list list \<Rightarrow> 'a list" where
  "join sep [] = []"
| "join sep [x] = x"
| "join sep (x # y # ys) = x @ sep @ join sep (y # ys)"

definition digit_char :: "nat \<Rightarrow> char" where
  "digit_char d = char_of (48 + d)"

fun show_nat :: "nat \<Rightarrow> string" where
  "show_nat n = (if n < 10 then [digit_char n] else show_nat (n div 10) @ [digit_char (n mod 10)])"

declare show_nat.simps [simp del]

text \<open>\<^verbatim>\<open>strconv.Itoa\<close> and the verb \<open>%d\<close>.\<close>

definition itoa :: "int \<Rightarrow> string" where
  "itoa i = (if i < 0 then CHR ''-'' # show_nat (nat (- i)) else show_nat (nat i))"

definition is_digit :: "char \<Rightarrow> bool" where
  "is_digit c \<longleftrightarrow> 48 \<le> (of_char c :: nat) \<and> (of_char c :: nat) \<le> 57"

definition digit_val :: "char \<Rightarrow> nat" where
  "digit_val c = of_char c - 48"

lemma digit_char_props:
  assumes "d < 10"
  shows "is_digit (digit_char d)" and "digit_val (digit_char d) = d"
  using assms by (auto simp: is_digit_def digit_val_def digit_char_def)

lemma show_nat_digits: "\<forall>c \<in> set (show_nat n). is_digit c"
proof (induction n rule: show_nat.induct)
  case (1 n)
  then show ?case
    by (subst show_nat.simps) (auto simp: digit_char_props)
qed

lemma show_nat_nonempty [simp]: "show_nat n \<noteq> []"
  by (subst show_nat.simps) simp

text \<open>A hexadecimal digit.\<close>

definition hex_char :: "nat \<Rightarrow> char" where
  "hex_char d = (if d < 10 then char_of (48 + d) else char_of (87 + d))"

text \<open>The value of a string of digits, most significant first.\<close>

definition digits_value :: "string \<Rightarrow> nat" where
  "digits_value s = foldl (\<lambda>n c. n * 10 + digit_val c) 0 s"

lemma digits_value_show_nat [simp]: "digits_value (show_nat n) = n"
proof (induction n rule: show_nat.induct)
  case (1 n)
  show ?case
  proof (cases "n < 10")
    case True
    then show ?thesis
      by (subst show_nat.simps) (simp add: digits_value_def digit_char_props)
  next
    case False
    with 1 have "digits_value (show_nat (n div 10)) = n div 10" by simp
    with False show ?thesis
      by (subst show_nat.simps) (simp add: digits_value_def digit_char_props)
  qed
qed

lemma show_nat_inject [simp]: "show_nat m = show_nat n \<longleftrightarrow> m = n"
  by (metis digits_value_show_nat)

text \<open>\<^verbatim>\<open>strings.TrimSpace\<close> on ASCII text.\<close>

definition is_space :: "char \<Rightarrow> bool" where
  "is_space c \<longleftrightarrow> (of_char c :: nat) \<in> {9, 10, 11, 12, 13, 32}"

definition trim_space :: "string \<Rightarrow> string" where
  "trim_space s = rev (dropWhile is_space (rev (dropWhile is_space s)))"

lemma trim_space_id:
  assumes "s \<noteq> []" "\<not> is_space (hd s)" "\<not> is_space (last s)"
  shows "trim_space s = s"
proof -
  have "dropWhile is_space s = s" using assms(1,2) by (cases s) auto
  moreover have "dropWhile is_space (rev s) = rev s" using assms(1,3) by (cases s rule: rev_cases) auto
  ultimately show ?thesis by (simp add: trim_space_def)
qed

lemma digit_not_space: "is_digit c \<Longrightarrow> \<not> is_space c"
  by (auto simp: is_digit_def is_space_def)

text \<open>\<^verbatim>\<open>strings.SplitN(s, c, n)\<close> for a separator of one character and \<open>n > 0\<close>.\<close>

fun splitN :: "char \<Rightarrow> nat \<Rightarrow> string \<Rightarrow> string list" where
  "splitN c 0 s = []"
| "splitN c (Suc 0) s = [s]"
| "splitN c (Suc (Suc n)) s =
     (if c \<in> set s
      then takeWhile (\<lambda>d. d \<noteq> c) s # splitN c (Suc n) (tl (dropWhile (\<lambda>d. d \<noteq> c) s))
      else [s])"

lemma cut_at_char [simp]:
  assumes "c \<notin> set a"
  shows "takeWhile (\<lambda>d. d \<noteq> c) (a @ c # b) = a" "dropWhile (\<lambda>d. d \<noteq> c) (a @ c # b) = c # b"
  using assms by (induction a) auto

subsection \<open>Reachable states and their invariants\<close>

inductive reach :: "('s \<Rightarrow> bool) \<Rightarrow> ('s \<Rightarrow> 's \<Rightarrow> bool) \<Rightarrow> 's \<Rightarrow> bool"
  for init :: "'s \<Rightarrow> bool" and step :: "'s \<Rightarrow> 's \<Rightarrow> bool"
where
  start: "init s \<Longrightarrow> reach init step s"
| move: "reach init step s \<Longrightarrow> step s t \<Longrightarrow> reach init step t"

text \<open>
  The contract of an inductive invariant: the client of a component assumes that it holds at the
  start and that every step keeps it, and gets it in every reachable state and along every run.
\<close>

locale invariant_system =
  fixes init :: "'s \<Rightarrow> bool"
    and step :: "'s \<Rightarrow> 's \<Rightarrow> bool"
    and inv :: "'s \<Rightarrow> bool"
  assumes inv_init: "init s \<Longrightarrow> inv s"
    and inv_step: "inv s \<Longrightarrow> step s t \<Longrightarrow> inv t"
begin

lemma reach_inv: "reach init step s \<Longrightarrow> inv s"
  by (induction rule: reach.induct) (auto intro: inv_init inv_step)

lemma steps_inv: "step\<^sup>*\<^sup>* s t \<Longrightarrow> inv s \<Longrightarrow> inv t"
  by (induction rule: rtranclp_induct) (auto intro: inv_step)

end

subsection \<open>Association lists\<close>

lemma map_of_update [simp]: "map_of (AList.update k v al) = (map_of al)(k \<mapsto> v)"
  by (simp add: update_conv')

lemma map_of_delete [simp]: "map_of (AList.delete k al) = (map_of al)(k := None)"
  by (simp add: delete_conv')

lemma map_of_SomeE:
  assumes "(k, v) \<in> set al" and "distinct (map fst al)"
  shows "map_of al k = Some v"
  using assms by simp

end
