(* ===== verification/OpStore.thy ===== *)
theory OpStore
  imports Prelude
begin

section \<open>The durable operation store of the Instance Manager\<close>

text \<open>
  \<^verbatim>\<open>internal/instancemanager/operation.go\<close> and \<^verbatim>\<open>opstore.go\<close>: the records of the mutating
  operations of one member, one JSON file per operation in one directory, and the calls that create,
  read, change and settle them. The state \<open>store\<close> is the directory together with the maps the
  process keeps in memory.

  Every access to the disk may fail. The outcomes are an argument of each call, \<open>env\<close>, a function
  from the number of the access to what the file system answers there, so that two accesses of one
  call may end differently and no pattern of failures is excluded. A write ends in one of three
  ways: it is done, it fails before the rename and leaves the record as it was, or the record is
  replaced and only the sync of the directory fails. A file holds a record that decodes
  (\<open>JsonRecord\<close>) or one that does not. A directory is listed in the order of its names, as
  \<^verbatim>\<open>os.ReadDir\<close> does. The map of the unwritten ends is a list: Go visits it in an order of its own,
  and what is shown of \<open>settle_each\<close> holds for every order. Temporary files and logging are left
  out: the store never reads the first, and nothing branches on the second.
\<close>

subsection \<open>Operations\<close>

datatype OperationKind = OpBackup | OpRestore | OpHABootstrap | KindOther string

datatype OperationState =
    OpPending | OpRunningBackup | OpUploading | OpDownloading | OpRestoring | OpCreating
  | OpStarting | OpCompleted | OpFailed | OpCleaningUp | StateOther string

fun IsTerminal :: "OperationState \<Rightarrow> bool" where
  "IsTerminal OpCompleted = True"
| "IsTerminal OpFailed = True"
| "IsTerminal _ = False"

record OperationArtifact =
  art_ManifestURI :: string
  art_ManifestDigest :: string
  art_SizeBytes :: int
  art_Database :: string
  art_CubridVersion :: string
  art_Level :: int

record Operation =
  op_ID :: string
  op_Kind :: OperationKind
  op_IdempotencyKey :: string
  op_RequestHash :: string
  op_Database :: string
  op_State :: OperationState
  op_FailureReason :: string
  op_Artifact :: "OperationArtifact option"
  op_Restored :: "OperationArtifact option"
  op_StagingDir :: string
  op_CreatedAt :: time
  op_UpdatedAt :: time

abbreviation op_terminal :: "Operation \<Rightarrow> bool" where
  "op_terminal op \<equiv> IsTerminal (op_State op)"

subsection \<open>Operation IDs\<close>

text \<open>\<^verbatim>\<open>hex.EncodeToString\<close> of a list of bytes.\<close>

definition hex_encode :: "nat list \<Rightarrow> string" where
  "hex_encode bs = concat (map (\<lambda>b. [hex_char (b div 16), hex_char (b mod 16)]) bs)"

text \<open>The ID made from 16 random bytes; \<open>rnd i\<close> is the \<open>i\<close>-th of them.\<close>

definition operationID_of :: "(nat \<Rightarrow> nat) \<Rightarrow> string" where
  "operationID_of rnd = ''op-'' @ hex_encode (map (\<lambda>i. rnd i mod 256) [0..<16])"

definition is_id_char :: "char \<Rightarrow> bool" where
  "is_id_char c \<longleftrightarrow>
     \<not> (((of_char c :: nat) < 48 \<or> (of_char c :: nat) > 57) \<and>
        ((of_char c :: nat) < 97 \<or> (of_char c :: nat) > 102))"

definition isValidOperationID :: "string \<Rightarrow> bool" where
  "isValidOperationID i \<longleftrightarrow>
     length i = 35 \<and> take 3 i = ''op-'' \<and> (\<forall>c \<in> set (drop 3 i). is_id_char c)"

subsection \<open>Errors\<close>

datatype store_error =
    ErrIdempotencyConflict
  | ErrOperationInProgress
  | ErrOperationNotFound
  | ErrOperationRecordUnreadable nat store_error
  | ErrCreateStore
  | ErrReadStore
  | ErrReadOperation string
  | ErrDecodeOperation string
  | ErrWriteOperation string
  | ErrSyncDirectory string
  | ErrInterruptedRecord string store_error
  | ErrUnwrittenEnd string "store_error option"
  | ErrGenerateID

text \<open>\<^verbatim>\<open>errors.Is(err, ErrOperationNotFound)\<close>: the errors that wrap another are searched too.\<close>

fun is_not_found :: "store_error \<Rightarrow> bool" where
  "is_not_found ErrOperationNotFound = True"
| "is_not_found (ErrOperationRecordUnreadable n e) = is_not_found e"
| "is_not_found (ErrInterruptedRecord i e) = is_not_found e"
| "is_not_found (ErrUnwrittenEnd i (Some e)) = is_not_found e"
| "is_not_found _ = False"

subsection \<open>The store and the outcomes of its accesses to the disk\<close>

datatype record_file = JsonRecord Operation | NotDecodable

datatype dir_entry = SubDirectory | RecordFile record_file

datatype write_outcome = WriteDone | WriteFailed | SyncFailed

record io_outcome =
  io_mkdir_ok :: bool
  io_list_ok :: bool
  io_read_ok :: bool
  io_write :: write_outcome
  io_remove_ok :: bool
  io_random :: "(nat \<Rightarrow> nat) option"
  io_now :: time

type_synonym io = "nat \<Rightarrow> io_outcome"

record store =
  st_dir :: "(string \<times> dir_entry) list"
  st_unsettled :: "(string \<times> (Operation \<Rightarrow> Operation)) list"
  st_unreadable :: "(string \<times> store_error) list"
  st_interrupted :: "string list"
  st_tick :: nat

definition record_name :: "string \<Rightarrow> string" where
  "record_name i = i @ ''.json''"

definition tick :: "store \<Rightarrow> store" where
  "tick s = s\<lparr>st_tick := Suc (st_tick s)\<rparr>"

definition outcome :: "io \<Rightarrow> store \<Rightarrow> io_outcome" where
  "outcome env s = env (st_tick s)"

definition reasonRestarted :: string where
  "reasonRestarted = ''manager restarted while operation was in progress''"

definition interrupted_op :: "time \<Rightarrow> Operation \<Rightarrow> Operation" where
  "interrupted_op now op =
     op\<lparr>op_State := OpFailed, op_FailureReason := reasonRestarted, op_UpdatedAt := now\<rparr>"

subsection \<open>Reading and writing one record\<close>

definition writeLocked :: "io \<Rightarrow> Operation \<Rightarrow> store \<Rightarrow> store_error option \<times> store" where
  "writeLocked env op s =
     (let final = record_name (op_ID op);
          replaced = (tick s)\<lparr>st_dir := AList.update final (RecordFile (JsonRecord op)) (st_dir s)\<rparr>
      in if map_of (st_dir s) final = Some SubDirectory
         then (Some (ErrWriteOperation (op_ID op)), tick s)
         else case io_write (outcome env s) of
                WriteDone \<Rightarrow> (None, replaced)
              | WriteFailed \<Rightarrow> (Some (ErrWriteOperation (op_ID op)), tick s)
              | SyncFailed \<Rightarrow> (Some (ErrSyncDirectory (op_ID op)), replaced))"

definition decodeLocked :: "io \<Rightarrow> string \<Rightarrow> store \<Rightarrow> (store_error + Operation) \<times> store" where
  "decodeLocked env i s =
     (if \<not> isValidOperationID i then (Inl ErrOperationNotFound, s)
      else if \<not> io_read_ok (outcome env s) then (Inl (ErrReadOperation i), tick s)
      else case map_of (st_dir s) (record_name i) of
             None \<Rightarrow> (Inl ErrOperationNotFound, tick s)
           | Some SubDirectory \<Rightarrow> (Inl (ErrReadOperation i), tick s)
           | Some (RecordFile NotDecodable) \<Rightarrow> (Inl (ErrDecodeOperation i), tick s)
           | Some (RecordFile (JsonRecord op)) \<Rightarrow>
               if op_ID op \<noteq> i \<or> op_Kind op = KindOther '''' \<or> op_IdempotencyKey op = ''''
               then (Inl (ErrDecodeOperation i), tick s)
               else (Inr op, tick s))"

definition failInterruptedLocked ::
  "io \<Rightarrow> Operation \<Rightarrow> store \<Rightarrow> (store_error + Operation) \<times> store" where
  "failInterruptedLocked env op s =
     (let forgotten = (\<lambda>t. t\<lparr>st_interrupted := removeAll (op_ID op) (st_interrupted t)\<rparr>)
      in if op_terminal op then (Inr op, forgotten s)
         else let op' = interrupted_op (io_now (outcome env s)) op
              in case writeLocked env op' s of
                   (Some e, s') \<Rightarrow> (Inl (ErrInterruptedRecord (op_ID op) e), s')
                 | (None, s') \<Rightarrow> (Inr op', forgotten s'))"

definition readLocked :: "io \<Rightarrow> string \<Rightarrow> store \<Rightarrow> (store_error + Operation) \<times> store" where
  "readLocked env i s =
     (case decodeLocked env i s of
        (Inl e, s') \<Rightarrow> (Inl e, s')
      | (Inr op, s') \<Rightarrow>
          if i \<in> set (st_interrupted s') then failInterruptedLocked env op s' else (Inr op, s'))"

text \<open>\<^verbatim>\<open>filepath.Ext\<close> of a name without a separator.\<close>

definition ext :: "string \<Rightarrow> string" where
  "ext name =
     (if CHR ''.'' \<in> set name
      then CHR ''.'' # rev (takeWhile (\<lambda>c. c \<noteq> CHR ''.'') (rev name)) else [])"

definition listed_id :: "string \<times> dir_entry \<Rightarrow> string option" where
  "listed_id ne =
     (case ne of
        (_, SubDirectory) \<Rightarrow> None
      | (name, RecordFile _) \<Rightarrow>
          if ext name \<noteq> ''.json'' then None else Some (take (length name - 5) name))"

fun list_entries ::
  "io \<Rightarrow> (string \<times> dir_entry) list \<Rightarrow> store \<Rightarrow>
     (Operation list \<times> (string \<times> store_error) list) \<times> store" where
  "list_entries env [] s = (([], []), s)"
| "list_entries env (ne # nes) s =
     (case listed_id ne of
        None \<Rightarrow> list_entries env nes s
      | Some i \<Rightarrow>
          (case readLocked env i s of
             (Inl e, s') \<Rightarrow>
               (case list_entries env nes s' of
                  ((ops, bad), s'') \<Rightarrow>
                    if is_not_found e then ((ops, bad), s'') else ((ops, (i, e) # bad), s''))
           | (Inr op, s') \<Rightarrow>
               (case list_entries env nes s' of
                  ((ops, bad), s'') \<Rightarrow> ((op # ops, bad), s''))))"

definition listLocked :: "io \<Rightarrow> store \<Rightarrow> (store_error + Operation list) \<times> store" where
  "listLocked env s =
     (if \<not> io_list_ok (outcome env s) then (Inl ErrReadStore, tick s)
      else case list_entries env (sort_key fst (st_dir s)) (tick s) of
             ((ops, bad), s') \<Rightarrow> (Inr ops, s'\<lparr>st_unreadable := bad\<rparr>))"

definition unreadableErrLocked :: "store \<Rightarrow> store_error option" where
  "unreadableErrLocked s =
     (case sort (map fst (st_unreadable s)) of
        [] \<Rightarrow> None
      | i # others \<Rightarrow>
          (case map_of (st_unreadable s) i of
             None \<Rightarrow> None
           | Some e \<Rightarrow> Some (ErrOperationRecordUnreadable (length others) e)))"

subsection \<open>Changing and settling an operation\<close>

definition updateLocked ::
  "io \<Rightarrow> string \<Rightarrow> (Operation \<Rightarrow> Operation) \<Rightarrow> store \<Rightarrow> (store_error + Operation) \<times> store" where
  "updateLocked env i mutate s =
     (case readLocked env i s of
        (Inl e, s') \<Rightarrow> (Inl e, s')
      | (Inr op, s') \<Rightarrow>
          let op' = (mutate op)\<lparr>op_UpdatedAt := io_now (outcome env s')\<rparr>
          in case writeLocked env op' s' of
               (Some e, s'') \<Rightarrow> (Inl e, s'')
             | (None, s'') \<Rightarrow> (Inr op', s''))"

definition settleLocked :: "io \<Rightarrow> string \<Rightarrow> store \<Rightarrow> store_error option \<times> store" where
  "settleLocked env i s =
     (case map_of (st_unsettled s) i of
        None \<Rightarrow> (None, s)
      | Some mutate \<Rightarrow>
          let settled = (\<lambda>t. t\<lparr>st_unsettled := AList.delete i (st_unsettled t)\<rparr>)
          in case updateLocked env i mutate s of
               (Inr op, s') \<Rightarrow> (None, settled s')
             | (Inl e, s') \<Rightarrow> (Some e, if is_not_found e then settled s' else s'))"

fun settle_each :: "io \<Rightarrow> string list \<Rightarrow> store \<Rightarrow> store" where
  "settle_each env [] s = s"
| "settle_each env (i # is) s = settle_each env is (snd (settleLocked env i s))"

definition settle_all :: "io \<Rightarrow> store \<Rightarrow> store" where
  "settle_all env s = settle_each env (map fst (st_unsettled s)) s"

subsection \<open>The calls of the store\<close>

definition newOperationID :: "io \<Rightarrow> store \<Rightarrow> (store_error + string) \<times> store" where
  "newOperationID env s =
     (case io_random (outcome env s) of
        None \<Rightarrow> (Inl ErrGenerateID, tick s)
      | Some rnd \<Rightarrow> (Inr (operationID_of rnd), tick s))"

definition find_key :: "OperationKind \<Rightarrow> string \<Rightarrow> Operation list \<Rightarrow> Operation option" where
  "find_key kind key ops = find (\<lambda>op. op_IdempotencyKey op = key \<and> op_Kind op = kind) ops"

definition create_operation ::
  "io \<Rightarrow> OperationKind \<Rightarrow> string \<Rightarrow> string \<Rightarrow> string \<Rightarrow> store \<Rightarrow> (store_error + Operation \<times> bool) \<times> store" where
  "create_operation env kind key hash db s =
     (case newOperationID env s of
        (Inl e, s') \<Rightarrow> (Inl e, s')
      | (Inr i, s') \<Rightarrow>
          let now = io_now (outcome env s');
              op = \<lparr>op_ID = i, op_Kind = kind, op_IdempotencyKey = key, op_RequestHash = hash,
                    op_Database = db, op_State = OpPending, op_FailureReason = [],
                    op_Artifact = None, op_Restored = None, op_StagingDir = [],
                    op_CreatedAt = now, op_UpdatedAt = now\<rparr>
          in case writeLocked env op s' of
               (None, s'') \<Rightarrow> (Inr (op, False), s'')
             | (Some e, s'') \<Rightarrow>
                 (Inl e, if io_remove_ok (outcome env s'')
                         then (tick s'')\<lparr>st_dir := AList.delete (record_name i) (st_dir s'')\<rparr>
                         else tick s''))"

definition FindOrCreate ::
  "io \<Rightarrow> OperationKind \<Rightarrow> string \<Rightarrow> string \<Rightarrow> string \<Rightarrow> store \<Rightarrow> (store_error + Operation \<times> bool) \<times> store" where
  "FindOrCreate env kind key hash db s0 =
     (case listLocked env (settle_all env s0) of
        (Inl e, s) \<Rightarrow> (Inl e, s)
      | (Inr ops, s) \<Rightarrow>
          (case find_key kind key ops of
             Some op \<Rightarrow>
               if op_RequestHash op \<noteq> hash then (Inl ErrIdempotencyConflict, s)
               else if map_of (st_unsettled s) (op_ID op) \<noteq> None
               then (Inl (ErrUnwrittenEnd (op_ID op) None), s)
               else (Inr (op, True), s)
           | None \<Rightarrow>
               (case unreadableErrLocked s of
                  Some e \<Rightarrow> (Inl e, s)
                | None \<Rightarrow>
                    if \<exists>op \<in> set ops. op_Database op = db \<and> \<not> op_terminal op
                    then (Inl ErrOperationInProgress, s)
                    else create_operation env kind key hash db s)))"

fun find_by_key_entries ::
  "io \<Rightarrow> string \<Rightarrow> (string \<times> dir_entry) list \<Rightarrow> store \<Rightarrow> (store_error + Operation list) \<times> store" where
  "find_by_key_entries env key [] s = (Inr [], s)"
| "find_by_key_entries env key (ne # nes) s =
     (case listed_id ne of
        None \<Rightarrow> find_by_key_entries env key nes s
      | Some i \<Rightarrow>
          (case readLocked env i s of
             (Inl e, s') \<Rightarrow>
               if is_not_found e then find_by_key_entries env key nes s' else (Inl e, s')
           | (Inr op, s') \<Rightarrow>
               if op_IdempotencyKey op \<noteq> key then find_by_key_entries env key nes s'
               else if map_of (st_unsettled s') (op_ID op) \<noteq> None
               then (Inl (ErrUnwrittenEnd (op_ID op) None), s')
               else (case find_by_key_entries env key nes s' of
                       (Inl e, s'') \<Rightarrow> (Inl e, s'')
                     | (Inr ops, s'') \<Rightarrow> (Inr (op # ops), s''))))"

definition FindByKey :: "io \<Rightarrow> string \<Rightarrow> store \<Rightarrow> (store_error + Operation list) \<times> store" where
  "FindByKey env key s0 =
     (let s = settle_all env s0
      in if \<not> io_list_ok (outcome env s) then (Inl ErrReadStore, tick s)
         else find_by_key_entries env key (sort_key fst (st_dir s)) (tick s))"

definition Get :: "io \<Rightarrow> string \<Rightarrow> store \<Rightarrow> (store_error + Operation) \<times> store" where
  "Get env i s =
     (if \<not> isValidOperationID i then (Inl ErrOperationNotFound, s)
      else case settleLocked env i s of
             (Some e, s') \<Rightarrow> (Inl (ErrUnwrittenEnd i (Some e)), s')
           | (None, s') \<Rightarrow> readLocked env i s')"

definition Update ::
  "io \<Rightarrow> string \<Rightarrow> (Operation \<Rightarrow> Operation) \<Rightarrow> store \<Rightarrow> (store_error + Operation) \<times> store" where
  "Update env i mutate s = updateLocked env i mutate s"

definition Settle ::
  "io \<Rightarrow> string \<Rightarrow> (Operation \<Rightarrow> Operation) \<Rightarrow> store \<Rightarrow> store_error option \<times> store" where
  "Settle env i mutate s =
     settleLocked env i (s\<lparr>st_unsettled := AList.update i mutate (st_unsettled s)\<rparr>)"

definition UnwrittenEnds :: "io \<Rightarrow> store \<Rightarrow> string list \<times> store" where
  "UnwrittenEnds env s0 =
     (let s = settle_all env s0 in (sort (map fst (st_unsettled s)), s))"

definition Peek :: "io \<Rightarrow> string \<Rightarrow> store \<Rightarrow> (store_error + Operation) \<times> store" where
  "Peek env i s =
     (case decodeLocked env i s of
        (Inl e, s') \<Rightarrow> (Inl e, s')
      | (Inr op, s') \<Rightarrow>
          (case map_of (st_unsettled s) i of
             Some mutate \<Rightarrow> (Inr (mutate op), s')
           | None \<Rightarrow>
               if i \<in> set (st_interrupted s) \<and> \<not> op_terminal op
               then (Inr (op\<lparr>op_State := OpFailed, op_FailureReason := reasonRestarted\<rparr>), s')
               else (Inr op, s')))"

subsection \<open>The start of a process\<close>

fun fail_unfinished :: "io \<Rightarrow> Operation list \<Rightarrow> store \<Rightarrow> store_error option \<times> store" where
  "fail_unfinished env [] s = (None, s)"
| "fail_unfinished env (op # ops) s =
     (if op_terminal op then fail_unfinished env ops s
      else case writeLocked env (interrupted_op (io_now (outcome env s)) op) s of
             (Some e, s') \<Rightarrow> (Some e, s')
           | (None, s') \<Rightarrow> fail_unfinished env ops s')"

definition reconcileOnStart :: "io \<Rightarrow> store \<Rightarrow> store_error option \<times> store" where
  "reconcileOnStart env s0 =
     (case listLocked env s0 of
        (Inl e, s) \<Rightarrow> (Some e, s)
      | (Inr ops, s) \<Rightarrow>
          fail_unfinished env ops
            (s\<lparr>st_interrupted := remdups (map fst (st_unreadable s) @ st_interrupted s)\<rparr>))"

text \<open>A process starts with the directory and nothing in memory.\<close>

definition empty_memory :: "(string \<times> dir_entry) list \<Rightarrow> nat \<Rightarrow> store" where
  "empty_memory d n =
     \<lparr>st_dir = d, st_unsettled = [], st_unreadable = [], st_interrupted = [], st_tick = n\<rparr>"

definition NewOperationStore :: "io \<Rightarrow> (string \<times> dir_entry) list \<Rightarrow> nat \<Rightarrow> store_error option \<times> store" where
  "NewOperationStore env d n =
     (let s = empty_memory d n
      in if \<not> io_mkdir_ok (outcome env s) then (Some ErrCreateStore, tick s)
         else reconcileOnStart env (tick s))"

end
