(* ===== verification/OpStoreSafety.thy ===== *)
theory OpStoreSafety
  imports OpStore
begin

section \<open>What one call of the operation store does\<close>

text \<open>
  What each call of \<^verbatim>\<open>opstore.go\<close> leaves behind, for every pattern of failures of the disk: which
  records it may change and how (\<open>evolves\<close>), what it may forget (\<open>quiet\<close>), that an answer is what
  is then on disk (\<open>read_post\<close>), that a listing misses no record but those it reports unreadable
  (\<open>listing\<close>), and what is free when a record is created (\<open>FindOrCreate_cases\<close>).
  This theory shows what one call does to the directory and to the maps in memory; \<open>OpSystem\<close> puts
  the calls together and proves the promises.
\<close>

subsection \<open>How records evolve\<close>

definition same_identity :: "Operation \<Rightarrow> Operation \<Rightarrow> bool" where
  "same_identity op op' \<longleftrightarrow>
     op_ID op' = op_ID op \<and> op_Kind op' = op_Kind op \<and> op_IdempotencyKey op' = op_IdempotencyKey op \<and>
     op_RequestHash op' = op_RequestHash op \<and> op_Database op' = op_Database op"

definition is_end :: "(Operation \<Rightarrow> Operation) \<Rightarrow> bool" where
  "is_end m \<longleftrightarrow> (\<forall>op. same_identity op (m op) \<and> op_terminal (m op))"

definition is_progress :: "(Operation \<Rightarrow> Operation) \<Rightarrow> bool" where
  "is_progress m \<longleftrightarrow> (\<forall>op. same_identity op (m op) \<and> \<not> op_terminal (m op))"

definition file_at :: "store \<Rightarrow> string \<Rightarrow> dir_entry option" where
  "file_at s n = map_of (st_dir s) n"

definition kept_end :: "store \<Rightarrow> string \<Rightarrow> (Operation \<Rightarrow> Operation) option" where
  "kept_end s i = map_of (st_unsettled s) i"

definition interrupted :: "store \<Rightarrow> string \<Rightarrow> bool" where
  "interrupted s i \<longleftrightarrow> i \<in> set (st_interrupted s)"

abbreviation is_record :: "dir_entry option \<Rightarrow> Operation \<Rightarrow> bool" where
  "is_record e op \<equiv> e = Some (RecordFile (JsonRecord op))"

abbreviation recorded :: "store \<Rightarrow> string \<Rightarrow> Operation \<Rightarrow> bool" where
  "recorded s i op \<equiv> is_record (file_at s (record_name i)) op"

definition live :: "store \<Rightarrow> string \<Rightarrow> bool" where
  "live s i \<longleftrightarrow> (\<exists>op. recorded s i op \<and> \<not> op_terminal op)"

definition undecodable :: "store \<Rightarrow> string \<Rightarrow> bool" where
  "undecodable s i \<longleftrightarrow>
     isValidOperationID i \<and> file_at s (record_name i) = Some (RecordFile NotDecodable)"

definition op_evolves :: "Operation \<Rightarrow> Operation \<Rightarrow> bool" where
  "op_evolves op op' \<longleftrightarrow> same_identity op op' \<and> (op_terminal op \<longrightarrow> op_terminal op')"

definition entry_evolves :: "dir_entry option \<Rightarrow> dir_entry option \<Rightarrow> bool" where
  "entry_evolves e e' \<longleftrightarrow> e' = e \<or> (\<exists>op op'. is_record e op \<and> is_record e' op' \<and> op_evolves op op')"

definition evolves :: "store \<Rightarrow> store \<Rightarrow> bool" where
  "evolves s s' \<longleftrightarrow>
     map fst (st_dir s') = map fst (st_dir s) \<and> (\<forall>n. entry_evolves (file_at s n) (file_at s' n))"

text \<open>
  What a call may do that starts and ends no operation of its own: it writes kept ends and fails
  interrupted records, forgets one of those only when its record no longer says that the operation
  runs, and touches no other record.
\<close>

definition quiet :: "store \<Rightarrow> store \<Rightarrow> bool" where
  "quiet s s' \<longleftrightarrow>
     evolves s s' \<and>
     (\<forall>n. file_at s' n \<noteq> file_at s n \<longrightarrow>
        (\<exists>i. n = record_name i \<and> (kept_end s i \<noteq> None \<or> interrupted s i))) \<and>
     (\<forall>i. kept_end s' i = kept_end s i \<or> kept_end s' i = None \<and> \<not> live s' i) \<and>
     (\<forall>i. interrupted s' i = interrupted s i \<or> \<not> interrupted s' i \<and> \<not> live s' i)"

definition record_ok :: "string \<Rightarrow> Operation \<Rightarrow> bool" where
  "record_ok n op \<longleftrightarrow>
     n = record_name (op_ID op) \<and> isValidOperationID (op_ID op) \<and>
     op_Kind op \<noteq> KindOther [] \<and> op_IdempotencyKey op \<noteq> []"

definition store_ok :: "store \<Rightarrow> bool" where
  "store_ok s \<longleftrightarrow>
     distinct (map fst (st_dir s)) \<and>
     (\<forall>n op. is_record (file_at s n) op \<longrightarrow> record_ok n op) \<and>
     (\<forall>i m. kept_end s i = Some m \<longrightarrow> is_end m)"

lemma record_name_inject [simp]: "record_name i = record_name j \<longleftrightarrow> i = j"
  by (simp add: record_name_def)

lemma op_evolves_refl [simp]: "op_evolves op op"
  by (simp add: op_evolves_def same_identity_def)

lemma op_evolves_trans: "op_evolves a b \<Longrightarrow> op_evolves b c \<Longrightarrow> op_evolves a c"
  by (simp add: op_evolves_def same_identity_def)

lemma entry_evolves_refl [simp]: "entry_evolves e e"
  by (simp add: entry_evolves_def)

lemma entry_evolves_trans:
  assumes "entry_evolves a b" "entry_evolves b c"
  shows "entry_evolves a c"
  using assms unfolding entry_evolves_def by (auto intro: op_evolves_trans)

lemma entry_evolves_back:
  assumes "entry_evolves e e'" "is_record e' op'"
  shows "\<exists>op. is_record e op \<and> op_evolves op op'"
proof (cases "e' = e")
  case True
  then show ?thesis using assms(2) by auto
next
  case False
  then show ?thesis using assms by (auto simp: entry_evolves_def)
qed

lemma entry_evolves_on:
  assumes "entry_evolves e e'" "is_record e op"
  shows "\<exists>op'. is_record e' op' \<and> op_evolves op op'"
proof (cases "e' = e")
  case True
  then show ?thesis using assms(2) by auto
next
  case False
  then show ?thesis using assms by (auto simp: entry_evolves_def)
qed

lemma evolves_refl [simp]: "evolves s s"
  by (simp add: evolves_def)

lemma evolves_trans: "evolves a b \<Longrightarrow> evolves b c \<Longrightarrow> evolves a c"
  unfolding evolves_def using entry_evolves_trans by metis

lemma evolves_back:
  "evolves s s' \<Longrightarrow> is_record (file_at s' n) op' \<Longrightarrow> \<exists>op. is_record (file_at s n) op \<and> op_evolves op op'"
  unfolding evolves_def using entry_evolves_back by blast

lemma evolves_on:
  "evolves s s' \<Longrightarrow> is_record (file_at s n) op \<Longrightarrow> \<exists>op'. is_record (file_at s' n) op' \<and> op_evolves op op'"
  unfolding evolves_def using entry_evolves_on by blast

lemma live_back: "evolves s s' \<Longrightarrow> live s' i \<Longrightarrow> live s i"
  using evolves_back unfolding live_def op_evolves_def by metis

lemma quiet_evolves: "quiet s s' \<Longrightarrow> evolves s s'"
  by (simp add: quiet_def)

lemma quietI:
  assumes "evolves s s'"
    and "\<And>n. file_at s' n \<noteq> file_at s n \<Longrightarrow> \<exists>i. n = record_name i \<and> (kept_end s i \<noteq> None \<or> interrupted s i)"
    and "\<And>i. kept_end s' i \<noteq> kept_end s i \<Longrightarrow> kept_end s' i = None \<and> \<not> live s' i"
    and "\<And>i. interrupted s' i \<noteq> interrupted s i \<Longrightarrow> \<not> interrupted s' i \<and> \<not> live s' i"
  shows "quiet s s'"
  unfolding quiet_def using assms by (intro conjI allI impI) blast+

lemma quiet_refl [simp]: "quiet s s"
  by (simp add: quiet_def)

lemma quiet_kept_end: "quiet s s' \<Longrightarrow> kept_end s' i = kept_end s i \<or> kept_end s' i = None \<and> \<not> live s' i"
  by (simp add: quiet_def)

lemma quiet_interrupted:
  "quiet s s' \<Longrightarrow> interrupted s' i = interrupted s i \<or> \<not> interrupted s' i \<and> \<not> live s' i"
  by (simp add: quiet_def)

lemma quiet_changed:
  "quiet s s' \<Longrightarrow> file_at s' n \<noteq> file_at s n \<Longrightarrow>
    \<exists>i. n = record_name i \<and> (kept_end s i \<noteq> None \<or> interrupted s i)"
  by (simp add: quiet_def)

lemma quiet_trans:
  assumes q: "quiet a b" and r: "quiet b c"
  shows "quiet a c"
proof -
  have dead: "\<not> live b i \<Longrightarrow> \<not> live c i" for i
    using live_back [OF quiet_evolves [OF r]] by blast
  have moved: "\<exists>i. n = record_name i \<and> (kept_end a i \<noteq> None \<or> interrupted a i)"
    if diff: "file_at c n \<noteq> file_at a n" for n
  proof (cases "file_at b n = file_at a n")
    case True
    then obtain i where "n = record_name i" "kept_end b i \<noteq> None \<or> interrupted b i"
      using quiet_changed [OF r, of n] diff by auto
    then show ?thesis using quiet_kept_end [OF q, of i] quiet_interrupted [OF q, of i] by auto
  next
    case False
    then show ?thesis using quiet_changed [OF q] by blast
  qed
  have kept: "kept_end c i = kept_end a i \<or> kept_end c i = None \<and> \<not> live c i" for i
    using quiet_kept_end [OF q, of i] quiet_kept_end [OF r, of i] dead [of i] by metis
  have inter: "interrupted c i = interrupted a i \<or> \<not> interrupted c i \<and> \<not> live c i" for i
    using quiet_interrupted [OF q, of i] quiet_interrupted [OF r, of i] dead [of i] by metis
  show ?thesis
    using evolves_trans [OF q [THEN quiet_evolves] r [THEN quiet_evolves]] moved kept inter
    unfolding quiet_def by blast
qed

lemma store_ok_evolves:
  assumes ok: "store_ok s" and ev: "evolves s s'"
    and ends: "\<And>i m. kept_end s' i = Some m \<Longrightarrow> is_end m"
  shows "store_ok s'"
proof -
  have "record_ok n op'" if rec: "is_record (file_at s' n) op'" for n op'
  proof -
    obtain op where "is_record (file_at s n) op" and same: "op_evolves op op'"
      using evolves_back [OF ev rec] by auto
    then have "record_ok n op" using ok by (simp add: store_ok_def)
    then show ?thesis using same by (simp add: op_evolves_def same_identity_def record_ok_def)
  qed
  then show ?thesis using ok ev ends by (simp add: store_ok_def evolves_def)
qed

lemma store_ok_end: "store_ok s \<Longrightarrow> kept_end s i = Some m \<Longrightarrow> is_end m"
  by (simp add: store_ok_def)

lemma store_ok_quiet: "store_ok s \<Longrightarrow> quiet s s' \<Longrightarrow> store_ok s'"
  by (metis store_ok_evolves quiet_evolves quiet_kept_end store_ok_end option.distinct(1))

subsection \<open>What one access does\<close>

definition same_memory :: "store \<Rightarrow> store \<Rightarrow> bool" where
  "same_memory s s' \<longleftrightarrow> st_unsettled s' = st_unsettled s \<and> st_interrupted s' = st_interrupted s"

lemma same_memory_simps:
  assumes "same_memory s s'"
  shows "kept_end s' = kept_end s" "interrupted s' = interrupted s"
  using assms by (auto simp: same_memory_def kept_end_def interrupted_def fun_eq_iff)

lemma same_memory_refl [simp]: "same_memory s s"
  by (simp add: same_memory_def)

lemma same_memory_trans: "same_memory a b \<Longrightarrow> same_memory b c \<Longrightarrow> same_memory a c"
  by (simp add: same_memory_def)

lemma tick_simps [simp]:
  "st_dir (tick s) = st_dir s" "st_unsettled (tick s) = st_unsettled s"
  "st_interrupted (tick s) = st_interrupted s" "st_unreadable (tick s) = st_unreadable s"
  "file_at (tick s) = file_at s" "kept_end (tick s) = kept_end s" "interrupted (tick s) = interrupted s"
  by (auto simp: tick_def file_at_def kept_end_def interrupted_def fun_eq_iff)

lemma writeLocked_effect:
  assumes "writeLocked env op s = (r, s')"
  shows "same_memory s s'"
    and "st_dir s' = st_dir s \<or>
         st_dir s' = AList.update (record_name (op_ID op)) (RecordFile (JsonRecord op)) (st_dir s)"
    and "r = None \<Longrightarrow>
         st_dir s' = AList.update (record_name (op_ID op)) (RecordFile (JsonRecord op)) (st_dir s)"
    and "r = Some e \<Longrightarrow> \<not> is_not_found e"
  using assms by (auto simp: writeLocked_def same_memory_def Let_def split: if_splits write_outcome.splits)

lemma writeLocked_file:
  assumes "writeLocked env op s = (r, s')"
  shows "n \<noteq> record_name (op_ID op) \<Longrightarrow> file_at s' n = file_at s n"
    and "r = None \<Longrightarrow> recorded s' (op_ID op) op"
    and "file_at s' (record_name (op_ID op)) = file_at s (record_name (op_ID op)) \<or> recorded s' (op_ID op) op"
  using writeLocked_effect(2,3) [OF assms] by (auto simp: file_at_def update_conv')

lemma update_keys:
  "k \<in> fst ` set xs \<Longrightarrow> map fst (AList.update k v xs) = map fst xs"
  by (induction xs) auto

lemma writeLocked_evolves:
  assumes w: "writeLocked env op s = (r, s')" and old: "recorded s (op_ID op) op0" and ev: "op_evolves op0 op"
  shows "evolves s s'"
proof -
  have "record_name (op_ID op) \<in> fst ` set (st_dir s)"
    using map_of_SomeD [of "st_dir s" "record_name (op_ID op)"] old by (force simp: file_at_def)
  then have "map fst (st_dir s') = map fst (st_dir s)"
    using writeLocked_effect(2) [OF w] update_keys by metis
  moreover have "entry_evolves (file_at s n) (file_at s' n)" for n
    using writeLocked_file [OF w] old ev by (cases "n = record_name (op_ID op)") (auto simp: entry_evolves_def)
  ultimately show ?thesis by (simp add: evolves_def)
qed

lemma decodeLocked_effect:
  assumes "decodeLocked env i s = (r, s')"
  shows "same_memory s s'" "st_dir s' = st_dir s" "file_at s' = file_at s"
    and "r = Inr op \<Longrightarrow> recorded s i op \<and> op_ID op = i \<and> isValidOperationID i"
    and "r = Inl e \<Longrightarrow> is_not_found e \<Longrightarrow> isValidOperationID i \<Longrightarrow> file_at s (record_name i) = None"
  using assms
  by (auto simp: decodeLocked_def same_memory_def file_at_def split: if_splits option.splits dir_entry.splits record_file.splits)

lemma interrupted_op_evolves [simp]: "op_evolves op (interrupted_op t op)"
  "op_ID (interrupted_op t op) = op_ID op" "op_terminal (interrupted_op t op)"
  by (auto simp: interrupted_op_def op_evolves_def same_identity_def)

text \<open>A read leaves every other record alone, and what it answers is what is then on disk.\<close>

definition read_post :: "string \<Rightarrow> store \<Rightarrow> (store_error + Operation) \<Rightarrow> store \<Rightarrow> bool" where
  "read_post i s r s' \<longleftrightarrow>
     quiet s s' \<and> kept_end s' = kept_end s \<and>
     (\<forall>n. n \<noteq> record_name i \<longrightarrow> file_at s' n = file_at s n) \<and>
     (\<forall>op. r = Inr op \<longrightarrow>
        recorded s' i op \<and> op_ID op = i \<and> isValidOperationID i \<and> \<not> interrupted s' i \<and>
        (interrupted s i \<longrightarrow> op_terminal op)) \<and>
     (\<forall>e. r = Inl e \<longrightarrow> is_not_found e \<longrightarrow> isValidOperationID i \<longrightarrow> file_at s' (record_name i) = None)"

lemma failInterruptedLocked_post:
  assumes f: "failInterruptedLocked env op s = (r, s')"
    and rec: "recorded s (op_ID op) op" and valid: "isValidOperationID (op_ID op)"
    and int: "interrupted s (op_ID op)"
  shows "read_post (op_ID op) s r s'"
proof (cases "op_terminal op")
  case True
  then have s': "s' = s\<lparr>st_interrupted := removeAll (op_ID op) (st_interrupted s)\<rparr>" and r: "r = Inr op"
    using f by (auto simp: failInterruptedLocked_def Let_def)
  then have same: "file_at s' = file_at s" "kept_end s' = kept_end s" "st_dir s' = st_dir s"
    "\<And>i. interrupted s' i \<longleftrightarrow> interrupted s i \<and> i \<noteq> op_ID op"
    by (auto simp: file_at_def kept_end_def interrupted_def fun_eq_iff)
  moreover have "\<not> live s' (op_ID op)" using same rec True by (simp add: live_def)
  then have "quiet s s'"
    by (intro quietI) (use same in \<open>auto simp: evolves_def\<close>)
  ultimately show ?thesis using r rec valid True by (simp add: read_post_def)
next
  case False
  let ?op = "interrupted_op (io_now (outcome env s)) op"
  obtain w s1 where w: "writeLocked env ?op s = (w, s1)" by (cases "writeLocked env ?op s")
  have ev: "evolves s s1" using writeLocked_evolves [OF w] rec by simp
  have mem: "kept_end s1 = kept_end s" "interrupted s1 = interrupted s"
    using same_memory_simps [OF writeLocked_effect(1) [OF w]] by auto
  have frame: "\<And>n. n \<noteq> record_name (op_ID op) \<Longrightarrow> file_at s1 n = file_at s n"
    using writeLocked_file(1) [OF w] by simp
  have q: "quiet s s1"
    by (rule quietI [OF ev]) (use mem frame int in auto)
  show ?thesis
  proof (cases w)
    case (Some e)
    then have "s' = s1" "r = Inl (ErrInterruptedRecord (op_ID op) e)"
      using f w False by (auto simp: failInterruptedLocked_def Let_def)
    then show ?thesis using q mem frame writeLocked_effect(4) [OF w Some] by (simp add: read_post_def)
  next
    case None
    then have s': "s' = s1\<lparr>st_interrupted := removeAll (op_ID op) (st_interrupted s1)\<rparr>" and r: "r = Inr ?op"
      using f w False by (auto simp: failInterruptedLocked_def Let_def)
    have same: "file_at s' = file_at s1" "kept_end s' = kept_end s1" "st_dir s' = st_dir s1"
      "\<And>i. interrupted s' i \<longleftrightarrow> interrupted s1 i \<and> i \<noteq> op_ID op"
      using s' by (auto simp: file_at_def kept_end_def interrupted_def fun_eq_iff)
    have now: "recorded s1 (op_ID op) ?op" using writeLocked_file(2) [OF w None] by simp
    have "evolves s s'" using ev same by (simp add: evolves_def)
    moreover have "\<not> live s' (op_ID op)" using now same by (simp add: live_def)
    ultimately have "quiet s s'"
      by (intro quietI) (use same mem frame int in auto)
    then show ?thesis using r now same mem frame valid by (simp add: read_post_def)
  qed
qed

lemma readLocked_post:
  assumes "readLocked env i s = (r, s')"
  shows "read_post i s r s'"
proof -
  obtain d s1 where d: "decodeLocked env i s = (d, s1)" by (cases "decodeLocked env i s")
  note same = decodeLocked_effect [OF d]
  have mem: "kept_end s1 = kept_end s" "interrupted s1 = interrupted s"
    using same_memory_simps [OF same(1)] by auto
  have q: "quiet s s1" using same(2,3) mem by (simp add: quiet_def evolves_def)
  show ?thesis
  proof (cases "\<exists>op. d = Inr op \<and> interrupted s1 i")
    case False
    then have "r = d" "s' = s1"
      using assms d by (auto simp: readLocked_def interrupted_def split: sum.splits if_splits)
    moreover have "\<not> interrupted s i" if "d = Inr op" for op using False mem that by simp
    ultimately show ?thesis using q mem same(3,4,5) by (simp add: read_post_def)
  next
    case True
    then obtain op where op: "d = Inr op" "interrupted s1 i" by blast
    then have f: "failInterruptedLocked env op s1 = (r, s')"
      using assms d by (auto simp: readLocked_def interrupted_def)
    have "recorded s1 (op_ID op) op" "isValidOperationID (op_ID op)" "op_ID op = i"
      using same(3,4) op by auto
    then have post: "read_post i s1 r s'" using failInterruptedLocked_post [OF f] op by simp
    then have "quiet s s'" using quiet_trans [OF q] by (simp add: read_post_def)
    then show ?thesis using post unfolding read_post_def mem same(3) by simp
  qed
qed

subsection \<open>Writing kept ends\<close>

lemma is_endD: "is_end m \<Longrightarrow> same_identity op (m op) \<and> op_terminal (m op)"
  by (simp add: is_end_def)

lemma forget_end_simps:
  assumes "s' = s\<lparr>st_unsettled := AList.delete i (st_unsettled s)\<rparr>"
  shows "file_at s' = file_at s" "interrupted s' = interrupted s" "st_dir s' = st_dir s"
    "kept_end s' j = (if j = i then None else kept_end s j)" "live s' j = live s j"
  using assms by (auto simp: file_at_def interrupted_def kept_end_def live_def fun_eq_iff delete_conv')

lemma quiet_forget_end:
  assumes "quiet s s1" "\<not> live s1 i" "s' = s1\<lparr>st_unsettled := AList.delete i (st_unsettled s1)\<rparr>"
  shows "quiet s s'"
proof -
  note f = forget_end_simps [OF assms(3)]
  have "quiet s1 s'" by (rule quietI) (use f assms(2) in \<open>auto simp: evolves_def split: if_splits\<close>)
  then show ?thesis using assms(1) quiet_trans by blast
qed

lemma store_ok_record: "store_ok s \<Longrightarrow> is_record (file_at s n) op \<Longrightarrow> record_ok n op"
  by (simp add: store_ok_def)

lemma settleLocked_post:
  assumes s: "settleLocked env i s = (r, s')" and ok: "store_ok s"
  shows "quiet s s' \<and> (r = None \<longrightarrow> kept_end s' i = None)"
proof (cases "kept_end s i")
  case None
  then show ?thesis using s by (auto simp: settleLocked_def kept_end_def)
next
  case (Some m)
  obtain a s1 where a: "readLocked env i s = (a, s1)" by (cases "readLocked env i s")
  have post: "read_post i s a s1" by (rule readLocked_post [OF a])
  then have q: "quiet s s1" and kept: "kept_end s1 = kept_end s" by (auto simp: read_post_def)
  have unfolded: "map_of (st_unsettled s) i = Some m" using Some by (simp add: kept_end_def)
  show ?thesis
  proof (cases a)
    case (Inl e)
    then have r: "r = Some e" and
      s': "s' = (if is_not_found e then s1\<lparr>st_unsettled := AList.delete i (st_unsettled s1)\<rparr> else s1)"
      using s a unfolded by (auto simp: settleLocked_def updateLocked_def Let_def)
    have "\<not> live s1 i" if "is_not_found e"
      using post Inl that store_ok_record [OF store_ok_quiet [OF ok q], of "record_name i"]
      by (auto simp: read_post_def live_def record_ok_def)
    then show ?thesis using r s' q quiet_forget_end by auto
  next
    case (Inr op)
    let ?op = "(m op)\<lparr>op_UpdatedAt := io_now (outcome env s1)\<rparr>"
    obtain w s2 where w: "writeLocked env ?op s1 = (w, s2)" by (cases "writeLocked env ?op s1")
    have m: "same_identity op (m op)" "op_terminal (m op)" using store_ok_end [OF ok Some] is_endD by blast+
    then have opi: "op_ID ?op = i" "op_evolves op ?op" "op_terminal ?op"
      using post Inr by (auto simp: read_post_def op_evolves_def same_identity_def)
    have rec: "recorded s1 i op" using post Inr by (simp add: read_post_def)
    have mem: "kept_end s2 = kept_end s1" "interrupted s2 = interrupted s1"
      using same_memory_simps [OF writeLocked_effect(1) [OF w]] by auto
    have "evolves s1 s2" using writeLocked_evolves [OF w, of op] rec opi by simp
    then have "quiet s1 s2"
      by (rule quietI) (use mem kept Some writeLocked_file(1) [OF w] opi in auto)
    then have q2: "quiet s s2" using q quiet_trans by blast
    show ?thesis
    proof (cases w)
      case None
      then have "r = None" and s': "s' = s2\<lparr>st_unsettled := AList.delete i (st_unsettled s2)\<rparr>"
        using s a unfolded Inr w by (auto simp: settleLocked_def updateLocked_def Let_def)
      moreover have "\<not> live s2 i" using writeLocked_file(2) [OF w None] opi by (auto simp: live_def)
      ultimately show ?thesis using quiet_forget_end [OF q2 _ s'] forget_end_simps [OF s'] by simp
    next
      case (Some e)
      then have "r = Some e" "s' = s2"
        using s a unfolded Inr w writeLocked_effect(4) [OF w] 
        by (auto simp: settleLocked_def updateLocked_def Let_def)
      then show ?thesis using q2 by simp
    qed
  qed
qed

lemma settle_each_quiet:
  "store_ok s \<Longrightarrow> quiet s (settle_each env is s)"
proof (induction "is" arbitrary: s)
  case Nil
  then show ?case by simp
next
  case (Cons i "is")
  let ?s = "snd (settleLocked env i s)"
  have q: "quiet s ?s" using settleLocked_post [of env i s "fst (settleLocked env i s)" ?s] Cons.prems by simp
  then have "quiet ?s (settle_each env is ?s)" using Cons store_ok_quiet by blast
  then show ?case using q quiet_trans by auto
qed

lemma settle_all_quiet: "store_ok s \<Longrightarrow> quiet s (settle_all env s)"
  unfolding settle_all_def by (rule settle_each_quiet)

subsection \<open>Listing the directory\<close>

lemma ext_json_iff: "ext n = ''.json'' \<longleftrightarrow> (\<exists>i. n = i @ ''.json'')"
proof
  assume e: "ext n = ''.json''"
  then have mem: "CHR ''.'' \<in> set (rev n)" and tw: "takeWhile (\<lambda>c. c \<noteq> CHR ''.'') (rev n) = ''nosj''"
    by (auto simp: ext_def split: if_splits)
  have "dropWhile (\<lambda>c. c \<noteq> CHR ''.'') (rev n) \<noteq> []" using mem by (simp add: dropWhile_eq_Nil_conv)
  then obtain c r where d: "dropWhile (\<lambda>c. c \<noteq> CHR ''.'') (rev n) = c # r" by (meson neq_Nil_conv)
  then have "c = CHR ''.''" using hd_dropWhile [of "\<lambda>c. c \<noteq> CHR ''.''" "rev n"] by simp
  then have "rev n = ''nosj.'' @ r"
    using takeWhile_dropWhile_id [of "\<lambda>c. c \<noteq> CHR ''.''" "rev n"] tw d by simp
  then have "n = rev r @ ''.json''" by (metis rev_append rev_rev_ident rev.simps append.simps)
  then show "\<exists>i. n = i @ ''.json''" by blast
next
  assume "\<exists>i. n = i @ ''.json''"
  then show "ext n = ''.json''" by (auto simp: ext_def)
qed

lemma listed_id_iff: "listed_id (n, e) = Some i \<longleftrightarrow> n = record_name i \<and> (\<exists>f. e = RecordFile f)"
  by (auto simp: listed_id_def record_name_def ext_json_iff split: dir_entry.splits)

definition list_post ::
  "(string \<times> dir_entry) list \<Rightarrow> store \<Rightarrow> Operation list \<Rightarrow> string set \<Rightarrow> store \<Rightarrow> bool" where
  "list_post nes s ops bad s' \<longleftrightarrow>
     quiet s s' \<and> kept_end s' = kept_end s \<and>
     (\<forall>n. n \<notin> fst ` set nes \<longrightarrow> file_at s' n = file_at s n) \<and>
     (\<forall>op \<in> set ops. recorded s' (op_ID op) op \<and> \<not> interrupted s' (op_ID op)) \<and>
     (\<forall>i f op. (record_name i, RecordFile f) \<in> set nes \<longrightarrow> recorded s' i op \<longrightarrow> op \<in> set ops \<or> i \<in> bad) \<and>
     (\<forall>i f. (record_name i, RecordFile f) \<in> set nes \<longrightarrow> undecodable s' i \<longrightarrow> i \<in> bad) \<and>
     (\<forall>op \<in> set ops. record_name (op_ID op) \<in> fst ` set nes) \<and>
     (\<forall>i \<in> bad. record_name i \<in> fst ` set nes)"

lemma list_post_step:
  assumes ok: "store_ok s" and fresh: "n \<notin> fst ` set nes" and i: "n = record_name i"
    and read: "read_post i s r s1" and rest: "list_post nes s1 ops bad s'"
    and ops': "ops' = (case r of Inr op \<Rightarrow> op # ops | Inl e \<Rightarrow> ops)"
    and bad': "bad' = (case r of Inr op \<Rightarrow> bad | Inl e \<Rightarrow> if is_not_found e then bad else insert i bad)"
  shows "list_post ((n, e) # nes) s ops' bad' s'"
proof -
  have q: "quiet s s1" "quiet s1 s'" using read rest by (auto simp: read_post_def list_post_def)
  then have qs: "quiet s s'" using quiet_trans by blast
  have ok': "store_ok s'" using store_ok_quiet [OF ok qs] .
  have at: "file_at s' n = file_at s1 n" using rest fresh by (simp add: list_post_def)
  have inter: "\<not> interrupted s' i" if "\<not> interrupted s1 i"
    using quiet_interrupted [OF q(2), of i] that by auto
  have sound: "recorded s' (op_ID op) op \<and> \<not> interrupted s' (op_ID op)" if "op \<in> set ops'" for op
  proof (cases "op \<in> set ops")
    case True
    then show ?thesis using rest by (simp add: list_post_def)
  next
    case False
    then have "r = Inr op" using that ops' by (auto split: sum.splits)
    then show ?thesis using read inter at i by (auto simp: read_post_def)
  qed
  have complete: "op \<in> set ops' \<or> j \<in> bad'" if rec: "recorded s' j op" and mem: "(record_name j, RecordFile f) \<in> set ((n, e) # nes)" for j f op
  proof (cases "j = i")
    case False
    then have "op \<in> set ops \<or> j \<in> bad" using rec mem rest i by (auto simp: list_post_def)
    then show ?thesis using ops' bad' by (auto split: sum.splits)
  next
    case True
    have valid: "isValidOperationID i"
      using store_ok_record [OF ok' rec] rec True by (auto simp: record_ok_def)
    show ?thesis
    proof (cases r)
      case (Inl x)
      then show ?thesis using read valid at i rec True bad' by (auto simp: read_post_def)
    next
      case (Inr op')
      then have "op' = op" using read at i rec True by (auto simp: read_post_def)
      then show ?thesis using Inr ops' by simp
    qed
  qed
  have undec: "j \<in> bad'" if un: "undecodable s' j" and mem: "(record_name j, RecordFile f) \<in> set ((n, e) # nes)" for j f
  proof (cases "j = i")
    case False
    then have "j \<in> bad" using un mem rest i by (auto simp: list_post_def)
    then show ?thesis using bad' by (auto split: sum.splits)
  next
    case True
    then show ?thesis using un read at i bad' by (cases r) (auto simp: read_post_def undecodable_def)
  qed
  have names: "\<forall>op \<in> set ops'. record_name (op_ID op) \<in> insert n (fst ` set nes)"
    using ops' rest read i by (auto simp: list_post_def read_post_def split: sum.splits)
  have bads: "\<forall>j \<in> bad'. record_name j \<in> insert n (fst ` set nes)"
    using bad' rest i by (auto simp: list_post_def split: sum.splits if_splits)
  have frame: "file_at s' k = file_at s k" if "k \<notin> insert n (fst ` set nes)" for k
    using that read rest i by (simp add: read_post_def list_post_def)
  have kept: "kept_end s' = kept_end s" using read rest by (simp add: read_post_def list_post_def)
  show ?thesis unfolding list_post_def
    using qs kept frame sound complete undec names bads by auto
qed

lemma list_post_skip:
  assumes "list_post nes s ops bad s'" "listed_id (n, e) = None"
  shows "list_post ((n, e) # nes) s ops bad s'"
proof -
  have "\<not> (\<exists>i f. n = record_name i \<and> e = RecordFile f)"
    using assms(2) listed_id_iff [of n e] by auto
  then show ?thesis using assms(1) unfolding list_post_def by auto
qed

lemma list_entries_post:
  assumes "list_entries env nes s = ((ops, bad), s')" "store_ok s" "distinct (map fst nes)"
  shows "list_post nes s ops (fst ` set bad) s'"
  using assms
proof (induction nes arbitrary: s ops bad s')
  case Nil
  then show ?case by (simp add: list_post_def)
next
  case (Cons ne nes)
  obtain n e where ne: "ne = (n, e)" by (cases ne)
  have fresh: "n \<notin> fst ` set nes" and dist: "distinct (map fst nes)" using Cons.prems(3) ne by auto
  show ?case
  proof (cases "listed_id ne")
    case None
    then show ?thesis using Cons.IH [OF _ Cons.prems(2) dist] Cons.prems(1) list_post_skip ne by auto
  next
    case (Some i)
    then have i: "n = record_name i" using listed_id_iff ne by auto
    obtain r s1 where r: "readLocked env i s = (r, s1)" by (cases "readLocked env i s")
    obtain ops1 bad1 s2 where l: "list_entries env nes s1 = ((ops1, bad1), s2)" by (metis prod.exhaust)
    have read: "read_post i s r s1" by (rule readLocked_post [OF r])
    then have "store_ok s1" using store_ok_quiet [OF Cons.prems(2)] by (simp add: read_post_def)
    then have rest: "list_post nes s1 ops1 (fst ` set bad1) s2" using Cons.IH [OF l _ dist] by simp
    have "s' = s2" "ops = (case r of Inr op \<Rightarrow> op # ops1 | Inl e \<Rightarrow> ops1)"
      "fst ` set bad = (case r of Inr op \<Rightarrow> fst ` set bad1
          | Inl e \<Rightarrow> if is_not_found e then fst ` set bad1 else insert i (fst ` set bad1))"
      using Cons.prems(1) Some r l by (auto split: sum.splits if_splits)
    then show ?thesis using list_post_step [OF Cons.prems(2) fresh i read rest] ne by simp
  qed
qed

text \<open>What a listing says of the store it leaves: it names records as they are, and misses none but
  those it reports unreadable.\<close>

definition listing :: "Operation list \<Rightarrow> store \<Rightarrow> bool" where
  "listing ops s \<longleftrightarrow>
     (\<forall>op \<in> set ops. recorded s (op_ID op) op \<and> \<not> interrupted s (op_ID op)) \<and>
     (\<forall>i op. recorded s i op \<longrightarrow> op \<in> set ops \<or> i \<in> fst ` set (st_unreadable s)) \<and>
     (\<forall>i. undecodable s i \<longrightarrow> i \<in> fst ` set (st_unreadable s)) \<and>
     (\<forall>i \<in> fst ` set (st_unreadable s). record_name i \<in> fst ` set (st_dir s))"

lemma recorded_in_dir:
  assumes "evolves s s'" "recorded s' i op"
  shows "\<exists>f. (record_name i, RecordFile f) \<in> set (st_dir s)"
  using evolves_back [OF assms] map_of_SomeD by (fastforce simp: file_at_def)

lemma undecodable_in_dir:
  assumes "evolves s s'" "undecodable s' i"
  shows "\<exists>f. (record_name i, RecordFile f) \<in> set (st_dir s)"
proof -
  have "entry_evolves (file_at s (record_name i)) (file_at s' (record_name i))"
    using assms(1) by (simp add: evolves_def)
  then have "file_at s (record_name i) = Some (RecordFile NotDecodable)"
    using assms(2) by (auto simp: entry_evolves_def undecodable_def)
  then show ?thesis using map_of_SomeD by (fastforce simp: file_at_def)
qed

lemma quiet_keys: "quiet s s' \<Longrightarrow> fst ` set (st_dir s') = fst ` set (st_dir s)"
  unfolding quiet_def evolves_def by (metis list.set_map)

lemma listLocked_post:
  assumes l: "listLocked env s = (r, s')" and ok: "store_ok s"
  shows "quiet s s'" "kept_end s' = kept_end s" "r = Inr ops \<Longrightarrow> listing ops s'"
proof -
  have "quiet s s' \<and> kept_end s' = kept_end s \<and> (r = Inr ops \<longrightarrow> listing ops s')"
  proof (cases "io_list_ok (outcome env s)")
    case False
    then have "r = Inl ErrReadStore" "s' = tick s" using l by (auto simp: listLocked_def)
    then show ?thesis by (auto simp: quiet_def evolves_def)
  next
    case True
    obtain ops' bad s1 where e: "list_entries env (sort_key fst (st_dir s)) (tick s) = ((ops', bad), s1)"
      by (metis prod.exhaust)
    then have r: "r = Inr ops'" and s': "s' = s1\<lparr>st_unreadable := bad\<rparr>"
      using l True by (auto simp: listLocked_def)
    have okt: "store_ok (tick s)" using ok by (simp add: store_ok_def)
    have "distinct (map fst (sort_key fst (st_dir s)))"
      using ok by (simp add: store_ok_def distinct_map inj_on_def)
    then have post: "list_post (sort_key fst (st_dir s)) (tick s) ops' (fst ` set bad) s1"
      using list_entries_post [OF e okt] by simp
    have same: "file_at s' = file_at s1" "kept_end s' = kept_end s1" "interrupted s' = interrupted s1"
      "st_dir s' = st_dir s1" "\<And>i. live s' i = live s1 i" "\<And>i. undecodable s' i = undecodable s1 i"
      using s' by (auto simp: file_at_def kept_end_def interrupted_def live_def undecodable_def fun_eq_iff)
    have "quiet (tick s) s1" using post by (simp add: list_post_def)
    then have q: "quiet s s'"
      using same by (simp add: quiet_def evolves_def)
    have "listing ops' s'"
      using post same quiet_keys [OF q] s'
        recorded_in_dir [OF quiet_evolves [OF q]] undecodable_in_dir [OF quiet_evolves [OF q]]
      by (simp add: list_post_def listing_def)
    then show ?thesis using r q same post by (auto simp: list_post_def)
  qed
  then show "quiet s s'" "kept_end s' = kept_end s" "r = Inr ops \<Longrightarrow> listing ops s'" by auto
qed

lemma unreadableErrLocked_None: "unreadableErrLocked s = None \<Longrightarrow> st_unreadable s = []"
proof (rule ccontr)
  assume e: "unreadableErrLocked s = None" and ne: "st_unreadable s \<noteq> []"
  then obtain i js where ids: "sort (map fst (st_unreadable s)) = i # js"
    by (metis list.exhaust list.map_disc_iff set_empty2 set_sort)
  then have "i \<in> set (map fst (st_unreadable s))" by (metis list.set_intros(1) set_sort)
  then have "map_of (st_unreadable s) i \<noteq> None" by (simp add: map_of_eq_None_iff)
  then show False using e ids by (auto simp: unreadableErrLocked_def)
qed

subsection \<open>New operation IDs\<close>

lemma hex_char_valid: "d < 16 \<Longrightarrow> is_id_char (hex_char d)"
  by (auto simp: is_id_char_def hex_char_def)

lemma operationID_of_valid: "isValidOperationID (operationID_of rnd)"
proof -
  have "length (hex_encode bs) = 2 * length bs" for bs
    by (induction bs) (auto simp: hex_encode_def)
  moreover have "is_id_char c" if c: "c \<in> set (hex_encode (map (\<lambda>i. rnd i mod 256) [0..<16]))" for c
  proof -
    obtain i where "c = hex_char (rnd i mod 256 div 16) \<or> c = hex_char (rnd i mod 256 mod 16)"
      using c unfolding hex_encode_def by force
    moreover have "rnd i mod 256 div 16 < 16" by auto
    ultimately show ?thesis using hex_char_valid by auto
  qed
  ultimately show ?thesis by (auto simp: isValidOperationID_def operationID_of_def)
qed

definition fresh_ids :: "io \<Rightarrow> store \<Rightarrow> bool" where
  "fresh_ids env s \<longleftrightarrow>
     (\<forall>n rnd. io_random (env n) = Some rnd \<longrightarrow> record_name (operationID_of rnd) \<notin> fst ` set (st_dir s))"

definition pending_op :: "OperationKind \<Rightarrow> string \<Rightarrow> string \<Rightarrow> string \<Rightarrow> Operation \<Rightarrow> bool" where
  "pending_op kind key hash db op \<longleftrightarrow>
     op_Kind op = kind \<and> op_IdempotencyKey op = key \<and> op_RequestHash op = hash \<and>
     op_Database op = db \<and> op_State op = OpPending \<and> isValidOperationID (op_ID op)"

lemma update_absent: "k \<notin> fst ` set xs \<Longrightarrow> AList.update k v xs = xs @ [(k, v)]"
  by (induction xs) auto

definition added :: "Operation \<Rightarrow> store \<Rightarrow> store \<Rightarrow> bool" where
  "added op s s' \<longleftrightarrow>
     record_name (op_ID op) \<notin> fst ` set (st_dir s) \<and> same_memory s s' \<and>
     st_dir s' = st_dir s @ [(record_name (op_ID op), RecordFile (JsonRecord op))]"

lemma create_operation_cases:
  assumes c: "create_operation env kind key hash db s = (r, s')" and fresh: "fresh_ids env s"
  obtains (unchanged) e where "r = Inl e" "same_memory s s'" "st_dir s' = st_dir s"
    | (left_behind) e op where "r = Inl e" "pending_op kind key hash db op" "added op s s'"
    | (created) op where "r = Inr (op, False)" "pending_op kind key hash db op" "added op s s'"
proof (cases "io_random (outcome env s)")
  case None
  then show ?thesis using c unchanged by (auto simp: create_operation_def newOperationID_def same_memory_def)
next
  case (Some rnd)
  let ?i = "operationID_of rnd" and ?now = "io_now (outcome env (tick s))"
  let ?op = "\<lparr>op_ID = ?i, op_Kind = kind, op_IdempotencyKey = key, op_RequestHash = hash,
      op_Database = db, op_State = OpPending, op_FailureReason = [], op_Artifact = None,
      op_Restored = None, op_StagingDir = [], op_CreatedAt = ?now, op_UpdatedAt = ?now\<rparr>"
  have new: "record_name ?i \<notin> fst ` set (st_dir s)" using fresh Some by (auto simp: fresh_ids_def outcome_def)
  have pend: "pending_op kind key hash db ?op" by (simp add: pending_op_def operationID_of_valid)
  obtain w s1 where w: "writeLocked env ?op (tick s) = (w, s1)" by (cases "writeLocked env ?op (tick s)")
  have mem: "same_memory s s1" using writeLocked_effect(1) [OF w] by (simp add: same_memory_def)
  have dir: "st_dir s1 = st_dir s \<or> st_dir s1 = st_dir s @ [(record_name ?i, RecordFile (JsonRecord ?op))]"
    using writeLocked_effect(2) [OF w] new by (simp add: update_absent)
  show ?thesis
  proof (cases w)
    case None
    then have "r = Inr (?op, False)" "s' = s1"
      using c w Some by (auto simp: create_operation_def newOperationID_def Let_def)
    then show ?thesis using created [OF _ pend] writeLocked_effect(3) [OF w None] new mem
      by (simp add: added_def update_absent)
  next
    case (Some e)
    let ?gone = "(tick s1)\<lparr>st_dir := AList.delete (record_name ?i) (st_dir s1)\<rparr>"
    have r: "r = Inl e" "s' = (if io_remove_ok (outcome env s1) then ?gone else tick s1)"
      using c w \<open>io_random (outcome env s) = Some rnd\<close> Some
      by (auto simp: create_operation_def newOperationID_def Let_def)
    have "st_dir ?gone = st_dir s"
      using dir new by (force simp: AList.delete_eq filter_id_conv)
    then show ?thesis using r dir mem new unchanged left_behind [OF _ pend]
      by (auto simp: same_memory_def added_def split: if_splits)
  qed
qed

subsection \<open>Creating and finding operations\<close>

lemma find_key_Some:
  "find_key kind key ops = Some op \<Longrightarrow> op \<in> set ops \<and> op_Kind op = kind \<and> op_IdempotencyKey op = key"
  by (auto simp: find_key_def find_Some_iff)

lemma find_key_None:
  "find_key kind key ops = None \<Longrightarrow> op \<in> set ops \<Longrightarrow> \<not> (op_Kind op = kind \<and> op_IdempotencyKey op = key)"
  by (auto simp: find_key_def find_None_iff)

definition key_free :: "OperationKind \<Rightarrow> string \<Rightarrow> store \<Rightarrow> bool" where
  "key_free kind key s \<longleftrightarrow> (\<forall>i op. recorded s i op \<longrightarrow> \<not> (op_Kind op = kind \<and> op_IdempotencyKey op = key))"

definition decodable :: "store \<Rightarrow> bool" where
  "decodable s \<longleftrightarrow> (\<forall>i. \<not> undecodable s i)"

definition db_free :: "string \<Rightarrow> store \<Rightarrow> bool" where
  "db_free db s \<longleftrightarrow> (\<forall>i op. recorded s i op \<longrightarrow> op_Database op = db \<longrightarrow> op_terminal op)"

lemma FindOrCreate_cases:
  assumes f: "FindOrCreate env kind key hash db s0 = (r, s')"
    and ok: "store_ok s0" and fresh: "fresh_ids env s0"
  obtains (refused) e where "r = Inl e" "quiet s0 s'"
    | (existing) op where "r = Inr (op, True)" "quiet s0 s'" "recorded s' (op_ID op) op"
        "op_Kind op = kind" "op_IdempotencyKey op = key" "op_RequestHash op = hash"
        "kept_end s' (op_ID op) = None" "\<not> interrupted s' (op_ID op)"
    | (left_behind) e op s where "r = Inl e" "quiet s0 s" "key_free kind key s" "db_free db s"
        "decodable s" "pending_op kind key hash db op" "added op s s'"
    | (created) op s where "r = Inr (op, False)" "quiet s0 s" "key_free kind key s" "db_free db s"
        "decodable s" "pending_op kind key hash db op" "added op s s'"
proof -
  let ?a = "settle_all env s0"
  obtain l s where l: "listLocked env ?a = (l, s)" by (cases "listLocked env ?a")
  have qa: "quiet s0 ?a" by (rule settle_all_quiet [OF ok])
  have oka: "store_ok ?a" by (rule store_ok_quiet [OF ok qa])
  have q: "quiet s0 s" using qa listLocked_post(1) [OF l oka] quiet_trans by blast
  show thesis
  proof (cases l)
    case (Inl e)
    then show thesis using f l refused q by (auto simp: FindOrCreate_def)
  next
    case (Inr ops)
    have lst: "listing ops s" by (rule listLocked_post(3) [OF l oka Inr])
    show thesis
    proof (cases "find_key kind key ops")
      case (Some op)
      note found = find_key_Some [OF Some]
      then have "recorded s (op_ID op) op" "\<not> interrupted s (op_ID op)" using lst by (auto simp: listing_def)
      then show thesis using f l Inr Some q refused existing found
        by (auto simp: FindOrCreate_def kept_end_def split: if_splits)
    next
      case None
      show thesis
      proof (cases "unreadableErrLocked s \<noteq> None \<or> (\<exists>op \<in> set ops. op_Database op = db \<and> \<not> op_terminal op)")
        case True
        then obtain e where "r = Inl e" "s' = s"
          using f l Inr None by (auto simp: FindOrCreate_def split: if_splits option.splits)
        then show thesis using refused q by blast
      next
        case False
        then have bad: "st_unreadable s = []" using unreadableErrLocked_None by blast
        then have all: "recorded s i op \<Longrightarrow> op \<in> set ops" for i op using lst by (auto simp: listing_def)
        then have kf: "key_free kind key s" using find_key_None [OF None] by (auto simp: key_free_def)
        have dec: "decodable s" using lst bad by (auto simp: decodable_def listing_def)
        have df: "db_free db s" using all False by (auto simp: db_free_def)
        have c: "create_operation env kind key hash db s = (r, s')"
          using f l Inr None False by (auto simp: FindOrCreate_def split: if_splits)
        have fr: "fresh_ids env s" using fresh quiet_keys [OF q] by (simp add: fresh_ids_def)
        show thesis
        proof (rule create_operation_cases [OF c fr])
          fix e assume "r = Inl e" "same_memory s s'" "st_dir s' = st_dir s"
          then have "quiet s s'" using same_memory_simps by (auto simp: quiet_def evolves_def file_at_def)
          then show thesis using refused \<open>r = Inl e\<close> quiet_trans [OF q] by blast
        next
          fix e op assume "r = Inl e" "pending_op kind key hash db op" "added op s s'"
          then show thesis using left_behind q kf df dec by blast
        next
          fix op assume "r = Inr (op, False)" "pending_op kind key hash db op" "added op s s'"
          then show thesis using created q kf df dec by blast
        qed
      qed
    qed
  qed
qed

lemma find_by_key_entries_quiet:
  assumes "find_by_key_entries env key nes s = (r, s')"
  shows "quiet s s'"
  using assms
proof (induction nes arbitrary: s r s')
  case Nil
  then show ?case by simp
next
  case (Cons ne nes)
  show ?case
  proof (cases "listed_id ne")
    case None
    then show ?thesis using Cons by simp
  next
    case (Some i)
    obtain a s1 where a: "readLocked env i s = (a, s1)" by (cases "readLocked env i s")
    obtain b s2 where b: "find_by_key_entries env key nes s1 = (b, s2)"
      by (cases "find_by_key_entries env key nes s1")
    have q: "quiet s s1" using readLocked_post [OF a] by (simp add: read_post_def)
    have "s' = s1 \<or> s' = s2" using Cons.prems Some a b by (auto split: sum.splits if_splits)
    then show ?thesis using q quiet_trans [OF q Cons.IH [OF b]] by blast
  qed
qed

lemma find_by_key_entries_found:
  assumes "find_by_key_entries env key nes s = (Inr ops, s')" "store_ok s" "distinct (map fst nes)"
  shows "\<exists>all. list_post nes s all {} s' \<and> ops = filter (\<lambda>op. op_IdempotencyKey op = key) all \<and>
      (\<forall>op \<in> set ops. kept_end s (op_ID op) = None)"
  using assms
proof (induction nes arbitrary: s ops s')
  case Nil
  then show ?case by (auto simp: list_post_def)
next
  case (Cons ne nes)
  obtain n e where ne: "ne = (n, e)" by (cases ne)
  have fresh: "n \<notin> fst ` set nes" and dist: "distinct (map fst nes)" using Cons.prems(3) ne by auto
  show ?case
  proof (cases "listed_id ne")
    case None
    then have "find_by_key_entries env key nes s = (Inr ops, s')" using Cons.prems(1) by simp
    from Cons.IH [OF this Cons.prems(2) dist] show ?thesis
      using list_post_skip [of nes s _ "{}" s' n e] None ne by blast
  next
    case (Some i)
    then have i: "n = record_name i" using listed_id_iff ne by auto
    obtain a s1 where a: "readLocked env i s = (a, s1)" by (cases "readLocked env i s")
    have read: "read_post i s a s1" by (rule readLocked_post [OF a])
    then have ok1: "store_ok s1" and kept: "kept_end s1 = kept_end s"
      using store_ok_quiet [OF Cons.prems(2)] by (auto simp: read_post_def)
    define skip where "skip \<longleftrightarrow> (\<forall>op. a = Inr op \<longrightarrow> op_IdempotencyKey op \<noteq> key)"
    obtain ops1 where rest: "find_by_key_entries env key nes s1 = (Inr ops1, s')"
      and ops: "ops = (case a of Inr op \<Rightarrow> if op_IdempotencyKey op = key then op # ops1 else ops1 | Inl e \<Rightarrow> ops1)"
      and nf: "\<And>x. a = Inl x \<Longrightarrow> is_not_found x"
      and none: "\<And>op. a = Inr op \<Longrightarrow> op_IdempotencyKey op = key \<Longrightarrow> kept_end s1 (op_ID op) = None"
      using Cons.prems(1) Some a
      by (auto simp: kept_end_def split: sum.splits if_splits prod.splits)
    obtain all where all: "list_post nes s1 all {} s'" "ops1 = filter (\<lambda>op. op_IdempotencyKey op = key) all"
      "\<forall>op \<in> set ops1. kept_end s1 (op_ID op) = None"
      using Cons.IH [OF rest ok1 dist] by blast
    let ?all = "case a of Inr op \<Rightarrow> op # all | Inl e \<Rightarrow> all"
    have "list_post (ne # nes) s ?all {} s'"
      unfolding ne by (rule list_post_step [OF Cons.prems(2) fresh i read all(1)]) (use nf in \<open>auto split: sum.splits\<close>)
    moreover have "ops = filter (\<lambda>op. op_IdempotencyKey op = key) ?all"
      using ops all(2) by (auto split: sum.splits)
    moreover have "\<forall>op \<in> set ops. kept_end s (op_ID op) = None"
      using ops all(3) none kept by (auto split: sum.splits if_splits)
    ultimately show ?thesis by blast
  qed
qed

lemma FindByKey_post:
  assumes f: "FindByKey env key s0 = (r, s')" and ok: "store_ok s0"
  shows "quiet s0 s'"
    and "r = Inr ops \<Longrightarrow> op \<in> set ops \<longleftrightarrow> recorded s' (op_ID op) op \<and> op_IdempotencyKey op = key"
    and "r = Inr ops \<Longrightarrow> op \<in> set ops \<Longrightarrow>
      kept_end s' (op_ID op) = None \<and> \<not> interrupted s' (op_ID op)"
proof -
  let ?s = "settle_all env s0"
  have qs: "quiet s0 ?s" by (rule settle_all_quiet [OF ok])
  have qt: "quiet s0 (tick ?s)" using qs by (simp add: quiet_def evolves_def live_def)
  have okt: "store_ok (tick ?s)" by (rule store_ok_quiet [OF ok qt])
  have "s' = tick ?s \<or> quiet (tick ?s) s'"
    using f find_by_key_entries_quiet by (auto simp: FindByKey_def Let_def split: if_splits)
  then show "quiet s0 s'" using qt quiet_trans by blast
  assume r: "r = Inr ops"
  then have e: "find_by_key_entries env key (sort_key fst (st_dir ?s)) (tick ?s) = (Inr ops, s')"
    using f by (auto simp: FindByKey_def Let_def split: if_splits)
  have d: "distinct (map fst (sort_key fst (st_dir ?s)))"
    using okt by (simp add: store_ok_def distinct_map inj_on_def)
  obtain all where all: "list_post (sort_key fst (st_dir ?s)) (tick ?s) all {} s'"
    and ops: "ops = filter (\<lambda>op. op_IdempotencyKey op = key) all"
    and none: "\<forall>op \<in> set ops. kept_end (tick ?s) (op_ID op) = None"
    using find_by_key_entries_found [OF e okt d] by blast
  have q: "quiet (tick ?s) s'" using all by (simp add: list_post_def)
  have "recorded s' i op' \<Longrightarrow> op' \<in> set all" for i op'
    using all recorded_in_dir [OF quiet_evolves [OF q]] by (fastforce simp: list_post_def)
  then show "op \<in> set ops \<longleftrightarrow> recorded s' (op_ID op) op \<and> op_IdempotencyKey op = key"
    using ops all by (auto simp: list_post_def)
  show "kept_end s' (op_ID op) = None \<and> \<not> interrupted s' (op_ID op)" if "op \<in> set ops"
    using that ops none all by (auto simp: list_post_def)
qed

subsection \<open>The start of a process\<close>

lemma fail_unfinished_post:
  assumes "fail_unfinished env ops s = (r, s')" "\<And>op. op \<in> set ops \<Longrightarrow> recorded s (op_ID op) op"
    "distinct (map op_ID ops)"
  shows "evolves s s' \<and> same_memory s s' \<and>
    (r = None \<longrightarrow> (\<forall>op \<in> set ops. \<not> live s' (op_ID op)))"
  using assms
proof (induction ops arbitrary: s)
  case Nil
  then show ?case by simp
next
  case (Cons op ops)
  show ?case
  proof (cases "op_terminal op")
    case True
    then have f: "fail_unfinished env ops s = (r, s')" using Cons.prems(1) by simp
    have ih: "evolves s s' \<and> same_memory s s' \<and> (r = None \<longrightarrow> (\<forall>op \<in> set ops. \<not> live s' (op_ID op)))"
      using Cons.IH [OF f] Cons.prems(2,3) by simp
    have "\<not> live s (op_ID op)" using Cons.prems(2) [of op] True by (auto simp: live_def)
    then have "\<not> live s' (op_ID op)" using ih live_back by blast
    then show ?thesis using ih by simp
  next
    case False
    let ?op = "interrupted_op (io_now (outcome env s)) op"
    obtain w s1 where w: "writeLocked env ?op s = (w, s1)" by (cases "writeLocked env ?op s")
    have ev: "evolves s s1" using writeLocked_evolves [OF w, of op] Cons.prems(2) by simp
    have mem: "same_memory s s1" by (rule writeLocked_effect(1) [OF w])
    show ?thesis
    proof (cases w)
      case (Some e)
      then have "r = Some e" "s' = s1" using Cons.prems(1) False w by auto
      then show ?thesis using ev mem by simp
    next
      case None
      then have f: "fail_unfinished env ops s1 = (r, s')" using Cons.prems(1) False w by simp
      have "recorded s1 (op_ID op') op'" if "op' \<in> set ops" for op'
      proof -
        have "record_name (op_ID op') \<noteq> record_name (op_ID ?op)" using Cons.prems(3) imageI [OF that, of op_ID] by auto
        then show ?thesis using writeLocked_file(1) [OF w] Cons.prems(2) that by auto
      qed
      then have ih: "evolves s1 s' \<and> same_memory s1 s' \<and>
          (r = None \<longrightarrow> (\<forall>op \<in> set ops. \<not> live s' (op_ID op)))"
        using Cons.IH [OF f] Cons.prems(3) by simp
      have "\<not> live s1 (op_ID op)" using writeLocked_file(2) [OF w None] by (auto simp: live_def)
      then have "\<not> live s' (op_ID op)" using ih live_back by blast
      then show ?thesis using ih ev mem evolves_trans same_memory_trans by auto
    qed
  qed
qed

lemma list_entries_distinct:
  assumes "list_entries env nes s = ((ops, bad), s')" "store_ok s" "distinct (map fst nes)"
  shows "distinct (map op_ID ops)"
  using assms
proof (induction nes arbitrary: s ops bad s')
  case Nil
  then show ?case by simp
next
  case (Cons ne nes)
  obtain n e where ne: "ne = (n, e)" by (cases ne)
  have fresh: "n \<notin> fst ` set nes" and dist: "distinct (map fst nes)" using Cons.prems(3) ne by auto
  show ?case
  proof (cases "listed_id ne")
    case None
    then show ?thesis using Cons.IH [OF _ Cons.prems(2) dist] Cons.prems(1) by auto
  next
    case (Some i)
    then have i: "n = record_name i" using listed_id_iff ne by auto
    obtain r s1 where r: "readLocked env i s = (r, s1)" by (cases "readLocked env i s")
    obtain ops1 bad1 s2 where l: "list_entries env nes s1 = ((ops1, bad1), s2)" by (metis prod.exhaust)
    have read: "read_post i s r s1" by (rule readLocked_post [OF r])
    then have ok1: "store_ok s1" using store_ok_quiet [OF Cons.prems(2)] by (simp add: read_post_def)
    have "distinct (map op_ID ops1)" by (rule Cons.IH [OF l ok1 dist])
    moreover have "i \<notin> op_ID ` set ops1"
      using list_entries_post [OF l ok1 dist] fresh i by (auto simp: list_post_def)
    moreover have "ops = ops1 \<or> (\<exists>op. r = Inr op \<and> ops = op # ops1)"
      using Cons.prems(1) Some r l by (auto split: sum.splits if_splits)
    ultimately show ?thesis using read by (auto simp: read_post_def)
  qed
qed

lemma listLocked_distinct:
  assumes "listLocked env s = (Inr ops, s')" "store_ok s"
  shows "distinct (map op_ID ops)"
proof -
  obtain ops' bad s1 where e: "list_entries env (sort_key fst (st_dir s)) (tick s) = ((ops', bad), s1)"
    by (metis prod.exhaust)
  have "distinct (map fst (sort_key fst (st_dir s)))" "store_ok (tick s)"
    using assms(2) by (auto simp: store_ok_def distinct_map inj_on_def)
  then have "distinct (map op_ID ops')" using list_entries_distinct [OF e] by simp
  then show ?thesis using assms(1) e by (auto simp: listLocked_def split: if_splits)
qed

text \<open>A started process has failed every record that was left running, and remembers the others.\<close>

lemma NewOperationStore_post:
  assumes n: "NewOperationStore env d t = (r, s')" and ok: "store_ok (empty_memory d t)"
  shows "evolves (empty_memory d t) s'" "kept_end s' i = None"
    and "interrupted s' i \<Longrightarrow> record_name i \<in> fst ` set d"
    and "r = None \<Longrightarrow> live s' i \<Longrightarrow> interrupted s' i"
proof -
  let ?s0 = "empty_memory d t"
  have empty: "kept_end ?s0 j = None" "\<not> interrupted ?s0 j" "st_dir ?s0 = d" for j
    by (auto simp: empty_memory_def kept_end_def interrupted_def)
  have okt: "store_ok (tick ?s0)" using ok by (simp add: store_ok_def)
  obtain l s1 where l: "listLocked env (tick ?s0) = (l, s1)" by (cases "listLocked env (tick ?s0)")
  have q: "quiet (tick ?s0) s1" "kept_end s1 = kept_end ?s0" using listLocked_post(1,2) [OF l okt] by auto
  have ev1: "evolves ?s0 s1" using quiet_evolves [OF q(1)] by (simp add: evolves_def)
  have int1: "\<not> interrupted s1 j" for j using quiet_interrupted [OF q(1), of j] empty by simp
  let ?s2 = "s1\<lparr>st_interrupted := remdups (map fst (st_unreadable s1) @ st_interrupted s1)\<rparr>"
  have f2: "file_at ?s2 = file_at s1" "kept_end ?s2 = kept_end s1" "st_dir ?s2 = st_dir s1"
    "\<And>j. interrupted ?s2 j \<longleftrightarrow> j \<in> fst ` set (st_unreadable s1)"
    using int1 by (auto simp: file_at_def kept_end_def interrupted_def fun_eq_iff)
  consider "s' = tick ?s0" "r \<noteq> None" | "s' = s1" "r \<noteq> None"
    | ops where "l = Inr ops" "fail_unfinished env ops ?s2 = (r, s')"
    using n l by (auto simp: NewOperationStore_def reconcileOnStart_def Let_def split: if_splits sum.splits)
  then have "evolves ?s0 s' \<and> kept_end s' i = None \<and> (interrupted s' i \<longrightarrow> record_name i \<in> fst ` set d) \<and>
    (r = None \<longrightarrow> live s' i \<longrightarrow> interrupted s' i)"
  proof cases
    case 1
    then show ?thesis using empty by (auto simp: evolves_def)
  next
    case 2
    then show ?thesis using ev1 q(2) empty int1 by auto
  next
    case (3 ops)
    have lst: "listing ops s1" using listLocked_post(3) [OF l okt] 3(1) by simp
    have f: "evolves ?s2 s' \<and> same_memory ?s2 s' \<and> (r = None \<longrightarrow> (\<forall>op \<in> set ops. \<not> live s' (op_ID op)))"
      using fail_unfinished_post [OF 3(2)] lst f2 listLocked_distinct [OF _ okt] l 3(1)
      by (simp add: listing_def)
    have mem: "kept_end s' = kept_end s1" "\<And>j. interrupted s' j \<longleftrightarrow> j \<in> fst ` set (st_unreadable s1)"
      using f same_memory_simps [of ?s2 s'] f2 by auto
    have "evolves s1 s'" using f f2 by (simp add: evolves_def)
    then have ev: "evolves ?s0 s'" using ev1 evolves_trans by blast
    have keys: "fst ` set (st_dir s1) = fst ` set d" using ev1 empty unfolding evolves_def by (metis list.set_map)
    have "interrupted s' i" if r: "r = None" and lv: "live s' i"
    proof -
      have "live s1 i" using live_back [OF \<open>evolves s1 s'\<close> lv] .
      then obtain op where "recorded s1 i op" by (auto simp: live_def)
      moreover from this have "op_ID op = i"
        using store_ok_record [OF store_ok_quiet [OF okt q(1)], of "record_name i" op] by (simp add: record_ok_def)
      ultimately have "i \<in> fst ` set (st_unreadable s1)"
        using lst f r lv by (fastforce simp: listing_def)
      then show ?thesis using mem by simp
    qed
    then show ?thesis using ev mem q(2) empty lst keys by (auto simp: listing_def)
  qed
  then show "evolves ?s0 s'" "kept_end s' i = None" "interrupted s' i \<Longrightarrow> record_name i \<in> fst ` set d"
    "r = None \<Longrightarrow> live s' i \<Longrightarrow> interrupted s' i" by auto
qed

subsection \<open>A disk that works\<close>

definition healthy :: "io \<Rightarrow> bool" where
  "healthy env \<longleftrightarrow>
     (\<forall>n. io_mkdir_ok (env n) \<and> io_list_ok (env n) \<and> io_read_ok (env n) \<and> io_write (env n) = WriteDone)"

lemma readLocked_healthy:
  assumes h: "healthy env" and ok: "store_ok s" and int: "\<not> interrupted s i"
    and r: "readLocked env i s = (Inl e, s')"
  shows "\<not> recorded s' i op" "\<not> interrupted s' j \<or> interrupted s j"
proof -
  have d: "decodeLocked env i s = (Inl e, s')"
    using r int decodeLocked_effect(1) [of env i s]
    by (auto simp: readLocked_def interrupted_def same_memory_def split: sum.splits prod.splits if_splits)
  have same: "file_at s' = file_at s" "interrupted s' = interrupted s"
    using decodeLocked_effect(1,3) [OF d] same_memory_simps by auto
  show "\<not> recorded s' i op"
  proof
    assume "recorded s' i op"
    then have rec: "recorded s i op" using same by simp
    then have "record_ok (record_name i) op" by (rule store_ok_record [OF ok])
    then show False using d rec h by (simp add: decodeLocked_def record_ok_def file_at_def healthy_def outcome_def)
  qed
  show "\<not> interrupted s' j \<or> interrupted s j" using same by simp
qed

lemma list_entries_healthy:
  assumes "list_entries env nes s = ((ops, bad), s')" "store_ok s" "distinct (map fst nes)" "healthy env"
    "\<And>j. \<not> interrupted s j" "i \<in> fst ` set bad"
  shows "\<not> recorded s' i op"
  using assms
proof (induction nes arbitrary: s ops bad s')
  case Nil
  then show ?case by simp
next
  case (Cons ne nes)
  obtain n e where ne: "ne = (n, e)" by (cases ne)
  have fresh: "n \<notin> fst ` set nes" and dist: "distinct (map fst nes)" using Cons.prems(3) ne by auto
  show ?case
  proof (cases "listed_id ne")
    case None
    then show ?thesis using Cons.IH [OF _ Cons.prems(2) dist Cons.prems(4,5)] Cons.prems(1,6) by simp
  next
    case (Some k)
    then have k: "n = record_name k" using listed_id_iff ne by auto
    obtain r s1 where r: "readLocked env k s = (r, s1)" by (cases "readLocked env k s")
    obtain ops1 bad1 s2 where l: "list_entries env nes s1 = ((ops1, bad1), s2)" by (metis prod.exhaust)
    have q: "quiet s s1" using readLocked_post [OF r] by (simp add: read_post_def)
    then have ok1: "store_ok s1" by (rule store_ok_quiet [OF Cons.prems(2)])
    have int1: "\<not> interrupted s1 j" for j using quiet_interrupted [OF q, of j] Cons.prems(5) by simp
    have s': "s' = s2" and bad: "bad = bad1 \<or> (\<exists>x. r = Inl x \<and> bad = (k, x) # bad1)"
      using Cons.prems(1) Some r l by (auto split: sum.splits if_splits)
    show ?thesis
    proof (cases "i \<in> fst ` set bad1")
      case True
      then show ?thesis using Cons.IH [OF l ok1 dist Cons.prems(4) int1] s' by simp
    next
      case False
      then obtain x where x: "r = Inl x" "i = k" using bad Cons.prems(6) by (metis fst_conv image_insert insert_iff list.simps(15))
      then have "\<not> recorded s1 i op" using readLocked_healthy(1) [OF Cons.prems(4,2) Cons.prems(5)] r by simp
      then show ?thesis
        using list_entries_post [OF l ok1 dist] fresh k x s' by (simp add: list_post_def)
    qed
  qed
qed

lemma fail_unfinished_healthy:
  assumes "healthy env" "\<And>op. op \<in> set ops \<Longrightarrow> recorded s (op_ID op) op" "distinct (map op_ID ops)"
  shows "fst (fail_unfinished env ops s) = None"
  using assms(2,3)
proof (induction ops arbitrary: s)
  case Nil
  then show ?case by simp
next
  case (Cons op ops)
  show ?case
  proof (cases "op_terminal op")
    case True
    then show ?thesis using Cons by simp
  next
    case False
    let ?op = "interrupted_op (io_now (outcome env s)) op"
    obtain w s1 where w: "writeLocked env ?op s = (w, s1)" by (cases "writeLocked env ?op s")
    have wN: "w = None"
      using w Cons.prems(1) [of op] assms(1)
      by (auto simp: writeLocked_def Let_def healthy_def outcome_def file_at_def split: if_splits)
    have "recorded s1 (op_ID op') op'" if "op' \<in> set ops" for op'
    proof -
      have "record_name (op_ID op') \<noteq> record_name (op_ID ?op)" using Cons.prems(2) imageI [OF that, of op_ID] by auto
      then show ?thesis using writeLocked_file(1) [OF w] Cons.prems(1) that by auto
    qed
    then show ?thesis using Cons.IH [of s1] Cons.prems(2) False w wN by simp
  qed
qed

lemma NewOperationStore_healthy:
  assumes h: "healthy env" and ok: "store_ok (empty_memory d t)"
  shows "\<exists>s'. NewOperationStore env d t = (None, s') \<and> (\<forall>i. \<not> live s' i)"
proof -
  let ?s0 = "empty_memory d t"
  have okt: "store_ok (tick ?s0)" using ok by (simp add: store_ok_def)
  have int0: "\<not> interrupted (tick ?s0) j" for j by (simp add: empty_memory_def interrupted_def)
  obtain ops bad s1 where e: "list_entries env (sort_key fst d) (tick (tick ?s0)) = ((ops, bad), s1)"
    by (metis prod.exhaust)
  have l: "listLocked env (tick ?s0) = (Inr ops, s1\<lparr>st_unreadable := bad\<rparr>)"
    using e h by (simp add: listLocked_def healthy_def outcome_def empty_memory_def)
  let ?s1 = "s1\<lparr>st_unreadable := bad\<rparr>"
  have dist: "distinct (map fst (sort_key fst d))"
    using ok by (simp add: store_ok_def distinct_map inj_on_def empty_memory_def)
  have okt2: "store_ok (tick (tick ?s0))" using okt by (simp add: store_ok_def)
  have bad: "\<not> recorded s1 i op" if "i \<in> fst ` set bad" for i op
    using list_entries_healthy [OF e okt2 dist h _ that] int0 by simp
  have lst: "listing ops ?s1" by (rule listLocked_post(3) [OF l okt refl])
  let ?s2 = "?s1\<lparr>st_interrupted := remdups (map fst (st_unreadable ?s1) @ st_interrupted ?s1)\<rparr>"
  have files: "file_at ?s2 = file_at s1" "file_at ?s1 = file_at s1" by (auto simp: file_at_def fun_eq_iff)
  have rec: "recorded ?s2 (op_ID op) op" if "op \<in> set ops" for op
    using lst that files by (simp add: listing_def)
  have dops: "distinct (map op_ID ops)" by (rule listLocked_distinct [OF l okt])
  obtain r s' where f: "fail_unfinished env ops ?s2 = (r, s')" by (cases "fail_unfinished env ops ?s2")
  have "r = None" using fail_unfinished_healthy [OF h rec dops] f by simp
  then have n: "NewOperationStore env d t = (None, s')"
    using f l h by (simp add: NewOperationStore_def reconcileOnStart_def healthy_def outcome_def empty_memory_def Let_def)
  have post: "evolves ?s2 s' \<and> (\<forall>op \<in> set ops. \<not> live s' (op_ID op))"
    using fail_unfinished_post [OF f rec dops] \<open>r = None\<close> by simp
  have "\<not> live s' i" for i
  proof
    assume lv: "live s' i"
    then have "live ?s2 i" using post live_back by blast
    then obtain op where op: "recorded s1 i op" using files by (auto simp: live_def)
    moreover have "recorded s1 i op \<longrightarrow> op \<in> set ops \<or> i \<in> fst ` set bad"
      using lst files by (simp add: listing_def)
    ultimately have "op \<in> set ops" using bad by blast
    moreover have "op_ID op = i"
      using rec [OF \<open>op \<in> set ops\<close>] op store_ok_record [OF store_ok_quiet [OF okt listLocked_post(1) [OF l okt]], of "record_name i" op] files
      by (simp add: record_ok_def)
    ultimately show False using post lv by blast
  qed
  then show ?thesis using n by blast
qed

end
