(* ===== verification/OpSystem.thy ===== *)
theory OpSystem
  imports OpStoreSafety
begin

section \<open>What the operation store promises\<close>

text \<open>
  The calls of \<^verbatim>\<open>opstore.go\<close> put together as one Instance Manager that serves requests, runs the
  operations it created, crashes and starts again, with any access to the disk failing at any time
  and any record damaged at any time. A crash in the middle of a call is that call with every later
  access failing, followed by a restart, since a record changes only by a rename.

  Beside the store the state says whether the process serves (\<^verbatim>\<open>NewOperationStore\<close> returned no
  error) and keeps what no code stores: the operations that run (\<open>sy_running\<close>), those recorded by
  this process (\<open>sy_born\<close>), those it settled (\<open>sy_ended\<close>) and every answer that started a run
  (\<open>sy_issued\<close>). Two facts about the callers are in the rules: an operation is changed only by its
  own run, with a function that keeps its identity (\<open>is_progress\<close>, \<open>is_end\<close>), and a new ID, 128
  random bits, is not one the directory already holds (\<open>fresh_ids\<close>).
\<close>

record sys =
  sy_store :: store
  sy_serving :: bool
  sy_running :: "string set"
  sy_born :: "string set"
  sy_ended :: "string set"
  sy_issued :: "(string \<times> OperationKind \<times> string \<times> string) set"

definition new_ids :: "store \<Rightarrow> store \<Rightarrow> string set" where
  "new_ids s s' = {i. record_name i \<in> fst ` set (st_dir s') - fst ` set (st_dir s)}"

definition started :: "store_error + Operation \<times> bool \<Rightarrow> Operation option" where
  "started r = (case r of Inr (op, False) \<Rightarrow> Some op | _ \<Rightarrow> None)"

definition after_create :: "(store_error + Operation \<times> bool) \<Rightarrow> store \<Rightarrow> sys \<Rightarrow> sys" where
  "after_create r s' Y =
     Y\<lparr>sy_store := s',
       sy_born := sy_born Y \<union> new_ids (sy_store Y) s',
       sy_running := sy_running Y \<union> op_ID ` set_option (started r),
       sy_issued := sy_issued Y \<union>
         (\<lambda>op. (op_ID op, op_Kind op, op_IdempotencyKey op, op_RequestHash op)) ` set_option (started r)\<rparr>"

definition restarted :: "store_error option \<Rightarrow> store \<Rightarrow> sys \<Rightarrow> sys" where
  "restarted r s' Y =
     Y\<lparr>sy_store := s', sy_serving := (r = None), sy_running := {}, sy_born := {}, sy_ended := {}\<rparr>"

definition damage :: "string \<Rightarrow> store \<Rightarrow> store" where
  "damage n s = s\<lparr>st_dir := map (\<lambda>(k, e). (k, if k = n then RecordFile NotDecodable else e)) (st_dir s)\<rparr>"

inductive sys_step :: "sys \<Rightarrow> sys \<Rightarrow> bool" where
  create: "sy_serving Y \<Longrightarrow> fresh_ids env (sy_store Y) \<Longrightarrow> kind \<noteq> KindOther [] \<Longrightarrow> key \<noteq> [] \<Longrightarrow>
     FindOrCreate env kind key hash db (sy_store Y) = (r, s') \<Longrightarrow> sys_step Y (after_create r s' Y)"
| by_key: "sy_serving Y \<Longrightarrow> FindByKey env key (sy_store Y) = (rs, s') \<Longrightarrow>
     sys_step Y (Y\<lparr>sy_store := s'\<rparr>)"
| get: "sy_serving Y \<Longrightarrow> Get env i (sy_store Y) = (g, s') \<Longrightarrow> sys_step Y (Y\<lparr>sy_store := s'\<rparr>)"
| peek: "sy_serving Y \<Longrightarrow> Peek env i (sy_store Y) = (g, s') \<Longrightarrow> sys_step Y (Y\<lparr>sy_store := s'\<rparr>)"
| unwritten: "sy_serving Y \<Longrightarrow> UnwrittenEnds env (sy_store Y) = (ids, s') \<Longrightarrow>
     sys_step Y (Y\<lparr>sy_store := s'\<rparr>)"
| update: "sy_serving Y \<Longrightarrow> i \<in> sy_running Y \<Longrightarrow> is_progress m \<Longrightarrow>
     Update env i m (sy_store Y) = (g, s') \<Longrightarrow> sys_step Y (Y\<lparr>sy_store := s'\<rparr>)"
| settle: "sy_serving Y \<Longrightarrow> i \<in> sy_running Y \<Longrightarrow> is_end m \<Longrightarrow>
     Settle env i m (sy_store Y) = (w, s') \<Longrightarrow>
     sys_step Y (Y\<lparr>sy_running := sy_running Y - {i}, sy_ended := insert i (sy_ended Y), sy_store := s'\<rparr>)"
| damage: "sys_step Y (Y\<lparr>sy_store := damage n (sy_store Y)\<rparr>)"
| restart: "NewOperationStore env (st_dir (sy_store Y)) (st_tick (sy_store Y)) = (w, s') \<Longrightarrow>
     sys_step Y (restarted w s' Y)"

definition sys_init :: "sys \<Rightarrow> bool" where
  "sys_init Y \<longleftrightarrow>
     (\<exists>n. Y = \<lparr>sy_store = empty_memory [] n, sy_serving = False, sy_running = {}, sy_born = {},
               sy_ended = {}, sy_issued = {}\<rparr>)"

definition issued_ok :: "store \<Rightarrow> (string \<times> OperationKind \<times> string \<times> string) set \<Rightarrow> bool" where
  "issued_ok s iss \<longleftrightarrow>
     (\<forall>i kind key hash. (i, kind, key, hash) \<in> iss \<longrightarrow>
        (undecodable s i \<or>
         (\<exists>op. recorded s i op \<and> op_Kind op = kind \<and> op_IdempotencyKey op = key \<and> op_RequestHash op = hash)) \<and>
        isValidOperationID i \<and>
        (\<forall>j op. recorded s j op \<longrightarrow> op_Kind op = kind \<longrightarrow> op_IdempotencyKey op = key \<longrightarrow> j = i))"

definition unique_ops :: "store \<Rightarrow> bool" where
  "unique_ops s \<longleftrightarrow>
     (\<forall>i j op op'. recorded s i op \<longrightarrow> recorded s j op' \<longrightarrow> i \<noteq> j \<longrightarrow>
        \<not> (op_Kind op = op_Kind op' \<and> op_IdempotencyKey op = op_IdempotencyKey op') \<and>
        (op_Database op = op_Database op' \<longrightarrow> op_terminal op \<or> op_terminal op'))"

definition tracked :: "sys \<Rightarrow> string \<Rightarrow> bool" where
  "tracked Y i \<longleftrightarrow>
     (i \<in> sy_running Y \<longrightarrow> i \<in> sy_born Y \<and> i \<notin> sy_ended Y \<and>
        (\<forall>op. recorded (sy_store Y) i op \<longrightarrow> \<not> op_terminal op)) \<and>
     (i \<in> sy_born Y \<longrightarrow> \<not> interrupted (sy_store Y) i) \<and>
     (kept_end (sy_store Y) i \<noteq> None \<longrightarrow> i \<in> sy_ended Y) \<and>
     (i \<in> sy_ended Y \<longrightarrow> i \<in> sy_born Y \<and> (kept_end (sy_store Y) i \<noteq> None \<or> \<not> live (sy_store Y) i)) \<and>
     (interrupted (sy_store Y) i \<or> i \<in> sy_born Y \<longrightarrow> record_name i \<in> fst ` set (st_dir (sy_store Y))) \<and>
     (sy_serving Y \<longrightarrow> live (sy_store Y) i \<longrightarrow> interrupted (sy_store Y) i \<or> i \<in> sy_born Y)"

definition sys_inv :: "sys \<Rightarrow> bool" where
  "sys_inv Y \<longleftrightarrow>
     store_ok (sy_store Y) \<and> unique_ops (sy_store Y) \<and> issued_ok (sy_store Y) (sy_issued Y) \<and>
     (\<forall>i. tracked Y i)"

subsection \<open>The invariant\<close>

lemma unique_ops_evolves:
  assumes u: "unique_ops s" and ev: "evolves s s'"
  shows "unique_ops s'"
  unfolding unique_ops_def
proof (intro allI impI)
  fix i j op op' assume r: "recorded s' i op" "recorded s' j op'" "i \<noteq> j"
  obtain a where a: "recorded s i a" "op_evolves a op" using evolves_back [OF ev r(1)] by blast
  obtain b where b: "recorded s j b" "op_evolves b op'" using evolves_back [OF ev r(2)] by blast
  have "\<not> (op_Kind a = op_Kind b \<and> op_IdempotencyKey a = op_IdempotencyKey b) \<and>
      (op_Database a = op_Database b \<longrightarrow> op_terminal a \<or> op_terminal b)"
    using u a(1) b(1) r(3) by (simp add: unique_ops_def)
  then show "\<not> (op_Kind op = op_Kind op' \<and> op_IdempotencyKey op = op_IdempotencyKey op') \<and>
      (op_Database op = op_Database op' \<longrightarrow> op_terminal op \<or> op_terminal op')"
    using a(2) b(2) by (auto simp: op_evolves_def same_identity_def)
qed

lemma undecodable_evolves:
  assumes "evolves s s'" "undecodable s i"
  shows "undecodable s' i"
proof -
  have "entry_evolves (file_at s (record_name i)) (file_at s' (record_name i))"
    using assms(1) by (simp add: evolves_def)
  then show ?thesis using assms(2) by (simp add: entry_evolves_def undecodable_def)
qed

lemma issued_ok_evolves:
  assumes iss: "issued_ok s iss" and ev: "evolves s s'"
  shows "issued_ok s' iss"
  unfolding issued_ok_def
proof (intro allI impI)
  fix i kind key hash assume i: "(i, kind, key, hash) \<in> iss"
  have only: "j = i" if r: "recorded s' j op" "op_Kind op = kind" "op_IdempotencyKey op = key" for j op
  proof -
    obtain op0 where "recorded s j op0" "op_evolves op0 op" using evolves_back [OF ev r(1)] by blast
    then show ?thesis using iss i r by (simp add: issued_ok_def op_evolves_def same_identity_def)
  qed
  have "undecodable s' i \<or>
      (\<exists>op. recorded s' i op \<and> op_Kind op = kind \<and> op_IdempotencyKey op = key \<and> op_RequestHash op = hash)"
  proof (cases "undecodable s i")
    case True
    then show ?thesis using undecodable_evolves [OF ev] by simp
  next
    case False
    then obtain op where op: "recorded s i op" "op_Kind op = kind" "op_IdempotencyKey op = key" "op_RequestHash op = hash"
      using iss i unfolding issued_ok_def by blast
    obtain op' where "recorded s' i op'" "op_evolves op op'" using evolves_on [OF ev op(1)] by blast
    then show ?thesis using op by (auto simp: op_evolves_def same_identity_def)
  qed
  then show "(undecodable s' i \<or>
      (\<exists>op. recorded s' i op \<and> op_Kind op = kind \<and> op_IdempotencyKey op = key \<and> op_RequestHash op = hash)) \<and>
      isValidOperationID i \<and>
      (\<forall>j op. recorded s' j op \<longrightarrow> op_Kind op = kind \<longrightarrow> op_IdempotencyKey op = key \<longrightarrow> j = i)"
    using only iss i unfolding issued_ok_def by blast
qed

lemma same_files:
  assumes "file_at s' = file_at s"
  shows "unique_ops s' = unique_ops s" "issued_ok s' iss = issued_ok s iss" "live s' = live s"
  using assms by (simp_all add: unique_ops_def issued_ok_def undecodable_def live_def fun_eq_iff)

lemma evolves_keys: "evolves s s' \<Longrightarrow> fst ` set (st_dir s') = fst ` set (st_dir s)"
  unfolding evolves_def by (metis list.set_map)

text \<open>The invariant survives every change that evolves the records, forgets an end or an interruption
  only once the record no longer says that the operation runs, and ends no running operation.\<close>

lemma sys_inv_evolves:
  assumes inv: "sys_inv Y" and ev: "evolves (sy_store Y) s'"
    and kept: "\<And>i. kept_end s' i = kept_end (sy_store Y) i \<or> kept_end s' i = None \<and> \<not> live s' i"
    and inter: "\<And>i. interrupted s' i = interrupted (sy_store Y) i \<or> \<not> interrupted s' i \<and> \<not> live s' i"
    and run: "\<And>i op. i \<in> sy_running Y \<Longrightarrow> recorded s' i op \<Longrightarrow> \<not> op_terminal op"
  shows "sys_inv (Y\<lparr>sy_store := s'\<rparr>)"
proof -
  have "store_ok s'"
    using store_ok_evolves [OF _ ev] inv kept store_ok_end unfolding sys_inv_def by (metis option.distinct(1))
  moreover have "unique_ops s'" using unique_ops_evolves [OF _ ev] inv by (simp add: sys_inv_def)
  moreover have "issued_ok s' (sy_issued Y)" using issued_ok_evolves [OF _ ev] inv by (simp add: sys_inv_def)
  moreover have "tracked (Y\<lparr>sy_store := s'\<rparr>) i" for i
  proof -
    have "tracked Y i" using inv by (simp add: sys_inv_def)
    then show ?thesis
      using kept [of i] inter [of i] run [of i] live_back [OF ev, of i] evolves_keys [OF ev]
      unfolding tracked_def by auto
  qed
  ultimately show ?thesis by (simp add: sys_inv_def)
qed

lemma sys_inv_quiet:
  assumes inv: "sys_inv Y" and q: "quiet (sy_store Y) s'"
  shows "sys_inv (Y\<lparr>sy_store := s'\<rparr>)"
proof (rule sys_inv_evolves [OF inv quiet_evolves [OF q]])
  show "kept_end s' i = kept_end (sy_store Y) i \<or> kept_end s' i = None \<and> \<not> live s' i" for i
    by (rule quiet_kept_end [OF q])
  show "interrupted s' i = interrupted (sy_store Y) i \<or> \<not> interrupted s' i \<and> \<not> live s' i" for i
    by (rule quiet_interrupted [OF q])
  fix i op assume i: "i \<in> sy_running Y" "recorded s' i op"
  have t: "tracked Y i" using inv by (simp add: sys_inv_def)
  then have "file_at s' (record_name i) = file_at (sy_store Y) (record_name i)"
    using quiet_changed [OF q, of "record_name i"] i(1) by (auto simp: tracked_def)
  then show "\<not> op_terminal op" using t i by (auto simp: tracked_def)
qed

lemma added_file:
  assumes "added op s s'"
  shows "file_at s' n = (if n = record_name (op_ID op) then Some (RecordFile (JsonRecord op)) else file_at s n)"
    "kept_end s' = kept_end s" "interrupted s' = interrupted s"
    "fst ` set (st_dir s') = insert (record_name (op_ID op)) (fst ` set (st_dir s))"
    "file_at s (record_name (op_ID op)) = None"
proof -
  show none: "file_at s (record_name (op_ID op)) = None"
    using assms by (simp add: added_def file_at_def map_of_eq_None_iff)
  then show "file_at s' n = (if n = record_name (op_ID op) then Some (RecordFile (JsonRecord op)) else file_at s n)"
    using assms by (auto simp: added_def file_at_def map_add_def split: option.splits)
  show "kept_end s' = kept_end s" "interrupted s' = interrupted s"
    using assms same_memory_simps by (auto simp: added_def)
  show "fst ` set (st_dir s') = insert (record_name (op_ID op)) (fst ` set (st_dir s))"
    using assms by (auto simp: added_def)
qed

lemma sys_inv_added:
  assumes inv: "sys_inv Y" and s: "sy_store Y = s" and kf: "key_free kind key s" and df: "db_free db s"
    and dec: "decodable s" and pend: "pending_op kind key hash db op" and add: "added op s s'"
    and kk: "kind \<noteq> KindOther []" "key \<noteq> []"
    and R: "R \<subseteq> {op_ID op}" and I: "I \<subseteq> {(op_ID op, kind, key, hash)}"
  shows "sys_inv (Y\<lparr>sy_store := s', sy_born := insert (op_ID op) (sy_born Y),
      sy_running := sy_running Y \<union> R, sy_issued := sy_issued Y \<union> I\<rparr>)"
proof -
  note f = added_file [OF add]
  have ok: "store_ok s'"
    using inv s f pend kk add unfolding sys_inv_def store_ok_def record_ok_def pending_op_def added_def
    by (auto split: if_splits)
  have uniq: "unique_ops s'" unfolding unique_ops_def
  proof (intro allI impI)
    fix i j a b assume r: "recorded s' i a" "recorded s' j b" "i \<noteq> j"
    show "\<not> (op_Kind a = op_Kind b \<and> op_IdempotencyKey a = op_IdempotencyKey b) \<and>
        (op_Database a = op_Database b \<longrightarrow> op_terminal a \<or> op_terminal b)"
    proof -
      consider "i = op_ID op" "j \<noteq> op_ID op" | "j = op_ID op" "i \<noteq> op_ID op" | "i \<noteq> op_ID op" "j \<noteq> op_ID op"
        using r(3) by blast
      then show ?thesis
      proof cases
        case 1
        then have "a = op" "recorded s j b" using r f(1) by auto
        then show ?thesis using kf df pend unfolding key_free_def db_free_def pending_op_def by metis
      next
        case 2
        then have "b = op" "recorded s i a" using r f(1) by auto
        then show ?thesis using kf df pend unfolding key_free_def db_free_def pending_op_def by metis
      next
        case 3
        then show ?thesis using r f(1) inv s by (simp add: sys_inv_def unique_ops_def)
      qed
    qed
  qed
  have iss: "issued_ok s' (sy_issued Y \<union> I)"
    unfolding issued_ok_def
  proof (intro allI impI)
    fix i k y h assume m: "(i, k, y, h) \<in> sy_issued Y \<union> I"
    show "(undecodable s' i \<or>
        (\<exists>x. recorded s' i x \<and> op_Kind x = k \<and> op_IdempotencyKey x = y \<and> op_RequestHash x = h)) \<and>
        isValidOperationID i \<and>
        (\<forall>j x. recorded s' j x \<longrightarrow> op_Kind x = k \<longrightarrow> op_IdempotencyKey x = y \<longrightarrow> j = i)"
    proof (cases "(i, k, y, h) \<in> sy_issued Y")
      case True
      then have old: "undecodable s i \<or> (\<exists>x. recorded s i x \<and> op_Kind x = k \<and>
          op_IdempotencyKey x = y \<and> op_RequestHash x = h)" and valid: "isValidOperationID i"
        and only: "\<And>j z. recorded s j z \<Longrightarrow> op_Kind z = k \<Longrightarrow> op_IdempotencyKey z = y \<Longrightarrow> j = i"
        using inv s unfolding sys_inv_def issued_ok_def by blast+
      then obtain x where x: "recorded s i x" "op_Kind x = k" "op_IdempotencyKey x = y" "op_RequestHash x = h"
        using dec unfolding decodable_def by blast
      have "i \<noteq> op_ID op" "\<not> (k = kind \<and> y = key)" using x f(5) kf by (auto simp: key_free_def)
      moreover from this have "recorded s' i x" using x f(1) by simp
      moreover have "j = i" if "recorded s' j z" "op_Kind z = k" "op_IdempotencyKey z = y" for j z
        using that only [of j z] calculation f(1) [of "record_name j"] pend
        by (auto simp: pending_op_def split: if_splits)
      ultimately show ?thesis using x valid by blast
    next
      case False
      then have "i = op_ID op" "k = kind" "y = key" "h = hash" using m I by auto
      then show ?thesis using f(1) kf pend unfolding pending_op_def key_free_def by auto
    qed
  qed
  have "tracked (Y\<lparr>sy_store := s', sy_born := insert (op_ID op) (sy_born Y),
      sy_running := sy_running Y \<union> R, sy_issued := sy_issued Y \<union> I\<rparr>) i" for i
  proof -
    have t: "tracked Y i" using inv by (simp add: sys_inv_def)
    have unborn: "op_ID op \<notin> sy_born Y" "\<not> interrupted s (op_ID op)"
      using inv s add unfolding sys_inv_def tracked_def added_def by auto
    then have "op_ID op \<notin> sy_ended Y" "kept_end s (op_ID op) = None"
      using inv s unfolding sys_inv_def tracked_def by auto
    then show ?thesis using t s unborn f R pend unfolding tracked_def live_def
      by (cases "i = op_ID op") (auto simp: pending_op_def)
  qed
  then show ?thesis using ok uniq iss by (simp add: sys_inv_def)
qed

lemma sys_inv_create:
  assumes inv: "sys_inv Y" and fresh: "fresh_ids env (sy_store Y)" and kk: "kind \<noteq> KindOther []" "key \<noteq> []"
    and f: "FindOrCreate env kind key hash db (sy_store Y) = (r, s')"
  shows "sys_inv (after_create r s' Y)"
proof -
  have ok: "store_ok (sy_store Y)" using inv by (simp add: sys_inv_def)
  have quietly: "sys_inv (after_create r s' Y)" if "quiet (sy_store Y) s'" "started r = None"
  proof -
    have "after_create r s' Y = Y\<lparr>sy_store := s'\<rparr>"
      using that quiet_keys [OF that(1)] by (simp add: after_create_def new_ids_def)
    then show ?thesis using sys_inv_quiet [OF inv that(1)] by simp
  qed
  have add: "sys_inv (after_create r s' Y)"
    if q: "quiet (sy_store Y) s" and free: "key_free kind key s" "db_free db s" "decodable s"
      and op: "pending_op kind key hash db op" "added op s s'" and r: "started r = None \<or> started r = Some op" for s op
  proof -
    have new: "new_ids (sy_store Y) s' = {op_ID op}"
      using added_file(4) [OF op(2)] quiet_keys [OF q] op(2) by (auto simp: new_ids_def added_def)
    have R: "op_ID ` set_option (started r) \<subseteq> {op_ID op}"
      and I: "(\<lambda>op. (op_ID op, op_Kind op, op_IdempotencyKey op, op_RequestHash op)) ` set_option (started r)
        \<subseteq> {(op_ID op, kind, key, hash)}"
      using r op(1) by (auto simp: pending_op_def)
    show ?thesis using sys_inv_added [OF sys_inv_quiet [OF inv q] _ free op kk R I] new
      by (simp add: after_create_def)
  qed
  from f ok fresh show ?thesis
  proof (cases rule: FindOrCreate_cases)
    case refused
    then show ?thesis using quietly by (simp add: started_def)
  next
    case existing
    then show ?thesis using quietly by (simp add: started_def)
  next
    case left_behind
    then show ?thesis using add by (simp add: started_def)
  next
    case created
    then show ?thesis using add by (simp add: started_def)
  qed
qed

lemma sys_inv_update:
  assumes inv: "sys_inv Y" and i: "i \<in> sy_running Y" and m: "is_progress m"
    and u: "Update env i m (sy_store Y) = (g, s')"
  shows "sys_inv (Y\<lparr>sy_store := s'\<rparr>)"
proof -
  obtain a s1 where a: "readLocked env i (sy_store Y) = (a, s1)" by (cases "readLocked env i (sy_store Y)")
  have post: "read_post i (sy_store Y) a s1" by (rule readLocked_post [OF a])
  then have inv1: "sys_inv (Y\<lparr>sy_store := s1\<rparr>)" using sys_inv_quiet [OF inv] by (simp add: read_post_def)
  show ?thesis
  proof (cases a)
    case (Inl e)
    then have "s' = s1" using u a by (simp add: Update_def updateLocked_def)
    then show ?thesis using inv1 by simp
  next
    case (Inr op)
    let ?op = "(m op)\<lparr>op_UpdatedAt := io_now (outcome env s1)\<rparr>"
    obtain w s2 where w: "writeLocked env ?op s1 = (w, s2)" by (cases "writeLocked env ?op s1")
    have s': "s' = s2" using u a Inr w by (auto simp: Update_def updateLocked_def Let_def split: option.splits)
    have rec: "recorded s1 i op" "op_ID op = i" using post Inr by (auto simp: read_post_def)
    have run: "recorded s1 j x \<Longrightarrow> j \<in> sy_running Y \<Longrightarrow> \<not> op_terminal x" for j x
      using inv1 unfolding sys_inv_def tracked_def by simp
    have "same_identity op (m op)" "\<not> op_terminal (m op)" using m by (auto simp: is_progress_def)
    then have op': "op_ID ?op = i" "op_evolves op ?op" "\<not> op_terminal ?op"
      using rec run [OF rec(1) i] by (auto simp: op_evolves_def same_identity_def)
    have ev: "evolves s1 s2" using writeLocked_evolves [OF w, of op] rec op' by simp
    have mem: "kept_end s2 = kept_end s1" "interrupted s2 = interrupted s1"
      using same_memory_simps [OF writeLocked_effect(1) [OF w]] by auto
    have stays: "\<not> op_terminal x" if j: "j \<in> sy_running Y" "recorded s2 j x" for j x
    proof (cases "file_at s2 (record_name j) = file_at s1 (record_name j)")
      case True
      then show ?thesis using run j by auto
    next
      case False
      then have "j = i" using writeLocked_file(1) [OF w, of "record_name j"] op' by auto
      moreover from this have "recorded s2 i ?op" using writeLocked_file(3) [OF w] op' False by simp
      ultimately show ?thesis using j op' by auto
    qed
    have "sys_inv (Y\<lparr>sy_store := s1, sy_store := s2\<rparr>)"
      by (rule sys_inv_evolves [OF inv1]) (use ev mem stays in auto)
    then show ?thesis using s' by simp
  qed
qed

lemma sys_inv_settle:
  assumes inv: "sys_inv Y" and i: "i \<in> sy_running Y" and m: "is_end m"
    and u: "Settle env i m (sy_store Y) = (w, s')"
  shows "sys_inv (Y\<lparr>sy_running := sy_running Y - {i}, sy_ended := insert i (sy_ended Y), sy_store := s'\<rparr>)"
proof -
  let ?s = "(sy_store Y)\<lparr>st_unsettled := AList.update i m (st_unsettled (sy_store Y))\<rparr>"
  let ?Y = "Y\<lparr>sy_store := ?s, sy_running := sy_running Y - {i}, sy_ended := insert i (sy_ended Y)\<rparr>"
  have f: "file_at ?s = file_at (sy_store Y)" "interrupted ?s = interrupted (sy_store Y)"
    "\<And>j. kept_end ?s j = (if j = i then Some m else kept_end (sy_store Y) j)"
    by (auto simp: file_at_def interrupted_def kept_end_def fun_eq_iff update_conv')
  have "store_ok ?s" using inv m f by (simp add: sys_inv_def store_ok_def)
  moreover have "unique_ops ?s" "issued_ok ?s (sy_issued Y)"
    using inv same_files [OF f(1)] by (simp_all add: sys_inv_def)
  moreover have "tracked ?Y j" for j
  proof -
    have "tracked Y j" using inv by (simp add: sys_inv_def)
    then show ?thesis using i f by (cases "j = i") (auto simp: tracked_def live_def)
  qed
  ultimately have inv1: "sys_inv ?Y" by (simp add: sys_inv_def)
  have "settleLocked env i ?s = (w, s')" using u by (simp add: Settle_def)
  then have "quiet ?s s'" using settleLocked_post \<open>store_ok ?s\<close> by blast
  then have "sys_inv (?Y\<lparr>sy_store := s'\<rparr>)" by (intro sys_inv_quiet [OF inv1]) simp
  then show ?thesis by simp
qed

lemma damage_file:
  "file_at (damage n s) k = (if k = n \<and> file_at s k \<noteq> None then Some (RecordFile NotDecodable) else file_at s k)"
proof -
  have "map_of (map (\<lambda>(k, e). (k, if k = n then RecordFile NotDecodable else e)) xs) k =
      (if k = n \<and> map_of xs k \<noteq> None then Some (RecordFile NotDecodable) else map_of xs k)" for xs
    by (induction xs) auto
  then show ?thesis unfolding damage_def file_at_def by simp
qed

lemma damage_simps [simp]:
  "kept_end (damage n s) = kept_end s" "interrupted (damage n s) = interrupted s"
  "map fst (st_dir (damage n s)) = map fst (st_dir s)"
  "fst ` set (st_dir (damage n s)) = fst ` set (st_dir s)"
  by (auto simp: damage_def kept_end_def interrupted_def fun_eq_iff image_iff split: prod.splits) force+

lemma sys_inv_damage:
  assumes "sys_inv Y"
  shows "sys_inv (Y\<lparr>sy_store := damage n (sy_store Y)\<rparr>)"
proof -
  have rec: "recorded (damage n s) i op \<Longrightarrow> recorded s i op" for s i op
    by (simp add: damage_file split: if_splits)
  then have lv: "live (damage n s) i \<Longrightarrow> live s i" for s i unfolding live_def by blast
  have "store_ok (damage n (sy_store Y))" "unique_ops (damage n (sy_store Y))"
    using assms by (auto simp: sys_inv_def store_ok_def unique_ops_def damage_file split: if_splits)
  moreover have "issued_ok (damage n (sy_store Y)) (sy_issued Y)"
    unfolding issued_ok_def
  proof (intro allI impI)
    fix i k y h assume m: "(i, k, y, h) \<in> sy_issued Y"
    have "undecodable (sy_store Y) i \<or> (\<exists>x. recorded (sy_store Y) i x \<and> op_Kind x = k \<and>
        op_IdempotencyKey x = y \<and> op_RequestHash x = h)" and valid: "isValidOperationID i"
      and only: "\<And>j x. recorded (sy_store Y) j x \<Longrightarrow> op_Kind x = k \<Longrightarrow> op_IdempotencyKey x = y \<Longrightarrow> j = i"
      using assms m unfolding sys_inv_def issued_ok_def by blast+
    then have "undecodable (damage n (sy_store Y)) i \<or> (\<exists>x. recorded (damage n (sy_store Y)) i x \<and> op_Kind x = k \<and>
        op_IdempotencyKey x = y \<and> op_RequestHash x = h)"
      by (cases "record_name i = n") (auto simp: undecodable_def damage_file)
    then show "(undecodable (damage n (sy_store Y)) i \<or> (\<exists>x. recorded (damage n (sy_store Y)) i x \<and>
        op_Kind x = k \<and> op_IdempotencyKey x = y \<and> op_RequestHash x = h)) \<and> isValidOperationID i \<and>
        (\<forall>j x. recorded (damage n (sy_store Y)) j x \<longrightarrow> op_Kind x = k \<longrightarrow> op_IdempotencyKey x = y \<longrightarrow> j = i)"
      using valid only rec by blast
  qed
  moreover have "tracked (Y\<lparr>sy_store := damage n (sy_store Y)\<rparr>) i" for i
  proof -
    have "tracked Y i" using assms by (simp add: sys_inv_def)
    then show ?thesis unfolding tracked_def by simp (meson rec lv)
  qed
  ultimately show ?thesis by (simp add: sys_inv_def)
qed

lemma sys_inv_restart:
  assumes inv: "sys_inv Y"
    and n: "NewOperationStore env (st_dir (sy_store Y)) (st_tick (sy_store Y)) = (w, s')"
  shows "sys_inv (restarted w s' Y)"
proof -
  let ?s0 = "empty_memory (st_dir (sy_store Y)) (st_tick (sy_store Y))"
  have f0: "file_at ?s0 = file_at (sy_store Y)" "kept_end ?s0 i = None" "st_dir ?s0 = st_dir (sy_store Y)" for i
    by (auto simp: empty_memory_def file_at_def kept_end_def fun_eq_iff)
  have ok: "store_ok ?s0" using inv f0 by (simp add: sys_inv_def store_ok_def)
  note post = NewOperationStore_post [OF n ok]
  have "store_ok s'" using store_ok_evolves [OF ok post(1)] post(2) by simp
  moreover have "unique_ops ?s0" "issued_ok ?s0 (sy_issued Y)"
    using inv same_files [OF f0(1)] by (simp_all add: sys_inv_def)
  then have "unique_ops s'" "issued_ok s' (sy_issued Y)"
    using unique_ops_evolves [OF _ post(1)] issued_ok_evolves [OF _ post(1)] by auto
  moreover have "tracked (restarted w s' Y) i" for i
    using post(2,3,4) [of i] evolves_keys [OF post(1)] f0 by (auto simp: tracked_def restarted_def)
  ultimately show ?thesis by (simp add: sys_inv_def restarted_def)
qed

lemma sys_inv_init: "sys_init Y \<Longrightarrow> sys_inv Y"
  by (auto simp: sys_init_def sys_inv_def store_ok_def unique_ops_def issued_ok_def tracked_def live_def
      empty_memory_def file_at_def kept_end_def interrupted_def)

lemma Get_quiet:
  assumes "Get env i s = (g, s')" "store_ok s"
  shows "quiet s s'"
proof (cases "isValidOperationID i")
  case False
  then show ?thesis using assms(1) by (simp add: Get_def)
next
  case True
  obtain w s1 where w: "settleLocked env i s = (w, s1)" by (cases "settleLocked env i s")
  have q: "quiet s s1" using settleLocked_post [OF w assms(2)] by simp
  show ?thesis
  proof (cases w)
    case None
    then have "readLocked env i s1 = (g, s')" using assms(1) w True by (simp add: Get_def)
    then show ?thesis using readLocked_post q quiet_trans by (auto simp: read_post_def)
  next
    case (Some e)
    then show ?thesis using assms(1) w True q by (simp add: Get_def)
  qed
qed

lemma Peek_quiet:
  assumes "Peek env i s = (g, s')"
  shows "quiet s s'"
proof -
  obtain d s1 where d: "decodeLocked env i s = (d, s1)" by (cases "decodeLocked env i s")
  have "s' = s1" using assms d by (auto simp: Peek_def split: sum.splits option.splits if_splits)
  then show ?thesis using decodeLocked_effect(1,2,3) [OF d] same_memory_simps [OF decodeLocked_effect(1) [OF d]]
    by (simp add: quiet_def evolves_def)
qed

lemma sys_inv_step:
  assumes "sys_step Y Y'" "sys_inv Y"
  shows "sys_inv Y'"
proof -
  have ok: "store_ok (sy_store Y)" using assms(2) by (simp add: sys_inv_def)
  note q = sys_inv_quiet [OF assms(2)]
  from assms(1) show ?thesis
  proof cases
    case create
    then show ?thesis using sys_inv_create [OF assms(2)] by simp
  next
    case by_key
    then show ?thesis using q FindByKey_post(1) [OF _ ok] by blast
  next
    case get
    then show ?thesis using q Get_quiet [OF _ ok] by blast
  next
    case peek
    then show ?thesis using q Peek_quiet by blast
  next
    case unwritten
    then show ?thesis using q settle_all_quiet [OF ok] by (auto simp: UnwrittenEnds_def Let_def)
  next
    case update
    then show ?thesis using sys_inv_update [OF assms(2)] by simp
  next
    case settle
    then show ?thesis using sys_inv_settle [OF assms(2)] by simp
  next
    case damage
    then show ?thesis using sys_inv_damage [OF assms(2)] by simp
  next
    case restart
    then show ?thesis using sys_inv_restart [OF assms(2)] by simp
  qed
qed

interpretation manager: invariant_system sys_init sys_step sys_inv
  by unfold_locales (auto intro: sys_inv_init sys_inv_step)

subsection \<open>What the calls answer\<close>

abbreviation manager_reach :: "sys \<Rightarrow> bool" where
  "manager_reach \<equiv> reach sys_init sys_step"

lemma reach_sys_inv: "manager_reach Y \<Longrightarrow> sys_inv Y"
  by (rule manager.reach_inv)

lemma sys_invD:
  assumes "sys_inv Y"
  shows "store_ok (sy_store Y)" "unique_ops (sy_store Y)" "issued_ok (sy_store Y) (sy_issued Y)" "tracked Y i"
  using assms by (auto simp: sys_inv_def)

lemma settled_answer:
  assumes inv: "sys_inv Y" and q: "quiet (sy_store Y) s'" and serving: "sy_serving Y"
    and rec: "recorded s' i op" and kept: "kept_end s' i = None" and int: "\<not> interrupted s' i"
    and running: "\<not> op_terminal op"
  shows "i \<in> sy_born Y \<and> i \<notin> sy_ended Y"
proof -
  have "tracked (Y\<lparr>sy_store := s'\<rparr>) i" by (rule sys_invD(4) [OF sys_inv_quiet [OF inv q]])
  moreover have "live s' i" using rec running by (auto simp: live_def)
  ultimately show ?thesis using serving kept int by (simp add: tracked_def)
qed

lemma Get_answer:
  assumes g: "Get env i s = (Inr op, s')" and ok: "store_ok s"
  shows "recorded s' i op \<and> kept_end s' i = None \<and> \<not> interrupted s' i"
proof -
  have "isValidOperationID i" using g by (auto simp: Get_def split: if_splits)
  moreover obtain w s1 where w: "settleLocked env i s = (w, s1)" by (cases "settleLocked env i s")
  ultimately have "w = None" "readLocked env i s1 = (Inr op, s')"
    using g by (auto simp: Get_def split: option.splits)
  then show ?thesis using readLocked_post [of env i s1 "Inr op" s'] settleLocked_post [OF w ok]
    by (simp add: read_post_def)
qed

lemma readLocked_exact:
  assumes "readLocked env i s = (Inr op, s')"
  shows "\<exists>op0. recorded s i op0 \<and> same_memory (s\<lparr>st_interrupted := st_interrupted s'\<rparr>) s' \<and>
    (if interrupted s i \<and> \<not> op_terminal op0 then \<exists>t. op = interrupted_op t op0 else op = op0)"
proof -
  obtain d s1 where d: "decodeLocked env i s = (d, s1)" by (cases "decodeLocked env i s")
  then obtain op0 where op0: "d = Inr op0" using assms by (cases d) (auto simp: readLocked_def)
  have rec: "recorded s i op0" using decodeLocked_effect(4) [OF d op0] by simp
  have mem: "same_memory s s1" by (rule decodeLocked_effect(1) [OF d])
  show ?thesis
  proof (cases "interrupted s i")
    case False
    then have "op = op0" "s' = s1"
      using assms d op0 mem by (auto simp: readLocked_def interrupted_def same_memory_def)
    then show ?thesis using False rec mem by (auto simp: same_memory_def)
  next
    case True
    then have f: "failInterruptedLocked env op0 s1 = (Inr op, s')"
      using assms d op0 mem by (auto simp: readLocked_def interrupted_def same_memory_def)
    show ?thesis
    proof (cases "op_terminal op0")
      case True
      then have "op = op0" "st_unsettled s' = st_unsettled s1"
        using f by (auto simp: failInterruptedLocked_def Let_def)
      then show ?thesis using rec mem True by (auto simp: same_memory_def)
    next
      case False
      let ?op = "interrupted_op (io_now (outcome env s1)) op0"
      obtain w s2 where w: "writeLocked env ?op s1 = (w, s2)" by (cases "writeLocked env ?op s1")
      then have "op = ?op" "st_unsettled s' = st_unsettled s2"
        using f False by (auto simp: failInterruptedLocked_def Let_def split: option.splits)
      then show ?thesis using rec mem True False writeLocked_effect(1) [OF w] by (auto simp: same_memory_def)
    qed
  qed
qed

lemma Peek_exact:
  assumes "Peek env i s = (Inr op, s')"
  shows "\<exists>op0. recorded s i op0 \<and> op =
    (case kept_end s i of Some m \<Rightarrow> m op0
     | None \<Rightarrow> if interrupted s i \<and> \<not> op_terminal op0
              then op0\<lparr>op_State := OpFailed, op_FailureReason := reasonRestarted\<rparr> else op0)"
proof -
  obtain d s1 where d: "decodeLocked env i s = (d, s1)" by (cases "decodeLocked env i s")
  then obtain op0 where op0: "d = Inr op0" using assms by (cases d) (auto simp: Peek_def)
  show ?thesis
    using assms d op0 decodeLocked_effect(4) [OF d op0]
    by (auto simp: Peek_def kept_end_def interrupted_def split: option.splits if_splits)
qed

lemma Get_exact:
  assumes g: "Get env i s = (Inr op, s')" and ok: "store_ok s"
    and excl: "kept_end s i \<noteq> None \<Longrightarrow> \<not> interrupted s i"
  shows "\<exists>op0 t. recorded s i op0 \<and> op\<lparr>op_UpdatedAt := t\<rparr> =
    (case kept_end s i of Some m \<Rightarrow> (m op0)\<lparr>op_UpdatedAt := t\<rparr>
     | None \<Rightarrow> if interrupted s i \<and> \<not> op_terminal op0
              then op0\<lparr>op_State := OpFailed, op_FailureReason := reasonRestarted, op_UpdatedAt := t\<rparr>
              else op0\<lparr>op_UpdatedAt := t\<rparr>)"
proof -
  have "isValidOperationID i" using g by (auto simp: Get_def split: if_splits)
  moreover obtain w s1 where w: "settleLocked env i s = (w, s1)" by (cases "settleLocked env i s")
  ultimately have wN: "w = None" and rd: "readLocked env i s1 = (Inr op, s')"
    using g by (auto simp: Get_def split: option.splits)
  show ?thesis
  proof (cases "kept_end s i")
    case None
    then have "s1 = s" using w by (auto simp: settleLocked_def kept_end_def)
    then obtain op0 where "recorded s i op0" "if interrupted s i \<and> \<not> op_terminal op0 then \<exists>t. op = interrupted_op t op0 else op = op0"
      using readLocked_exact [OF rd] by blast
    then show ?thesis using None by (auto simp: interrupted_op_def split: if_splits)
  next
    case (Some m)
    obtain a s2 where a: "readLocked env i s = (a, s2)" by (cases "readLocked env i s")
    have un: "map_of (st_unsettled s) i = Some m" using Some by (simp add: kept_end_def)
    obtain op0 where op0: "a = Inr op0"
      using w wN un a by (cases a) (auto simp: settleLocked_def updateLocked_def Let_def)
    have int: "\<not> interrupted s i" using excl Some by simp
    have rec: "recorded s i op0" using readLocked_exact [of env i s op0 s2] a op0 int by auto
    let ?op = "(m op0)\<lparr>op_UpdatedAt := io_now (outcome env s2)\<rparr>"
    obtain v s3 where v: "writeLocked env ?op s2 = (v, s3)" by (cases "writeLocked env ?op s2")
    have vN: "v = None" and s1: "s1 = s3\<lparr>st_unsettled := AList.delete i (st_unsettled s3)\<rparr>"
      using w wN un a op0 v by (cases v; auto simp: settleLocked_def updateLocked_def Let_def)+
    have "op_ID op0 = i" using store_ok_record [OF ok rec] by (simp add: record_ok_def)
    then have id: "op_ID ?op = i"
      using is_endD [OF store_ok_end [OF ok Some], of op0] by (simp add: same_identity_def)
    have "recorded s1 i ?op" using writeLocked_file(2) [OF v vN] id forget_end_simps(1) [OF s1] by simp
    moreover have "\<not> interrupted s1 i"
      using quiet_interrupted [of s s1 i] settleLocked_post [OF w ok] int by auto
    ultimately have "op = ?op" using readLocked_exact [OF rd] by auto
    then show ?thesis using rec Some by auto
  qed
qed

subsection \<open>A run of the system\<close>

text \<open>
  A process that starts on an empty directory, runs one operation to its end and starts another on
  the same database; the run shows that the hypotheses of the promises below can hold.
\<close>

definition demo_env :: "nat \<Rightarrow> io" where
  "demo_env k n = \<lparr>io_mkdir_ok = True, io_list_ok = True, io_read_ok = True, io_write = WriteDone,
     io_remove_ok = True, io_random = Some (\<lambda>i. i + k), io_now = 7\<rparr>"

definition demo_boot :: "store_error option \<times> store" where
  "demo_boot = NewOperationStore (demo_env 0) [] 0"

definition demo_first :: "(store_error + Operation \<times> bool) \<times> store" where
  "demo_first = FindOrCreate (demo_env 0) OpBackup ''k1'' ''h1'' ''appdb'' (snd demo_boot)"

definition demo_end :: "Operation \<Rightarrow> Operation" where
  "demo_end op = op\<lparr>op_State := OpCompleted\<rparr>"

definition demo_settled :: "store_error option \<times> store" where
  "demo_settled = Settle (demo_env 0) (operationID_of (\<lambda>i. i)) demo_end (snd demo_first)"

definition demo_second :: "(store_error + Operation \<times> bool) \<times> store" where
  "demo_second = FindOrCreate (demo_env 1) OpRestore ''k2'' ''h2'' ''appdb'' (snd demo_settled)"

definition demo_op :: "nat \<Rightarrow> OperationKind \<Rightarrow> string \<Rightarrow> string \<Rightarrow> OperationState \<Rightarrow> Operation" where
  "demo_op k kind key hash state =
     \<lparr>op_ID = operationID_of (\<lambda>i. i + k), op_Kind = kind, op_IdempotencyKey = key, op_RequestHash = hash,
      op_Database = ''appdb'', op_State = state, op_FailureReason = [], op_Artifact = None,
      op_Restored = None, op_StagingDir = [], op_CreatedAt = 7, op_UpdatedAt = 7\<rparr>"

definition demo_op1 :: Operation where
  "demo_op1 = demo_op 0 OpBackup ''k1'' ''h1'' OpCompleted"

definition demo_op2 :: Operation where
  "demo_op2 = demo_op 1 OpRestore ''k2'' ''h2'' OpPending"

definition demo_sys0 :: sys where
  "demo_sys0 = \<lparr>sy_store = empty_memory [] 0, sy_serving = False, sy_running = {}, sy_born = {},
     sy_ended = {}, sy_issued = {}\<rparr>"

definition demo_sys1 :: sys where
  "demo_sys1 = restarted None (snd demo_boot) demo_sys0"

definition demo_sys2 :: sys where
  "demo_sys2 = after_create (fst demo_first) (snd demo_first) demo_sys1"

definition demo_sys3 :: sys where
  "demo_sys3 = demo_sys2\<lparr>sy_running := sy_running demo_sys2 - {operationID_of (\<lambda>i. i)},
     sy_ended := insert (operationID_of (\<lambda>i. i)) (sy_ended demo_sys2), sy_store := snd demo_settled\<rparr>"

definition demo_sys4 :: sys where
  "demo_sys4 = after_create (fst demo_second) (snd demo_second) demo_sys3"

lemma demo_boot_facts: "fst demo_boot = None" "st_dir (snd demo_boot) = []"
  by code_simp+

lemma demo_first_facts:
  "fst demo_first = Inr (demo_op 0 OpBackup ''k1'' ''h1'' OpPending, False)"
  "map fst (st_dir (snd demo_first)) = [record_name (operationID_of (\<lambda>i. i))]"
  by code_simp+

lemma demo_settled_facts:
  "fst demo_settled = None"
  "st_dir (snd demo_settled) = [(record_name (op_ID demo_op1), RecordFile (JsonRecord demo_op1))]"
  by code_simp+

lemma demo_second_facts:
  "fst demo_second = Inr (demo_op2, False)"
  "st_dir (snd demo_second) =
     [(record_name (op_ID demo_op1), RecordFile (JsonRecord demo_op1)),
      (record_name (op_ID demo_op2), RecordFile (JsonRecord demo_op2))]"
  by code_simp+

lemma demo_ids: "operationID_of (\<lambda>i. i + 1) \<noteq> operationID_of (\<lambda>i. i)" "op_ID demo_op1 \<noteq> op_ID demo_op2"
  by code_simp+

lemma demo_fresh:
  "record_name (operationID_of (\<lambda>i. i + k)) \<notin> fst ` set (st_dir s) \<Longrightarrow> fresh_ids (demo_env k) s"
  by (simp add: fresh_ids_def demo_env_def)

lemma demo_reach1: "manager_reach demo_sys1"
proof -
  have "manager_reach demo_sys0" by (rule reach.start) (auto simp: sys_init_def demo_sys0_def)
  moreover have "sys_step demo_sys0 demo_sys1" unfolding demo_sys1_def
    by (rule sys_step.restart [of "demo_env 0"])
      (use demo_boot_facts in \<open>simp add: demo_sys0_def empty_memory_def demo_boot_def prod_eq_iff\<close>)
  ultimately show ?thesis by (rule reach.move)
qed

lemma demo_serving: "sy_serving demo_sys1" "sy_serving demo_sys2" "sy_serving demo_sys3" "sy_serving demo_sys4"
  by (auto simp: demo_sys1_def demo_sys2_def demo_sys3_def demo_sys4_def restarted_def after_create_def)

lemma demo_store:
  "sy_store demo_sys1 = snd demo_boot" "sy_store demo_sys2 = snd demo_first"
  "sy_store demo_sys3 = snd demo_settled" "sy_store demo_sys4 = snd demo_second"
  by (auto simp: demo_sys1_def demo_sys2_def demo_sys3_def demo_sys4_def restarted_def after_create_def)

lemma demo_reach2: "manager_reach demo_sys2"
proof -
  have "sys_step demo_sys1 demo_sys2" unfolding demo_sys2_def
    by (rule sys_step.create [of _ "demo_env 0" OpBackup "''k1''" "''h1''" "''appdb''"])
      (use demo_boot_facts in \<open>auto simp: demo_serving demo_store demo_first_def intro!: demo_fresh\<close>)
  with demo_reach1 show ?thesis by (rule reach.move)
qed

lemma demo_reach3: "manager_reach demo_sys3"
proof -
  have "operationID_of (\<lambda>i. i) \<in> sy_running demo_sys2"
    unfolding demo_sys2_def after_create_def by (simp add: demo_first_facts started_def demo_op_def)
  moreover have "is_end demo_end" by (simp add: is_end_def demo_end_def same_identity_def)
  ultimately have "sys_step demo_sys2 demo_sys3" unfolding demo_sys3_def
    by (intro sys_step.settle) (auto simp: demo_serving demo_store demo_settled_def prod_eq_iff)
  with demo_reach2 show ?thesis by (rule reach.move)
qed

lemma demo_reach4: "manager_reach demo_sys4"
proof -
  have "record_name (operationID_of (\<lambda>i. i + 1)) \<notin> fst ` set (st_dir (snd demo_settled))"
    using demo_ids by (simp add: demo_settled_facts demo_op1_def demo_op_def)
  then have "sys_step demo_sys3 demo_sys4" unfolding demo_sys4_def
    by (intro sys_step.create [of _ "demo_env 1" OpRestore "''k2''" "''h2''" "''appdb''"] demo_fresh)
      (auto simp: demo_serving demo_store demo_second_def)
  with demo_reach3 show ?thesis by (rule reach.move)
qed

lemma demo_records:
  "recorded (sy_store demo_sys4) (op_ID demo_op1) demo_op1"
  "recorded (sy_store demo_sys4) (op_ID demo_op2) demo_op2"
  using demo_ids by (simp_all add: demo_store file_at_def demo_second_facts)

subsection \<open>The promises\<close>

text \<open>
  C1. A database never has two operations that both have not ended. In every state the Instance
  Manager can reach, through any sequence of requests, progress, ends, failed accesses, damaged
  records, crashes and restarts, two records of one database are the same record or one of them has
  ended.
\<close>

theorem one_active_operation_per_database:
  assumes "manager_reach Y"
    and "recorded (sy_store Y) i op" "recorded (sy_store Y) j op'" "i \<noteq> j"
    and "op_Database op = op_Database op'"
  shows "op_terminal op \<or> op_terminal op'"
  using sys_invD(2) [OF reach_sys_inv [OF assms(1)]] assms(2-) by (auto simp: unique_ops_def)

theorem one_active_operation_per_database_witness:
  "manager_reach demo_sys4 \<and> op_ID demo_op1 \<noteq> op_ID demo_op2 \<and>
   (op_terminal demo_op1 \<or> op_terminal demo_op2) \<and> \<not> op_terminal demo_op2"
  using one_active_operation_per_database [OF demo_reach4 demo_records demo_ids(2)] demo_reach4 demo_ids(2)
  by (simp add: demo_op1_def demo_op2_def demo_op_def)

text \<open>
  C2. An idempotency key starts at most one run, for ever. Once \<^verbatim>\<open>FindOrCreate\<close> has started
  operation \<open>i\<close> for a kind, key and request, every later call of it for that kind and key, in this
  process or after any number of restarts, with records damaged or accesses failing in between,
  either fails or answers operation \<open>i\<close> as an existing one, and answers it only for the same request.
\<close>

theorem FindOrCreate_idempotent_for_ever:
  assumes "manager_reach Y" and "fresh_ids env (sy_store Y)"
    and "(i, kind, key, hash) \<in> sy_issued Y"
    and "FindOrCreate env kind key hash' db (sy_store Y) = (Inr (op, existed), s')"
  shows "existed \<and> op_ID op = i \<and> hash' = hash"
proof -
  have inv: "sys_inv Y" by (rule reach_sys_inv [OF assms(1)])
  have iss: "issued_ok s (sy_issued Y)" if "quiet (sy_store Y) s" for s
    using issued_ok_evolves [OF sys_invD(3) [OF inv] quiet_evolves [OF that]] .
  have never: False if "quiet (sy_store Y) s" "key_free kind key s" "decodable s" for s
    using iss [OF that(1)] assms(3) that(2,3) unfolding issued_ok_def key_free_def decodable_def by blast
  from assms(4) sys_invD(1) [OF inv] assms(2) show ?thesis
  proof (cases rule: FindOrCreate_cases)
    case (existing op')
    then have op: "op' = op" existed by auto
    have "j = i" if "recorded s' j x" "op_Kind x = kind" "op_IdempotencyKey x = key" for j x
      using iss [OF existing(2)] assms(3) that unfolding issued_ok_def by blast
    then have id: "op_ID op = i" using existing op by blast
    moreover have "op_RequestHash op = hash"
    proof -
      have "\<not> undecodable s' i" using existing(3) op id by (simp add: undecodable_def)
      then obtain x where "recorded s' i x" "op_RequestHash x = hash"
        using iss [OF existing(2)] assms(3) unfolding issued_ok_def by blast
      then show ?thesis using existing(3) op id by simp
    qed
    ultimately show ?thesis using existing op by simp
  qed (use never in auto)
qed

theorem FindOrCreate_idempotent_for_ever_witness:
  "\<exists>op s'. FindOrCreate (demo_env 3) OpRestore ''k2'' ''h2'' ''appdb'' (sy_store demo_sys4) = (Inr (op, True), s') \<and>
     op_ID op = op_ID demo_op2"
proof -
  have r: "fst (FindOrCreate (demo_env 3) OpRestore ''k2'' ''h2'' ''appdb'' (snd demo_second)) = Inr (demo_op2, True)"
    by code_simp
  then obtain s' where f:
    "FindOrCreate (demo_env 3) OpRestore ''k2'' ''h2'' ''appdb'' (sy_store demo_sys4) = (Inr (demo_op2, True), s')"
    unfolding demo_store by (metis prod.collapse)
  have "fresh_ids (demo_env 3) (sy_store demo_sys4)"
  proof (rule demo_fresh)
    have "record_name (operationID_of (\<lambda>i. i + 3)) \<notin> {record_name (op_ID demo_op1), record_name (op_ID demo_op2)}"
      by code_simp
    then show "record_name (operationID_of (\<lambda>i. i + 3)) \<notin> fst ` set (st_dir (sy_store demo_sys4))"
      by (simp add: demo_store demo_second_facts)
  qed
  moreover have "(op_ID demo_op2, OpRestore, ''k2'', ''h2'') \<in> sy_issued demo_sys4"
    unfolding demo_sys4_def after_create_def
    by (simp add: demo_second_facts started_def demo_op2_def demo_op_def)
  ultimately have "op_ID demo_op2 = op_ID demo_op2 \<and> ''h2'' = ''h2''"
    using FindOrCreate_idempotent_for_ever [OF demo_reach4 _ _ f] by blast
  then show ?thesis using f by blast
qed

text \<open>
  C3. What the store answers as running is running. An operation that \<^verbatim>\<open>Get\<close> answers as not ended was
  recorded by the process that answers and has not been settled by it: an operation that an earlier
  process left behind is never answered as running, and neither is one whose end was reached and
  could not be written yet.
\<close>

theorem Get_never_answers_a_dead_operation_as_running:
  assumes "manager_reach Y" "sy_serving Y"
    and "Get env i (sy_store Y) = (Inr op, s')" "\<not> op_terminal op"
  shows "i \<in> sy_born Y \<and> i \<notin> sy_ended Y"
proof -
  have inv: "sys_inv Y" by (rule reach_sys_inv [OF assms(1)])
  note ok = sys_invD(1) [OF inv]
  show ?thesis
    using settled_answer [OF inv Get_quiet [OF assms(3) ok] assms(2)] Get_answer [OF assms(3) ok] assms(4)
    by simp
qed

theorem Get_never_answers_a_dead_operation_as_running_witness:
  "\<exists>s'. Get (demo_env 0) (op_ID demo_op2) (sy_store demo_sys4) = (Inr demo_op2, s') \<and>
     op_ID demo_op2 \<in> sy_born demo_sys4 \<and> op_ID demo_op2 \<notin> sy_ended demo_sys4"
proof -
  have "fst (Get (demo_env 0) (op_ID demo_op2) (snd demo_second)) = Inr demo_op2" by code_simp
  then obtain s' where g: "Get (demo_env 0) (op_ID demo_op2) (sy_store demo_sys4) = (Inr demo_op2, s')"
    unfolding demo_store by (metis prod.collapse)
  moreover have "\<not> op_terminal demo_op2" by (simp add: demo_op2_def demo_op_def)
  ultimately show ?thesis
    using Get_never_answers_a_dead_operation_as_running [OF demo_reach4 demo_serving(4) g] by blast
qed

text \<open>
  C8. \<^verbatim>\<open>FindByKey\<close> answers exactly the records under the key, as they are on disk afterwards, or fails;
  and what it answers as not ended runs in this process and has not been settled.
\<close>

theorem FindByKey_answers_exactly_the_records_of_the_key:
  assumes "manager_reach Y" "sy_serving Y" "FindByKey env key (sy_store Y) = (Inr ops, s')"
  shows "(op \<in> set ops \<longleftrightarrow> recorded s' (op_ID op) op \<and> op_IdempotencyKey op = key) \<and>
    (op \<in> set ops \<and> \<not> op_terminal op \<longrightarrow> op_ID op \<in> sy_born Y \<and> op_ID op \<notin> sy_ended Y)"
proof -
  have inv: "sys_inv Y" by (rule reach_sys_inv [OF assms(1)])
  note ok = sys_invD(1) [OF inv]
  have iff: "op \<in> set ops \<longleftrightarrow> recorded s' (op_ID op) op \<and> op_IdempotencyKey op = key"
    by (rule FindByKey_post(2) [OF assms(3) ok refl])
  moreover have "op_ID op \<in> sy_born Y \<and> op_ID op \<notin> sy_ended Y" if "op \<in> set ops" "\<not> op_terminal op"
    using settled_answer [OF inv FindByKey_post(1) [OF assms(3) ok] assms(2)] iff
      FindByKey_post(3) [OF assms(3) ok refl] that by blast
  ultimately show ?thesis by blast
qed

theorem FindByKey_answers_exactly_the_records_of_the_key_witness:
  "\<exists>s'. FindByKey (demo_env 0) ''k2'' (sy_store demo_sys4) = (Inr [demo_op2], s') \<and>
     recorded s' (op_ID demo_op2) demo_op2 \<and> op_ID demo_op2 \<notin> sy_ended demo_sys4"
proof -
  have "fst (FindByKey (demo_env 0) ''k2'' (snd demo_second)) = Inr [demo_op2]" by code_simp
  then obtain s' where g: "FindByKey (demo_env 0) ''k2'' (sy_store demo_sys4) = (Inr [demo_op2], s')"
    unfolding demo_store by (metis prod.collapse)
  have "\<not> op_terminal demo_op2" by (simp add: demo_op2_def demo_op_def)
  then show ?thesis
    using FindByKey_answers_exactly_the_records_of_the_key [OF demo_reach4 demo_serving(4) g, of demo_op2] g
    by auto
qed

text \<open>
  \<^verbatim>\<open>Peek\<close> returns the operation as the next \<^verbatim>\<open>Get\<close> will see it: the two answers differ at most in
  the time of the last change.
\<close>

theorem Peek_is_what_the_next_Get_sees:
  assumes "manager_reach Y"
    and "Peek env i (sy_store Y) = (Inr op, s1)" "Get env' i (sy_store Y) = (Inr op', s2)"
  shows "\<exists>t. op'\<lparr>op_UpdatedAt := t\<rparr> = op\<lparr>op_UpdatedAt := t\<rparr>"
proof -
  have inv: "sys_inv Y" by (rule reach_sys_inv [OF assms(1)])
  have "kept_end (sy_store Y) i \<noteq> None \<Longrightarrow> \<not> interrupted (sy_store Y) i"
    using sys_invD(4) [OF inv, of i] by (simp add: tracked_def)
  from Get_exact [OF assms(3) sys_invD(1) [OF inv] this] Peek_exact [OF assms(2)] show ?thesis
    by (auto split: option.splits if_splits)
qed

theorem Peek_is_what_the_next_Get_sees_witness:
  "\<exists>op s1 op' s2 t. Peek (demo_env 0) (op_ID demo_op1) (sy_store demo_sys4) = (Inr op, s1) \<and>
     Get (demo_env 0) (op_ID demo_op1) (sy_store demo_sys4) = (Inr op', s2) \<and>
     op'\<lparr>op_UpdatedAt := t\<rparr> = op\<lparr>op_UpdatedAt := t\<rparr>"
proof -
  have "fst (Peek (demo_env 0) (op_ID demo_op1) (snd demo_second)) = Inr demo_op1"
    "fst (Get (demo_env 0) (op_ID demo_op1) (snd demo_second)) = Inr demo_op1" by code_simp+
  then obtain s1 s2 where "Peek (demo_env 0) (op_ID demo_op1) (sy_store demo_sys4) = (Inr demo_op1, s1)"
    "Get (demo_env 0) (op_ID demo_op1) (sy_store demo_sys4) = (Inr demo_op1, s2)"
    unfolding demo_store by (metis prod.collapse)
  then show ?thesis using Peek_is_what_the_next_Get_sees [OF demo_reach4] by metis
qed

text \<open>
  C10. A restart on a disk that works always succeeds, and then no record is left that says an
  operation runs: every operation an earlier process left unfinished is failed, however many
  failures and restarts came before.
\<close>

theorem restart_on_a_working_disk_ends_every_operation:
  assumes "manager_reach Y" "healthy env"
  shows "\<exists>s'. NewOperationStore env (st_dir (sy_store Y)) n = (None, s') \<and>
    (\<forall>i op. recorded s' i op \<longrightarrow> op_terminal op)"
proof -
  have "store_ok (sy_store Y)" by (rule sys_invD(1) [OF reach_sys_inv [OF assms(1)]])
  then have "store_ok (empty_memory (st_dir (sy_store Y)) n)"
    by (simp add: store_ok_def file_at_def kept_end_def empty_memory_def)
  then show ?thesis using NewOperationStore_healthy [OF assms(2)] by (auto simp: live_def)
qed

theorem restart_on_a_working_disk_ends_every_operation_witness:
  "healthy (demo_env 0) \<and> \<not> op_terminal demo_op2 \<and> recorded (sy_store demo_sys4) (op_ID demo_op2) demo_op2 \<and>
   fst (NewOperationStore (demo_env 0) (st_dir (sy_store demo_sys4)) 9) = None"
proof -
  have "healthy (demo_env 0)" by (simp add: healthy_def demo_env_def)
  from restart_on_a_working_disk_ends_every_operation [OF demo_reach4 this, of 9] this show ?thesis
    using demo_records by (auto simp: demo_op2_def demo_op_def)
qed

end
