(* ===== verification/Api.thy ===== *)
theory Api
  imports Prelude
begin

section \<open>The resource types of the operator\<close>

text \<open>
  \<^verbatim>\<open>api/v1alpha1/cubridcluster_types.go\<close>: the parts of a \<^verbatim>\<open>CubridCluster\<close>'s status that the controllers
  read and write. A Go struct is a record whose fields carry a prefix, a pointer is an option, and
  a string type with named constants is a datatype whose last constructor holds any other string the
  API server may store, the empty one included. \<^verbatim>\<open>metav1.Time\<close> stands for the time it embeds, and a
  deep copy is the value itself, since values of HOL do not alias.

  A log address is a single-constructor datatype, so that \<^verbatim>\<open>logBefore\<close> can be shown to be the strict
  part of a linear order and the library's facts about orders apply to it.
\<close>

datatype CubridRole = RoleMaster | RoleSlave | RoleReplica | RoleUnknown | RoleOther string

definition role_string :: "CubridRole \<Rightarrow> string" where
  "role_string r =
     (case r of RoleMaster \<Rightarrow> ''master'' | RoleSlave \<Rightarrow> ''slave'' | RoleReplica \<Rightarrow> ''replica''
      | RoleUnknown \<Rightarrow> ''unknown'' | RoleOther s \<Rightarrow> s)"

text \<open>The conversion \<^verbatim>\<open>CubridRole(s)\<close> of a string.\<close>

definition role_of_string :: "string \<Rightarrow> CubridRole" where
  "role_of_string s =
     (if s = ''master'' then RoleMaster else if s = ''slave'' then RoleSlave
      else if s = ''replica'' then RoleReplica else if s = ''unknown'' then RoleUnknown else RoleOther s)"

lemma role_string_of_string [simp]: "role_string (role_of_string s) = s"
  by (auto simp: role_of_string_def role_string_def)

subsection \<open>Log addresses\<close>

datatype LogAddress = LogAddress (la_Page: int) (la_Offset: int)

definition logBefore :: "LogAddress \<Rightarrow> LogAddress \<Rightarrow> bool" where
  "logBefore a b \<longleftrightarrow> la_Page a < la_Page b \<or> (la_Page a = la_Page b \<and> la_Offset a < la_Offset b)"

text \<open>What the operator relies on when it compares two positions of a log.\<close>

locale log_order =
  fixes before :: "'a \<Rightarrow> 'a \<Rightarrow> bool"
  assumes irreflexive: "\<not> before a a"
    and transitive: "before a b \<Longrightarrow> before b c \<Longrightarrow> before a c"
    and total: "a \<noteq> b \<Longrightarrow> before a b \<or> before b a"
begin

lemma asymmetric: "before a b \<Longrightarrow> \<not> before b a"
  using irreflexive transitive by blast

lemma not_before_iff: "\<not> before a b \<longleftrightarrow> b = a \<or> before b a"
  using irreflexive asymmetric total by blast

lemma grown_chain: "sorted_wrt before (a # as) \<Longrightarrow> b \<in> set as \<Longrightarrow> a \<noteq> b"
  using irreflexive by auto

end

interpretation log_address: log_order logBefore
proof unfold_locales
  show "a \<noteq> b \<Longrightarrow> logBefore a b \<or> logBefore b a" for a b
    by (cases a; cases b) (auto simp: logBefore_def)
qed (auto simp: logBefore_def)

text \<open>The Instance Manager's own type for the same thing, \<^verbatim>\<open>LSA\<close> of
  \<^verbatim>\<open>internal/instancemanager/convergence.go\<close>.\<close>

datatype LSA = LSA (lsa_Page: int) (lsa_Offset: int)

definition Before :: "LSA \<Rightarrow> LSA \<Rightarrow> bool" where
  "Before a b \<longleftrightarrow> lsa_Page a < lsa_Page b \<or> (lsa_Page a = lsa_Page b \<and> lsa_Offset a < lsa_Offset b)"

interpretation lsa: log_order Before
proof unfold_locales
  show "a \<noteq> b \<Longrightarrow> Before a b \<or> Before b a" for a b
    by (cases a; cases b) (auto simp: Before_def)
qed (auto simp: Before_def)

definition logAddress :: "LSA option \<Rightarrow> LogAddress option" where
  "logAddress a0 = (case a0 of None \<Rightarrow> None | Some a \<Rightarrow> Some (LogAddress (lsa_Page a) (lsa_Offset a)))"

lemma logBefore_logAddress:
  "logAddress (Some a) = Some a' \<Longrightarrow> logAddress (Some b) = Some b' \<Longrightarrow> logBefore a' b' \<longleftrightarrow> Before a b"
  by (auto simp: logAddress_def logBefore_def Before_def)

instantiation LogAddress :: linorder
begin

definition less_LogAddress :: "LogAddress \<Rightarrow> LogAddress \<Rightarrow> bool" where
  "less_LogAddress a b \<longleftrightarrow> logBefore a b"

definition less_eq_LogAddress :: "LogAddress \<Rightarrow> LogAddress \<Rightarrow> bool" where
  "less_eq_LogAddress a b \<longleftrightarrow> a = b \<or> logBefore a b"

instance
proof
  fix a b c :: LogAddress
  show "a < b \<longleftrightarrow> a \<le> b \<and> \<not> b \<le> a"
    using log_address.irreflexive log_address.asymmetric
    unfolding less_LogAddress_def less_eq_LogAddress_def by blast
  show "a \<le> a" by (simp add: less_eq_LogAddress_def)
  show "a \<le> b \<Longrightarrow> b \<le> c \<Longrightarrow> a \<le> c"
    using log_address.transitive unfolding less_eq_LogAddress_def by blast
  show "a \<le> b \<Longrightarrow> b \<le> a \<Longrightarrow> a = b"
    using log_address.asymmetric unfolding less_eq_LogAddress_def by blast
  show "a \<le> b \<or> b \<le> a"
    using log_address.total unfolding less_eq_LogAddress_def by blast
qed

end

subsection \<open>Conditions\<close>

datatype ConditionStatus = ConditionTrue | ConditionFalse | ConditionUnknown

record Condition =
  co_Type :: string
  co_Status :: ConditionStatus
  co_Reason :: string
  co_Message :: string
  co_ObservedGeneration :: int
  co_LastTransitionTime :: time

subsection \<open>Members\<close>

datatype UnfinishedDatabaseState = UnfinishedWaitingForOperation | UnfinishedRefused

record InstanceUnfinishedDatabase =
  ud_Database :: string
  ud_Operation :: string
  ud_State :: UnfinishedDatabaseState
  ud_Message :: string

record InstanceReplication =
  ir_Source :: string
  ir_AppliedChanges :: int
  ir_FailCount :: int
  ir_DelayedPages :: int
  ir_Applier :: string
  ir_StalledSince :: "time option"
  ir_CopyDelayedPages :: int
  ir_CopiedEOF :: "LogAddress option"
  ir_NotReceivingSince :: "time option"
  ir_ObservedAt :: "time option"

record InstanceStatus =
  in_Name :: string
  in_Ordinal :: int
  in_Role :: CubridRole
  in_Ready :: bool
  in_ObservedEngineVersion :: string
  in_ImageID :: string
  in_Replication :: "InstanceReplication option"
  in_LastObservedTime :: "time option"
  in_UnfinishedDatabase :: "InstanceUnfinishedDatabase option"

subsection \<open>Databases and bootstrap\<close>

record DatabaseSeeding =
  sd_Member :: string
  sd_Source :: string
  sd_Round :: int
  sd_RestoreOperationID :: string
  sd_BackupOperationID :: string
  sd_OperationMissingSince :: "time option"

record DatabaseStatus =
  db_Name :: string
  db_Phase :: string
  db_PrimaryCreated :: bool
  db_HAConfigured :: bool
  db_SeededMembers :: "string list"
  db_Seeding :: "DatabaseSeeding option"
  db_BootstrapAttempts :: int
  db_BootstrapOperationID :: string
  db_BootstrapOperationMissingSince :: "time option"

datatype BootstrapPhase =
    BootstrapPreparing | BootstrapRestoring | BootstrapValidating | BootstrapSeedingReplicas
  | BootstrapComplete | BootstrapFailed | BootstrapOther string

record BootstrapStatus =
  bs_Mode :: string
  bs_Phase :: BootstrapPhase
  bs_ManifestURI :: string
  bs_OperationID :: string
  bs_TargetMember :: string
  bs_Attempts :: int
  bs_OperationMissingSince :: "time option"

record UpdateStatus =
  us_DesiredRevision :: string
  us_CurrentRevision :: string
  us_EngineVersion :: string

record CubridClusterStatus =
  cs_ObservedGeneration :: int
  cs_CurrentPrimary :: string
  cs_Instances :: "InstanceStatus list"
  cs_Databases :: "DatabaseStatus list"
  cs_Conditions :: "Condition list"
  cs_Bootstrap :: "BootstrapStatus option"
  cs_ObservedEngineVersion :: string
  cs_Update :: "UpdateStatus option"
  cs_LastObservedTime :: "time option"

end
