(* ===== verification/Resolve.thy ===== *)
theory Resolve
  imports Api
begin

section \<open>Which member is the primary\<close>

text \<open>
  The first half of \<^verbatim>\<open>internal/controller/haresolve.go\<close>: what counts as an observation of a member's
  role, and the verdict on the primary from the observations of all members. The observations are a
  map from the member's name; a member that was not asked is not in it. The record of an observation
  is \<^verbatim>\<open>RoleObservation\<close> of \<^verbatim>\<open>roleprober.go\<close>.
\<close>

record ReplicationObservation =
  ro_Source :: string
  ro_AppliedChanges :: int
  ro_FailCount :: int
  ro_DelayedPages :: int
  ro_Applier :: string
  ro_FinalLSA :: "LogAddress option"
  ro_CopiedEOF :: "LogAddress option"
  ro_SourceLogEnd :: "LogAddress option"

record RoleObservation =
  ob_Reachable :: bool
  ob_TokenRefused :: bool
  ob_Role :: CubridRole
  ob_ObservedAt :: time
  ob_Conflicting :: bool
  ob_ActiveMasterClaim :: bool
  ob_MasterNotYetActive :: bool
  ob_EngineVersion :: string
  ob_Replication :: "ReplicationObservation option"
  ob_LogEnd :: "LogAddress option"
  ob_Reason :: string
  ob_RequestID :: string
  ob_Unfinished :: "InstanceUnfinishedDatabase option"

type_synonym observations = "string \<Rightarrow> RoleObservation option"

text \<open>What \<^verbatim>\<open>obs[m]\<close> is for a member that is not in the map.\<close>

definition zero_observation :: RoleObservation where
  "zero_observation =
     \<lparr>ob_Reachable = False, ob_TokenRefused = False, ob_Role = RoleOther [], ob_ObservedAt = zero_time,
      ob_Conflicting = False, ob_ActiveMasterClaim = False, ob_MasterNotYetActive = False,
      ob_EngineVersion = [], ob_Replication = None, ob_LogEnd = None, ob_Reason = [], ob_RequestID = [],
      ob_Unfinished = None\<rparr>"

definition obs_of :: "observations \<Rightarrow> string \<Rightarrow> RoleObservation" where
  "obs_of obs m = (case obs m of None \<Rightarrow> zero_observation | Some o' \<Rightarrow> o')"

definition roleObservationTTL :: duration where
  "roleObservationTTL = 15 * second"

definition haResyncInterval :: duration where
  "haResyncInterval = 10 * second"

definition observationWriteInterval :: duration where
  "observationWriteInterval = 30 * second"

lemmas ttl_defs = roleObservationTTL_def haResyncInterval_def observationWriteInterval_def duration_defs

definition memberNames :: "string \<Rightarrow> nat \<Rightarrow> string list" where
  "memberNames cluster count = map (\<lambda>i. cluster @ ''-'' @ show_nat i) [0..<count]"

definition fresh :: "RoleObservation \<Rightarrow> time \<Rightarrow> bool" where
  "fresh obs now \<longleftrightarrow>
     (if \<not> ob_Reachable obs \<or> ob_ObservedAt obs = zero_time then False
      else let age = sub now (ob_ObservedAt obs)
           in age \<le> roleObservationTTL \<and> age \<ge> - roleObservationTTL)"

definition authoritative :: "RoleObservation \<Rightarrow> time \<Rightarrow> bool" where
  "authoritative obs now \<longleftrightarrow>
     (if ob_Role obs = RoleUnknown \<or> ob_Role obs = RoleOther [] \<or> ob_Conflicting obs then False
      else fresh obs now)"

record PrimaryResolution =
  pr_CurrentPrimary :: string
  pr_Status :: ConditionStatus
  pr_Reason :: string
  pr_MultipleMasters :: bool
  pr_TokenRefused :: "string list"

definition reasonMultiplePrimaries :: string where
  "reasonMultiplePrimaries = ''MultiplePrimariesObserved''"

definition reasonTokenRefused :: string where
  "reasonTokenRefused = ''InstanceManagerTokenRefused''"

text \<open>The variables of the loop of \<^verbatim>\<open>resolvePrimary\<close> over the members.\<close>

record tally =
  ta_masters :: nat
  ta_masterClaims :: nat
  ta_primary :: string
  ta_incomplete :: bool
  ta_ambiguous :: bool
  ta_refused :: "string list"

definition tally_start :: tally where
  "tally_start = \<lparr>ta_masters = 0, ta_masterClaims = 0, ta_primary = [], ta_incomplete = False,
     ta_ambiguous = False, ta_refused = []\<rparr>"

definition tally_member :: "observations \<Rightarrow> time \<Rightarrow> tally \<Rightarrow> string \<Rightarrow> tally" where
  "tally_member obs now t0 m =
     (let o' = obs_of obs m;
          ok = (obs m \<noteq> None);
          t = (if fresh o' now \<and> ob_Role o' = RoleMaster \<and> ob_ActiveMasterClaim o'
               then t0\<lparr>ta_masterClaims := ta_masterClaims t0 + 1\<rparr> else t0)
      in if ok \<and> ob_Reachable o' \<and> ob_Conflicting o' then t\<lparr>ta_ambiguous := True\<rparr>
         else if \<not> ok \<or> \<not> authoritative o' now
         then t\<lparr>ta_incomplete := True,
                ta_refused := (if ok \<and> ob_TokenRefused o' then ta_refused t @ [m] else ta_refused t)\<rparr>
         else if ob_Role o' = RoleMaster
         then t\<lparr>ta_masters := ta_masters t + 1, ta_primary := m\<rparr>
         else t)"

definition resolvePrimary :: "string list \<Rightarrow> observations \<Rightarrow> time \<Rightarrow> PrimaryResolution" where
  "resolvePrimary members obs now =
     (let t = foldl (tally_member obs now) tally_start members;
          res = \<lparr>pr_CurrentPrimary = [], pr_Status = ConditionFalse, pr_Reason = [],
                 pr_MultipleMasters = (ta_masters t > 1 \<or> ta_masterClaims t > 1), pr_TokenRefused = []\<rparr>
      in if ta_masters t > 1 then res\<lparr>pr_Reason := reasonMultiplePrimaries\<rparr>
         else if ta_ambiguous t then res\<lparr>pr_Reason := ''AmbiguousPrimaryObservation''\<rparr>
         else if ta_refused t \<noteq> [] then res\<lparr>pr_Reason := reasonTokenRefused, pr_TokenRefused := ta_refused t\<rparr>
         else if ta_incomplete t then res\<lparr>pr_Reason := ''PrimaryObservationIncomplete''\<rparr>
         else if ta_masters t = 0 then res\<lparr>pr_Reason := ''NoPrimaryObserved''\<rparr>
         else res\<lparr>pr_CurrentPrimary := ta_primary t, pr_Status := ConditionTrue,
                  pr_Reason := ''SinglePrimaryObserved''\<rparr>)"

definition primaryResolvedMessage :: "PrimaryResolution \<Rightarrow> string" where
  "primaryResolvedMessage res =
     (if pr_CurrentPrimary res \<noteq> [] then ''current primary: '' @ pr_CurrentPrimary res
      else if pr_Reason res = reasonTokenRefused
      then ''no single authoritative primary observed: '' @
           (if length (pr_TokenRefused res) > 1 then ''the Instance Managers of '' else ''the Instance Manager of '') @
           join '', '' (pr_TokenRefused res) @ '' refused the cluster''@ [CHR 0x27] @ ''s token''
      else ''no single authoritative primary observed'')"

subsection \<open>The verdict as a specification\<close>

text \<open>A member is observed when it is in the map and its observation counts at \<open>now\<close>.\<close>

definition observed :: "observations \<Rightarrow> time \<Rightarrow> string \<Rightarrow> bool" where
  "observed obs now m \<longleftrightarrow> (case obs m of None \<Rightarrow> False | Some o' \<Rightarrow> authoritative o' now)"

definition observed_master :: "observations \<Rightarrow> time \<Rightarrow> string \<Rightarrow> bool" where
  "observed_master obs now m \<longleftrightarrow> observed obs now m \<and> ob_Role (obs_of obs m) = RoleMaster"

definition conflicted :: "observations \<Rightarrow> string \<Rightarrow> bool" where
  "conflicted obs m \<longleftrightarrow> (case obs m of None \<Rightarrow> False | Some o' \<Rightarrow> ob_Reachable o' \<and> ob_Conflicting o')"

definition token_refused :: "observations \<Rightarrow> time \<Rightarrow> string \<Rightarrow> bool" where
  "token_refused obs now m \<longleftrightarrow>
     \<not> conflicted obs m \<and> \<not> observed obs now m \<and> obs m \<noteq> None \<and> ob_TokenRefused (obs_of obs m)"

definition claims_master :: "observations \<Rightarrow> time \<Rightarrow> string \<Rightarrow> bool" where
  "claims_master obs now m \<longleftrightarrow>
     (let o' = obs_of obs m in fresh o' now \<and> ob_Role o' = RoleMaster \<and> ob_ActiveMasterClaim o')"

lemma authoritative_not_conflicting: "authoritative o' now \<Longrightarrow> \<not> ob_Conflicting o' \<and> ob_Reachable o' \<and> fresh o' now"
  by (auto simp: authoritative_def fresh_def split: if_splits)

lemma observed_not_conflicted: "observed obs now m \<Longrightarrow> \<not> conflicted obs m"
  by (auto simp: observed_def conflicted_def dest: authoritative_not_conflicting split: option.splits)

lemma tally_members:
  "foldl (tally_member obs now) t members =
     \<lparr>ta_masters = ta_masters t + length (filter (observed_master obs now) members),
      ta_masterClaims = ta_masterClaims t + length (filter (claims_master obs now) members),
      ta_primary = last (ta_primary t # filter (observed_master obs now) members),
      ta_incomplete = (ta_incomplete t \<or> (\<exists>m \<in> set members. \<not> conflicted obs m \<and> \<not> observed obs now m)),
      ta_ambiguous = (ta_ambiguous t \<or> (\<exists>m \<in> set members. conflicted obs m)),
      ta_refused = ta_refused t @ filter (token_refused obs now) members\<rparr>"
proof (induction members arbitrary: t)
  case Nil
  then show ?case by simp
next
  case (Cons m members)
  have step: "tally_member obs now t m =
     \<lparr>ta_masters = ta_masters t + (if observed_master obs now m then 1 else 0),
      ta_masterClaims = ta_masterClaims t + (if claims_master obs now m then 1 else 0),
      ta_primary = (if observed_master obs now m then m else ta_primary t),
      ta_incomplete = (ta_incomplete t \<or> \<not> conflicted obs m \<and> \<not> observed obs now m),
      ta_ambiguous = (ta_ambiguous t \<or> conflicted obs m),
      ta_refused = (if token_refused obs now m then ta_refused t @ [m] else ta_refused t)\<rparr>"
    using authoritative_not_conflicting [of "obs_of obs m" now]
    by (cases "obs m")
      (auto simp: tally_member_def Let_def observed_master_def observed_def conflicted_def token_refused_def
        claims_master_def obs_of_def)
  show ?case by (simp add: step Cons.IH)
qed

text \<open>The verdict in terms of the members alone, without the loop: the reasons with the most severe
  first.\<close>

definition resolve_reference :: "string list \<Rightarrow> observations \<Rightarrow> time \<Rightarrow> PrimaryResolution" where
  "resolve_reference members obs now =
     (let masters = filter (observed_master obs now) members;
          refused = filter (token_refused obs now) members;
          many = (length masters > 1 \<or> length (filter (claims_master obs now) members) > 1);
          no = (\<lambda>why names. \<lparr>pr_CurrentPrimary = [], pr_Status = ConditionFalse, pr_Reason = why,
                 pr_MultipleMasters = many, pr_TokenRefused = names\<rparr>)
      in if length masters > 1 then no reasonMultiplePrimaries []
         else if \<exists>m \<in> set members. conflicted obs m then no ''AmbiguousPrimaryObservation'' []
         else if refused \<noteq> [] then no reasonTokenRefused refused
         else if \<exists>m \<in> set members. \<not> observed obs now m then no ''PrimaryObservationIncomplete'' []
         else if masters = [] then no ''NoPrimaryObserved'' []
         else \<lparr>pr_CurrentPrimary = last masters, pr_Status = ConditionTrue, pr_Reason = ''SinglePrimaryObserved'',
               pr_MultipleMasters = many, pr_TokenRefused = []\<rparr>)"

lemma resolvePrimary_spec: "resolvePrimary members obs now = resolve_reference members obs now"
  by (auto simp: resolvePrimary_def resolve_reference_def tally_members tally_start_def Let_def)

lemma claims_of_observed:
  assumes "\<forall>m \<in> set members. observed obs now m"
  shows "length (filter (claims_master obs now) members) \<le> length (filter (observed_master obs now) members)"
proof -
  have "filter (claims_master obs now) members = filter (\<lambda>m. claims_master obs now m \<and> observed_master obs now m) members"
    using assms by (intro filter_cong) (auto simp: claims_master_def observed_master_def Let_def)
  also have "\<dots> = filter (claims_master obs now) (filter (observed_master obs now) members)"
    by (simp add: conj_commute)
  finally show ?thesis by (metis length_filter_le)
qed

lemma resolved_iff:
  "pr_Status (resolvePrimary members obs now) = ConditionTrue \<longleftrightarrow>
     (\<forall>m \<in> set members. observed obs now m) \<and>
     (\<exists>p. filter (observed_master obs now) members = [p] \<and>
          pr_CurrentPrimary (resolvePrimary members obs now) = p \<and>
          \<not> pr_MultipleMasters (resolvePrimary members obs now))"
proof
  assume t: "pr_Status (resolvePrimary members obs now) = ConditionTrue"
  let ?ms = "filter (observed_master obs now) members"
  have all: "\<forall>m \<in> set members. observed obs now m" and ne: "?ms \<noteq> []" and le: "\<not> length ?ms > 1"
    using t by (auto simp: resolvePrimary_spec resolve_reference_def Let_def split: if_splits)
  then obtain p where p: "?ms = [p]" by (cases ?ms) auto
  have "pr_CurrentPrimary (resolvePrimary members obs now) = p"
    "\<not> pr_MultipleMasters (resolvePrimary members obs now)"
    using t p claims_of_observed [OF all] by (auto simp: resolvePrimary_spec resolve_reference_def Let_def split: if_splits)
  then show "(\<forall>m \<in> set members. observed obs now m) \<and> (\<exists>p. ?ms = [p] \<and>
      pr_CurrentPrimary (resolvePrimary members obs now) = p \<and>
      \<not> pr_MultipleMasters (resolvePrimary members obs now))"
    using all p by blast
next
  assume r: "(\<forall>m \<in> set members. observed obs now m) \<and> (\<exists>p. filter (observed_master obs now) members = [p] \<and>
      pr_CurrentPrimary (resolvePrimary members obs now) = p \<and>
      \<not> pr_MultipleMasters (resolvePrimary members obs now))"
  then have "\<not> (\<exists>m \<in> set members. conflicted obs m)" "filter (token_refused obs now) members = []"
    using observed_not_conflicted by (auto simp: token_refused_def filter_empty_conv)
  then show "pr_Status (resolvePrimary members obs now) = ConditionTrue"
    using r by (auto simp: resolvePrimary_spec resolve_reference_def Let_def)
qed

text \<open>
  C4. The primary is resolved exactly when every member is observed, freshly and without
  contradiction, and exactly one of them is a master; that one is then named, and no verdict of
  several masters accompanies it.
\<close>

theorem resolvePrimary_True_iff:
  "pr_Status (resolvePrimary members obs now) = ConditionTrue \<longleftrightarrow>
     (\<forall>m \<in> set members. observed obs now m) \<and>
     (\<exists>p. filter (observed_master obs now) members = [p] \<and>
          pr_CurrentPrimary (resolvePrimary members obs now) = p \<and>
          \<not> pr_MultipleMasters (resolvePrimary members obs now))"
  by (rule resolved_iff)

definition demo_observation :: "CubridRole \<Rightarrow> time \<Rightarrow> RoleObservation" where
  "demo_observation r t =
     zero_observation\<lparr>ob_Reachable := True, ob_Role := r, ob_ObservedAt := t, ob_ActiveMasterClaim := (r = RoleMaster)\<rparr>"

definition demo_observations :: observations where
  "demo_observations =
     [''c-0'' \<mapsto> demo_observation RoleSlave 5, ''c-1'' \<mapsto> demo_observation RoleMaster 6, ''c-2'' \<mapsto> demo_observation RoleSlave 7]"

theorem resolvePrimary_True_iff_witness:
  "pr_Status (resolvePrimary (memberNames ''c'' 3) demo_observations 8) = ConditionTrue \<and>
   filter (observed_master demo_observations 8) (memberNames ''c'' 3) = [''c-1''] \<and>
   pr_CurrentPrimary (resolvePrimary (memberNames ''c'' 3) demo_observations 8) = ''c-1''"
proof -
  have "pr_Status (resolvePrimary (memberNames ''c'' 3) demo_observations 8) = ConditionTrue"
    "filter (observed_master demo_observations 8) (memberNames ''c'' 3) = [''c-1'']"
    by code_simp+
  then show ?thesis using resolvePrimary_True_iff [of "memberNames ''c'' 3" demo_observations 8] by simp
qed

text \<open>
  The loop of \<^verbatim>\<open>resolvePrimary\<close> computes the reference verdict for every list of members and every
  map of observations: several observed masters first, then a member that contradicts itself, then
  the members that refused the token, each named once per place in the list, then a member that is
  not observed, then no master.
\<close>

theorem resolvePrimary_computes_the_reference:
  "resolvePrimary members obs now = resolve_reference members obs now"
  by (rule resolvePrimary_spec)

end
