(* ===== verification/Replication.thy ===== *)
theory Replication
  imports Resolve
begin

section \<open>The replication of one slave\<close>

text \<open>
  \<^verbatim>\<open>internal/controller/replication.go\<close> and \<^verbatim>\<open>applierpositions.go\<close>: the status of a slave's log applier
  and of its copy of the master's log, from one reading and what was kept of the readings before,
  and the condition judged from it. The last part follows one slave through any number of readings,
  with the times of the status held back as \<^verbatim>\<open>holdObservationTimes\<close> may do, and shows when a stall is
  reported and when it is not.
\<close>

definition replicationStallWindow :: duration where
  "replicationStallWindow = 60 * second"

definition replicationHistoryTTL :: duration where
  "replicationHistoryTTL = 2 * replicationStallWindow"

definition positionCompareInterval :: duration where
  "positionCompareInterval = haResyncInterval div 2"

lemmas window_defs = replicationStallWindow_def replicationHistoryTTL_def positionCompareInterval_def ttl_defs

record applierReading =
  ar_Source :: string
  ar_Applier :: string
  ar_FinalLSA :: "LogAddress option"
  ar_CopiedEOF :: "LogAddress option"
  ar_DelayedPages :: int
  ar_ReadAt :: time

definition sameApplier :: "string \<Rightarrow> string \<Rightarrow> bool" where
  "sameApplier a b \<longleftrightarrow> a = [] \<or> b = [] \<or> a = b"

definition continued :: "time option \<Rightarrow> bool \<Rightarrow> time \<Rightarrow> time option" where
  "continued reported same now =
     (if reported = None then None else if same then reported else Some now)"

definition tooClose :: "time \<Rightarrow> time \<Rightarrow> bool" where
  "tooClose before now \<longleftrightarrow> (let age = sub now before in age \<ge> 0 \<and> age < positionCompareInterval)"

definition positionStall ::
  "time option \<Rightarrow> applierReading \<Rightarrow> ReplicationObservation \<Rightarrow> time \<Rightarrow> time option" where
  "positionStall reported pos obs now =
     (if tooClose (ar_ReadAt pos) now then reported
      else if ar_Source pos \<noteq> ro_Source obs \<or> ar_FinalLSA pos \<noteq> ro_FinalLSA obs \<or> ro_DelayedPages obs = 0
      then None
      else if \<not> sameApplier (ar_Applier pos) (ro_Applier obs) then continued reported False now
      else if reported = None \<and> ar_DelayedPages pos > 0 \<and>
              (case (ar_CopiedEOF pos, ro_CopiedEOF obs) of (Some a, Some b) \<Rightarrow> logBefore a b | _ \<Rightarrow> False)
      then Some now
      else reported)"

definition nextLogCopy ::
  "InstanceReplication option \<Rightarrow> ReplicationObservation \<Rightarrow> InstanceReplication \<Rightarrow> time \<Rightarrow> InstanceReplication" where
  "nextLogCopy prev obs next now =
     (case ro_CopiedEOF obs of
        None \<Rightarrow> next
      | Some eof \<Rightarrow>
          let grew = (case prev of None \<Rightarrow> True
                      | Some p \<Rightarrow> ir_Source p \<noteq> ro_Source obs \<or> ir_CopiedEOF p = None \<or> ir_CopiedEOF p \<noteq> Some eof)
          in case ro_SourceLogEnd obs of
               None \<Rightarrow>
                 (case prev of
                    Some p \<Rightarrow>
                      if \<not> grew
                      then next\<lparr>ir_CopiedEOF := ir_CopiedEOF p, ir_CopyDelayedPages := ir_CopyDelayedPages p,
                                ir_NotReceivingSince := ir_NotReceivingSince p\<rparr>
                      else next
                  | None \<Rightarrow> next)
             | Some source \<Rightarrow>
                 let delayed = wrap64 (la_Page source - la_Page eof)
                 in if delayed \<le> 0 then next
                    else let next' = next\<lparr>ir_CopiedEOF := Some eof, ir_CopyDelayedPages := delayed\<rparr>
                         in if grew then next'
                            else (case prev of
                                    Some p \<Rightarrow>
                                      if ir_NotReceivingSince p \<noteq> None
                                      then next'\<lparr>ir_NotReceivingSince := ir_NotReceivingSince p\<rparr>
                                      else next'\<lparr>ir_NotReceivingSince := Some now\<rparr>
                                  | None \<Rightarrow> next'))"

text \<open>The status before counts only while it is not too old and not stamped in the future.\<close>

definition usable_history :: "InstanceReplication option \<Rightarrow> time \<Rightarrow> InstanceReplication option" where
  "usable_history prev now =
     (case prev of
        None \<Rightarrow> None
      | Some p \<Rightarrow>
          (case ir_ObservedAt p of
             None \<Rightarrow> None
           | Some t \<Rightarrow>
               let age = sub now t
               in if age > replicationHistoryTTL + observationWriteInterval \<or> age < - roleObservationTTL
                  then None else Some p))"

definition nextReplication ::
  "InstanceReplication option \<Rightarrow> ReplicationObservation option \<Rightarrow> applierReading option \<Rightarrow> time \<Rightarrow>
     InstanceReplication option" where
  "nextReplication prev0 obs0 pos now =
     (let prev = usable_history prev0 now
      in case obs0 of
           None \<Rightarrow> prev
         | Some obs \<Rightarrow>
             let next = nextLogCopy prev obs
                   \<lparr>ir_Source = ro_Source obs, ir_AppliedChanges = ro_AppliedChanges obs,
                    ir_FailCount = ro_FailCount obs, ir_DelayedPages = ro_DelayedPages obs,
                    ir_Applier = ro_Applier obs, ir_StalledSince = None, ir_CopyDelayedPages = 0,
                    ir_CopiedEOF = None, ir_NotReceivingSince = None, ir_ObservedAt = Some now\<rparr> now;
                 reported = (case prev of Some p \<Rightarrow> if ir_Source p = ro_Source obs then ir_StalledSince p else None
                             | None \<Rightarrow> None);
                 positioned = (ro_FinalLSA obs \<noteq> None \<and> ro_CopiedEOF obs \<noteq> None);
                 counters =
                   (case prev of
                      Some p \<Rightarrow>
                        if ir_Source p = ro_Source obs \<and> ir_DelayedPages p > 0 \<and> ro_DelayedPages obs > 0 \<and>
                           ir_AppliedChanges p = ro_AppliedChanges obs
                        then (let same = sameApplier (ir_Applier p) (ro_Applier obs)
                              in if reported = None \<and> same then Some now else continued reported same now)
                        else None
                    | None \<Rightarrow> None)
             in Some (next\<lparr>ir_StalledSince :=
                  (case pos of
                     None \<Rightarrow>
                       if positioned
                       then (if ro_DelayedPages obs > 0
                             then continued reported
                                    (case prev of Some p \<Rightarrow> sameApplier (ir_Applier p) (ro_Applier obs) | None \<Rightarrow> False) now
                             else None)
                       else counters
                   | Some q \<Rightarrow>
                       if positioned \<and> ar_FinalLSA q \<noteq> None \<and> ar_CopiedEOF q \<noteq> None
                       then positionStall reported q obs now
                       else counters)\<rparr>))"

subsection \<open>The condition\<close>

definition reasonAppliersProgressing :: string where
  "reasonAppliersProgressing = ''AppliersProgressing''"

definition reasonReplicationStalled :: string where
  "reasonReplicationStalled = ''ReplicationStalled''"

definition reasonApplyFailures :: string where
  "reasonApplyFailures = ''ApplyFailures''"

definition reasonLogCopyStalled :: string where
  "reasonLogCopyStalled = ''LogCopyStalled''"

definition reasonReplicationNotObserved :: string where
  "reasonReplicationNotObserved = ''ReplicationNotObserved''"

datatype applier_verdict = Unread | Failing | Stalled | NotReceiving | Progressing

definition judge_slave :: "InstanceStatus \<Rightarrow> observations \<Rightarrow> time \<Rightarrow> applier_verdict" where
  "judge_slave i obs now =
     (case (in_Replication i, ob_Replication (obs_of obs (in_Name i))) of
        (Some r, Some _) \<Rightarrow>
          if ir_FailCount r > 0 then Failing
          else if (case ir_StalledSince r of Some t \<Rightarrow> sub now t \<ge> replicationStallWindow | None \<Rightarrow> False) then Stalled
          else if (case ir_NotReceivingSince r of Some t \<Rightarrow> sub now t \<ge> replicationStallWindow | None \<Rightarrow> False)
          then NotReceiving
          else Progressing
      | _ \<Rightarrow> Unread)"

definition judged :: "applier_verdict \<Rightarrow> InstanceStatus list \<Rightarrow> observations \<Rightarrow> time \<Rightarrow> string list" where
  "judged v instances obs now =
     map in_Name (filter (\<lambda>i. in_Role i = RoleSlave \<and> judge_slave i obs now = v) instances)"

definition apostrophe_s :: string where
  "apostrophe_s = [CHR 0x27] @ ''s''"

definition replicationCondition ::
  "InstanceStatus list \<Rightarrow> observations \<Rightarrow> time \<Rightarrow> ConditionStatus \<times> string \<times> string" where
  "replicationCondition instances obs now =
     (let failing = judged Failing instances obs now;
          stalled = judged Stalled instances obs now;
          notReceiving = judged NotReceiving instances obs now;
          unread = judged Unread instances obs now
      in if failing \<noteq> []
         then (ConditionFalse, reasonApplyFailures,
               ''the log applier could not apply every change on: '' @ join '', '' failing)
         else if stalled \<noteq> []
         then (ConditionFalse, reasonReplicationStalled,
               ''log pages have waited for 1m0s or longer with nothing applied on: '' @ join '', '' stalled)
         else if notReceiving \<noteq> []
         then (ConditionFalse, reasonLogCopyStalled,
               ''the copy of the master'' @ apostrophe_s @ '' log has not grown for 1m0s or longer while pages of it waited to be copied, on: '' @
               join '', '' notReceiving)
         else if filter (\<lambda>i. in_Role i = RoleSlave) instances = []
         then (ConditionUnknown, reasonReplicationNotObserved, ''no slave was observed'')
         else if unread \<noteq> []
         then (ConditionUnknown, reasonReplicationNotObserved,
               ''the log applier could not be read on: '' @ join '', '' unread)
         else (ConditionTrue, reasonAppliersProgressing,
               ''every observed slave applies the master'' @ apostrophe_s @ '' log''))"

subsection \<open>The readings kept in memory\<close>

record clusterPositions =
  cp_name :: "string \<times> string"
  cp_members :: "string \<Rightarrow> applierReading option"

text \<open>\<^verbatim>\<open>ApplierPositions\<close>: by cluster UID, with the cluster's name beside the readings.\<close>

type_synonym ApplierPositions = "(string \<times> clusterPositions) list"

definition reading_counts :: "applierReading \<Rightarrow> time \<Rightarrow> bool" where
  "reading_counts r now \<longleftrightarrow>
     (let age = sub now (ar_ReadAt r) in age \<le> replicationHistoryTTL \<and> age \<ge> - roleObservationTTL)"

definition readings :: "ApplierPositions \<Rightarrow> string \<Rightarrow> time \<Rightarrow> string \<Rightarrow> applierReading option" where
  "readings p uid now m =
     (case map_of p uid of
        None \<Rightarrow> None
      | Some c \<Rightarrow>
          (case cp_members c m of
             None \<Rightarrow> None
           | Some r \<Rightarrow> if reading_counts r now then Some r else None))"

text \<open>The new readings are a finite map, given as an association list so that it can be empty.\<close>

definition commit ::
  "string \<Rightarrow> string \<times> string \<Rightarrow> (string \<times> applierReading) list \<Rightarrow> ApplierPositions \<Rightarrow> ApplierPositions" where
  "commit uid name rs p =
     (let others = filter (\<lambda>(u, c). \<not> (u \<noteq> uid \<and> cp_name c = name)) p
      in if rs = [] then AList.delete uid others
         else AList.update uid \<lparr>cp_name = name, cp_members = map_of rs\<rparr> others)"

definition forget :: "string \<times> string \<Rightarrow> ApplierPositions \<Rightarrow> ApplierPositions" where
  "forget name p = filter (\<lambda>(u, c). cp_name c \<noteq> name) p"

definition reading_of :: "ReplicationObservation \<Rightarrow> time \<Rightarrow> applierReading" where
  "reading_of r now =
     \<lparr>ar_Source = ro_Source r, ar_Applier = ro_Applier r, ar_FinalLSA = ro_FinalLSA r,
      ar_CopiedEOF = ro_CopiedEOF r, ar_DelayedPages = ro_DelayedPages r, ar_ReadAt = now\<rparr>"

definition reading_to_keep ::
  "RoleObservation option \<Rightarrow> applierReading option \<Rightarrow> time \<Rightarrow> applierReading option" where
  "reading_to_keep o0 kept now =
     (case o0 of
        Some o' \<Rightarrow>
          if authoritative o' now \<and> ob_Role o' \<noteq> RoleSlave then None
          else if authoritative o' now \<and> ob_Replication o' \<noteq> None \<and>
                  (case kept of None \<Rightarrow> True | Some k \<Rightarrow> \<not> tooClose (ar_ReadAt k) now)
          then map_option (\<lambda>r. reading_of r now) (ob_Replication o')
          else kept
      | None \<Rightarrow> kept)"

definition readingPositions ::
  "string list \<Rightarrow> observations \<Rightarrow> (string \<Rightarrow> applierReading option) \<Rightarrow> time \<Rightarrow> (string \<times> applierReading) list" where
  "readingPositions members obs before now =
     concat (map (\<lambda>m. case reading_to_keep (obs m) (before m) now of None \<Rightarrow> [] | Some r \<Rightarrow> [(m, r)])
              (remdups members))"

subsection \<open>One slave through a sequence of readings\<close>

text \<open>
  What one reconcile does with a slave whose applier it read: \<open>now\<close> is the time of the reading and
  \<open>held\<close> the time of it that ends up in the stored status. The state is the stored replication and the
  reading kept in memory.
\<close>

type_synonym slave_state = "InstanceReplication option \<times> applierReading option"

type_synonym slave_reading = "ReplicationObservation \<times> time \<times> time"

definition kept_now :: "applierReading option \<Rightarrow> time \<Rightarrow> applierReading option" where
  "kept_now kept now = (case kept of Some r \<Rightarrow> if reading_counts r now then Some r else None | None \<Rightarrow> None)"

definition slave_pass :: "slave_state \<Rightarrow> slave_reading \<Rightarrow> slave_state" where
  "slave_pass S P =
     (case (S, P) of ((prev, kept), (obs, now, held)) \<Rightarrow>
        (map_option (\<lambda>r. r\<lparr>ir_ObservedAt := Some held\<rparr>) (nextReplication prev (Some obs) (kept_now kept now) now),
         case kept_now kept now of
           None \<Rightarrow> Some (reading_of obs now)
         | Some k \<Rightarrow> if tooClose (ar_ReadAt k) now then Some k else Some (reading_of obs now)))"

text \<open>The pass keeps what \<^verbatim>\<open>readings\<close> and \<^verbatim>\<open>readingPositions\<close> keep for an authoritative slave.\<close>

lemma slave_pass_keeps:
  assumes "authoritative o' now" "ob_Role o' = RoleSlave" "ob_Replication o' = Some obs"
  shows "snd (slave_pass (prev, kept) (obs, now, held)) = reading_to_keep (Some o') (kept_now kept now) now"
  using assms by (auto simp: slave_pass_def reading_to_keep_def split: option.splits)

definition positioned :: "ReplicationObservation \<Rightarrow> bool" where
  "positioned obs \<longleftrightarrow> ro_FinalLSA obs \<noteq> None \<and> ro_CopiedEOF obs \<noteq> None"

lemma nextLogCopy_stall [simp]: "ir_StalledSince (nextLogCopy prev obs next now) = ir_StalledSince next"
  "ir_Source (nextLogCopy prev obs next now) = ir_Source next"
  "ir_Applier (nextLogCopy prev obs next now) = ir_Applier next"
  "ir_ObservedAt (nextLogCopy prev obs next now) = ir_ObservedAt next"
  "ir_FailCount (nextLogCopy prev obs next now) = ir_FailCount next"
  by (auto simp: nextLogCopy_def Let_def split: option.splits)

lemma usable_history_SomeD: "usable_history prev now = Some p \<Longrightarrow> prev = Some p"
  by (auto simp: usable_history_def Let_def split: option.splits if_splits)

lemma usable_history_recent:
  assumes "ir_ObservedAt p = Some h" "h \<le> now" "now - h \<le> replicationHistoryTTL + observationWriteInterval"
  shows "usable_history (Some p) now = Some p"
  using assms by (simp add: usable_history_def Let_def go_simps window_defs)

lemma nextReplication_reading:
  assumes "nextReplication prev (Some obs) pos now = Some r"
  shows "ir_Source r = ro_Source obs" "ir_Applier r = ro_Applier obs" "ir_FailCount r = ro_FailCount obs"
  using assms by (auto simp: nextReplication_def Let_def)

lemma kept_now_SomeD: "kept_now kept now = Some k \<Longrightarrow> kept = Some k"
  by (auto simp: kept_now_def split: option.splits if_splits)

subsubsection \<open>A moving applier\<close>

definition no_stall :: "InstanceReplication option \<Rightarrow> bool" where
  "no_stall prev \<longleftrightarrow> (case prev of None \<Rightarrow> True | Some r \<Rightarrow> ir_StalledSince r = None)"

definition final_of :: "slave_reading \<Rightarrow> LogAddress" where
  "final_of P = the (ro_FinalLSA (fst P))"

lemma moving_pass:
  assumes "no_stall prev" "positioned obs"
    and "\<And>k. kept = Some k \<Longrightarrow> ar_FinalLSA k \<noteq> None \<and> ar_CopiedEOF k \<noteq> None \<and> ar_FinalLSA k \<noteq> ro_FinalLSA obs"
  shows "no_stall (fst (slave_pass (prev, kept) (obs, now, held)))"
  using assms usable_history_SomeD [of prev now] kept_now_SomeD [of kept now]
  by (auto simp: slave_pass_def no_stall_def nextReplication_def Let_def positionStall_def positioned_def
      continued_def split: option.splits if_splits)

lemma moving_run:
  assumes "no_stall prev" "\<forall>P \<in> set Ps. positioned (fst P)" "sorted_wrt logBefore (map final_of Ps)"
    and "\<And>k. kept = Some k \<Longrightarrow> ar_CopiedEOF k \<noteq> None \<and>
      (\<exists>l. ar_FinalLSA k = Some l \<and> (\<forall>P \<in> set Ps. logBefore l (final_of P)))"
  shows "no_stall (fst (foldl slave_pass (prev, kept) Ps))"
  using assms
proof (induction Ps arbitrary: prev kept)
  case Nil
  then show ?case by simp
next
  case (Cons P Ps)
  obtain obs now held where P: "P = (obs, now, held)" by (metis prod.exhaust)
  obtain prev' kept' where S: "slave_pass (prev, kept) P = (prev', kept')" by (metis prod.exhaust)
  have pos: "positioned obs" using Cons.prems(2) P by simp
  have moved: "ar_FinalLSA k \<noteq> None \<and> ar_CopiedEOF k \<noteq> None \<and> ar_FinalLSA k \<noteq> ro_FinalLSA obs" if "kept = Some k" for k
    using Cons.prems(4) [OF that] P log_address.irreflexive by (auto simp: final_of_def)
  have "no_stall prev'" using moving_pass [OF Cons.prems(1) pos moved] S P by (metis fst_conv)
  moreover have "ar_CopiedEOF k \<noteq> None \<and> (\<exists>l. ar_FinalLSA k = Some l \<and> (\<forall>P \<in> set Ps. logBefore l (final_of P)))"
    if k: "kept' = Some k" for k
  proof -
    have "k = reading_of obs now \<or> kept = Some k"
      using S P k kept_now_SomeD [of kept now] by (auto simp: slave_pass_def split: option.splits if_splits)
    then show ?thesis
    proof
      assume "kept = Some k"
      then show ?thesis using Cons.prems(4) by fastforce
    next
      assume "k = reading_of obs now"
      then show ?thesis using pos Cons.prems(3) P by (auto simp: reading_of_def positioned_def final_of_def)
    qed
  qed
  ultimately show ?case using Cons.IH [of prev' kept'] Cons.prems(2,3) S by simp
qed

text \<open>
  C6. An applier that advances is never reported stalled: through any sequence of readings at any
  times, each with the position and the end of the copy, whose positions strictly increase, no
  reading leaves a stall in the status, however many pages wait.
\<close>

theorem moving_applier_is_never_reported_stalled:
  assumes "\<forall>P \<in> set Ps. positioned (fst P)" "sorted_wrt logBefore (map final_of Ps)"
  shows "no_stall (fst (foldl slave_pass (None, None) Ps))"
  by (rule moving_run) (use assms in \<open>auto simp: no_stall_def\<close>)

definition demo_reading :: "int \<Rightarrow> int \<Rightarrow> int \<Rightarrow> ReplicationObservation" where
  "demo_reading pages final eof =
     \<lparr>ro_Source = ''c-1'', ro_AppliedChanges = 4, ro_FailCount = 0, ro_DelayedPages = pages,
      ro_Applier = ''pid:7:1'', ro_FinalLSA = Some (LogAddress final 0), ro_CopiedEOF = Some (LogAddress eof 0),
      ro_SourceLogEnd = Some (LogAddress 90 0)\<rparr>"

theorem moving_applier_is_never_reported_stalled_witness:
  "no_stall (fst (foldl slave_pass (None, None)
     [(demo_reading 3 10 20, 0, 0), (demo_reading 9 11 30, 10 * second, 0), (demo_reading 9 12 40, 20 * second, 0)]))"
  by (rule moving_applier_is_never_reported_stalled)
    (auto simp: demo_reading_def positioned_def final_of_def logBefore_def)

subsubsection \<open>A stuck applier\<close>

text \<open>Readings of one applier at one position with pages waiting, none more than the history's
  lifetime after the one before, each stored with a time held back by at most the write interval.\<close>

fun stuck_at :: "string \<Rightarrow> string \<Rightarrow> LogAddress \<Rightarrow> time \<Rightarrow> slave_reading list \<Rightarrow> bool" where
  "stuck_at src app l t [] = True"
| "stuck_at src app l t ((obs, now, held) # Ps) \<longleftrightarrow>
     ro_Source obs = src \<and> ro_Applier obs = app \<and> ro_FinalLSA obs = Some l \<and> ro_CopiedEOF obs \<noteq> None \<and>
     ro_DelayedPages obs > 0 \<and> t \<le> now \<and> now - t \<le> replicationHistoryTTL \<and>
     now - observationWriteInterval \<le> held \<and> held \<le> now \<and> stuck_at src app l now Ps"

definition stall_stored :: "string \<Rightarrow> string \<Rightarrow> LogAddress \<Rightarrow> time \<Rightarrow> time \<Rightarrow> slave_state \<Rightarrow> bool" where
  "stall_stored src app l t since S \<longleftrightarrow>
     (case S of
        (Some p, kept) \<Rightarrow>
          ir_Source p = src \<and> ir_Applier p = app \<and> ir_StalledSince p = Some since \<and>
          (case ir_ObservedAt p of Some h \<Rightarrow> t - observationWriteInterval \<le> h \<and> h \<le> t | None \<Rightarrow> False) \<and>
          (case kept of Some k \<Rightarrow> ar_Source k = src \<and> ar_Applier k = app \<and> ar_FinalLSA k = Some l \<and> ar_CopiedEOF k \<noteq> None
           | None \<Rightarrow> True)
      | _ \<Rightarrow> False)"

lemma stuck_pass:
  assumes st: "stall_stored src app l t since (prev, kept)" and P: "stuck_at src app l t [(obs, now, held)]"
  shows "stall_stored src app l now since (slave_pass (prev, kept) (obs, now, held))"
proof -
  obtain p h where p: "prev = Some p" "ir_Source p = src" "ir_Applier p = app" "ir_StalledSince p = Some since"
    "ir_ObservedAt p = Some h" "t - observationWriteInterval \<le> h" "h \<le> t"
    using st by (auto simp: stall_stored_def split: option.splits)
  have hist: "usable_history prev now = Some p"
    unfolding p(1) by (rule usable_history_recent [OF p(5)]) (use p P in auto)
  have same: "sameApplier app app" by (simp add: sameApplier_def)
  show ?thesis
    using st P p hist same kept_now_SomeD [of kept now]
    by (auto simp: slave_pass_def nextReplication_def Let_def stall_stored_def reading_of_def positionStall_def
        continued_def split: option.splits)
qed

lemma stuck_run:
  "stall_stored src app l t since S \<Longrightarrow> stuck_at src app l t Ps \<Longrightarrow>
    \<exists>t'. stall_stored src app l t' since (foldl slave_pass S Ps)"
proof (induction Ps arbitrary: t S)
  case Nil
  then show ?case by auto
next
  case (Cons P Ps)
  obtain obs now held where P: "P = (obs, now, held)" by (metis prod.exhaust)
  obtain prev kept where S: "S = (prev, kept)" by (cases S)
  have "stall_stored src app l now since (slave_pass S P)"
    using stuck_pass [of src app l t since prev kept obs now held] Cons.prems S P by simp
  then show ?case using Cons.IH [of now] Cons.prems(2) P by simp
qed

lemma stall_starts:
  assumes k: "ar_Source k = ro_Source obs" "ar_Applier k = ro_Applier obs" "ar_FinalLSA k = ro_FinalLSA obs"
      "ar_DelayedPages k > 0" "ar_CopiedEOF k = Some e" "ro_FinalLSA obs = Some l"
    and grown: "ro_CopiedEOF obs = Some e'" "logBefore e e'" and pages: "ro_DelayedPages obs > 0"
    and times: "positionCompareInterval \<le> now - ar_ReadAt k" "now - ar_ReadAt k \<le> replicationHistoryTTL"
      "now - observationWriteInterval \<le> held" "held \<le> now"
    and prev: "no_stall prev"
  shows "stall_stored (ro_Source obs) (ro_Applier obs) l now now (slave_pass (prev, Some k) (obs, now, held))"
proof -
  have kept: "kept_now (Some k) now = Some k"
    using times by (simp add: kept_now_def reading_counts_def Let_def go_simps window_defs)
  have far: "\<not> tooClose (ar_ReadAt k) now"
    using times by (simp add: tooClose_def Let_def go_simps window_defs)
  have none: "(case usable_history prev now of Some p \<Rightarrow> if ir_Source p = ro_Source obs then ir_StalledSince p else None
      | None \<Rightarrow> None) = None"
    using prev usable_history_SomeD [of prev now] by (auto simp: no_stall_def split: option.splits)
  have "positionStall None k obs now = Some now"
    using k grown pages far by (simp add: positionStall_def sameApplier_def)
  then show ?thesis
    using k grown times none far kept
    by (simp add: slave_pass_def nextReplication_def Let_def stall_stored_def reading_of_def)
qed

lemma stall_stored_since: "stall_stored src app l t since S \<Longrightarrow> \<exists>r. fst S = Some r \<and> ir_StalledSince r = Some since"
  by (cases S) (auto simp: stall_stored_def split: option.splits)

lemma stalled_slave_is_reported:
  assumes "i \<in> set instances" "in_Role i = RoleSlave" "in_Replication i = Some r"
    "ob_Replication (obs_of obs (in_Name i)) \<noteq> None" "ir_StalledSince r = Some since"
    "replicationStallWindow \<le> now - since"
  shows "fst (replicationCondition instances obs now) = ConditionFalse"
proof -
  have "judge_slave i obs now = Failing \<or> judge_slave i obs now = Stalled"
    using assms by (auto simp: judge_slave_def go_simps window_defs)
  then have "judged Failing instances obs now \<noteq> [] \<or> judged Stalled instances obs now \<noteq> []"
    using assms(1,2) by (auto simp: judged_def filter_empty_conv)
  then show ?thesis by (auto simp: replicationCondition_def Let_def)
qed

text \<open>
  C5. A stuck applier is reported. When a reading finds the applier where the reading kept before
  found it, in the same process and with the same source, pages waiting at both and the copy of the
  log grown in between, a stall is stored from that time; every later reading that still finds it
  there keeps it, through missed readings of up to the history's lifetime and through held-back
  times; and once the stall is as old as the window, the replication condition is False.
\<close>

theorem stuck_applier_is_reported:
  assumes "ar_Source k = ro_Source obs" "ar_Applier k = ro_Applier obs" "ar_FinalLSA k = Some l"
      "ro_FinalLSA obs = Some l" "ar_DelayedPages k > 0" "ro_DelayedPages obs > 0"
    and "ar_CopiedEOF k = Some e" "ro_CopiedEOF obs = Some e'" "logBefore e e'"
    and "positionCompareInterval \<le> now - ar_ReadAt k" "now - ar_ReadAt k \<le> replicationHistoryTTL"
    and "now - observationWriteInterval \<le> held" "held \<le> now" "no_stall prev"
    and "stuck_at (ro_Source obs) (ro_Applier obs) l now Ps"
  shows "\<exists>r. fst (foldl slave_pass (prev, Some k) ((obs, now, held) # Ps)) = Some r \<and>
    ir_StalledSince r = Some now \<and>
    (\<forall>instances os i later. i \<in> set instances \<longrightarrow> in_Role i = RoleSlave \<longrightarrow> in_Replication i = Some r \<longrightarrow>
       ob_Replication (obs_of os (in_Name i)) \<noteq> None \<longrightarrow> replicationStallWindow \<le> later - now \<longrightarrow>
       fst (replicationCondition instances os later) = ConditionFalse)"
proof -
  have "stall_stored (ro_Source obs) (ro_Applier obs) l now now (slave_pass (prev, Some k) (obs, now, held))"
    by (rule stall_starts) (use assms in auto)
  then obtain t' where "stall_stored (ro_Source obs) (ro_Applier obs) l t' now
      (foldl slave_pass (prev, Some k) ((obs, now, held) # Ps))"
    using stuck_run assms(15) by fastforce
  from stall_stored_since [OF this] show ?thesis using stalled_slave_is_reported by blast
qed

theorem stuck_applier_is_reported_witness:
  "\<exists>r. fst (foldl slave_pass (None, Some (reading_of (demo_reading 3 10 20) 0))
     [(demo_reading 5 10 21, 10 * second, 10 * second), (demo_reading 6 10 22, 80 * second, 60 * second)]) = Some r \<and>
     ir_StalledSince r = Some (10 * second)"
  using stuck_applier_is_reported [of "reading_of (demo_reading 3 10 20) 0" "demo_reading 5 10 21" "LogAddress 10 0"
      "LogAddress 20 0" "LogAddress 21 0" "10 * second" "10 * second" None
      "[(demo_reading 6 10 22, 80 * second, 60 * second)]"]
  by (auto simp: demo_reading_def reading_of_def logBefore_def no_stall_def window_defs)

subsubsection \<open>The copy of the master's log\<close>

lemma nextReplication_copy:
  assumes "nextReplication prev (Some obs) pos now = Some r"
  shows "ir_NotReceivingSince r = ir_NotReceivingSince (nextLogCopy (usable_history prev now) obs
      \<lparr>ir_Source = ro_Source obs, ir_AppliedChanges = ro_AppliedChanges obs, ir_FailCount = ro_FailCount obs,
       ir_DelayedPages = ro_DelayedPages obs, ir_Applier = ro_Applier obs, ir_StalledSince = None,
       ir_CopyDelayedPages = 0, ir_CopiedEOF = None, ir_NotReceivingSince = None, ir_ObservedAt = Some now\<rparr> now)"
    and "ir_CopiedEOF r = ir_CopiedEOF (nextLogCopy (usable_history prev now) obs
      \<lparr>ir_Source = ro_Source obs, ir_AppliedChanges = ro_AppliedChanges obs, ir_FailCount = ro_FailCount obs,
       ir_DelayedPages = ro_DelayedPages obs, ir_Applier = ro_Applier obs, ir_StalledSince = None,
       ir_CopyDelayedPages = 0, ir_CopiedEOF = None, ir_NotReceivingSince = None, ir_ObservedAt = Some now\<rparr> now)"
  using assms by (auto simp: nextReplication_def Let_def)

definition copy_receives :: "InstanceReplication option \<Rightarrow> bool" where
  "copy_receives prev \<longleftrightarrow> (case prev of None \<Rightarrow> True | Some r \<Rightarrow> ir_NotReceivingSince r = None)"

definition eof_of :: "slave_reading \<Rightarrow> LogAddress" where
  "eof_of P = the (ro_CopiedEOF (fst P))"

lemma growing_copy_pass:
  assumes "ro_CopiedEOF obs = Some e"
    and "\<And>p. prev = Some p \<Longrightarrow> ir_CopiedEOF p \<noteq> Some e"
    and "slave_pass (prev, kept) (obs, now, held) = (next, kept')"
  shows "copy_receives next" "\<And>r. next = Some r \<Longrightarrow> ir_CopiedEOF r = None \<or> ir_CopiedEOF r = Some e"
proof -
  obtain r where r: "nextReplication prev (Some obs) (kept_now kept now) now = Some r"
    by (auto simp: nextReplication_def Let_def)
  have next': "next = Some (r\<lparr>ir_ObservedAt := Some held\<rparr>)" using assms(3) r by (simp add: slave_pass_def)
  have grew: "\<And>p. usable_history prev now = Some p \<Longrightarrow> ir_CopiedEOF p \<noteq> Some e"
    using assms(2) usable_history_SomeD by blast
  show "copy_receives next"
    using next' nextReplication_copy(1) [OF r] assms(1) grew
    by (auto simp: copy_receives_def nextLogCopy_def Let_def split: option.splits if_splits)
  show "ir_CopiedEOF r' = None \<or> ir_CopiedEOF r' = Some e" if "next = Some r'" for r'
    using that next' nextReplication_copy(2) [OF r] assms(1) grew
    by (auto simp: nextLogCopy_def Let_def split: option.splits if_splits)
qed

lemma growing_copy_run:
  assumes "copy_receives prev" "\<forall>P \<in> set Ps. ro_CopiedEOF (fst P) \<noteq> None" "sorted_wrt logBefore (map eof_of Ps)"
    and "\<And>p e. prev = Some p \<Longrightarrow> ir_CopiedEOF p = Some e \<Longrightarrow> \<forall>P \<in> set Ps. logBefore e (eof_of P)"
  shows "copy_receives (fst (foldl slave_pass (prev, kept) Ps))"
  using assms
proof (induction Ps arbitrary: prev kept)
  case Nil
  then show ?case by simp
next
  case (Cons P Ps)
  obtain obs now held where P: "P = (obs, now, held)" by (metis prod.exhaust)
  obtain prev' kept' where S: "slave_pass (prev, kept) (obs, now, held) = (prev', kept')" by (metis prod.exhaust)
  obtain e where e: "ro_CopiedEOF obs = Some e" using Cons.prems(2) P by auto
  have "ir_CopiedEOF p \<noteq> Some e" if "prev = Some p" for p
    using Cons.prems(4) [OF that, of e] P e log_address.irreflexive by (auto simp: eof_of_def)
  note step = growing_copy_pass [OF e this S]
  have "\<forall>Q \<in> set Ps. logBefore e (eof_of Q)" using Cons.prems(3) P e by (simp add: eof_of_def)
  then have "copy_receives (fst (foldl slave_pass (prev', kept') Ps))"
    using Cons.IH [of prev' kept'] step Cons.prems(2,3) by fastforce
  then show ?case using S P by simp
qed

text \<open>
  A copy of the master's log that grows between readings is never reported as not receiving,
  however far it is behind the master.
\<close>

theorem growing_copy_is_never_reported:
  assumes "\<forall>P \<in> set Ps. ro_CopiedEOF (fst P) \<noteq> None" "sorted_wrt logBefore (map eof_of Ps)"
  shows "copy_receives (fst (foldl slave_pass (None, None) Ps))"
  by (rule growing_copy_run) (use assms in \<open>auto simp: copy_receives_def\<close>)

theorem growing_copy_is_never_reported_witness:
  "copy_receives (fst (foldl slave_pass (None, None)
     [(demo_reading 0 10 20, 0, 0), (demo_reading 0 11 30, 10 * second, 0), (demo_reading 0 12 40, 20 * second, 0)]))"
  by (rule growing_copy_is_never_reported) (auto simp: demo_reading_def eof_of_def logBefore_def)

text \<open>Readings of a copy that stands at one address while the master's log ends pages later.\<close>

fun copy_stands_at :: "string \<Rightarrow> LogAddress \<Rightarrow> time \<Rightarrow> slave_reading list \<Rightarrow> bool" where
  "copy_stands_at src e t [] = True"
| "copy_stands_at src e t ((obs, now, held) # Ps) \<longleftrightarrow>
     ro_Source obs = src \<and> ro_CopiedEOF obs = Some e \<and>
     (case ro_SourceLogEnd obs of Some m \<Rightarrow> is_int64 (la_Page m - la_Page e) \<and> la_Page e < la_Page m | None \<Rightarrow> False) \<and>
     t \<le> now \<and> now - t \<le> replicationHistoryTTL \<and>
     now - observationWriteInterval \<le> held \<and> held \<le> now \<and> copy_stands_at src e now Ps"

definition copy_waits :: "string \<Rightarrow> LogAddress \<Rightarrow> time \<Rightarrow> time option \<Rightarrow> slave_state \<Rightarrow> bool" where
  "copy_waits src e t since S \<longleftrightarrow>
     (case S of
        (Some p, kept) \<Rightarrow>
          ir_Source p = src \<and> ir_CopiedEOF p = Some e \<and> ir_NotReceivingSince p = since \<and>
          (case ir_ObservedAt p of Some h \<Rightarrow> t - observationWriteInterval \<le> h \<and> h \<le> t | None \<Rightarrow> False)
      | _ \<Rightarrow> False)"

lemma copy_stands_pass:
  assumes st: "copy_waits src e t since (prev, kept)" and P: "copy_stands_at src e t [(obs, now, held)]"
  shows "copy_waits src e now (case since of None \<Rightarrow> Some now | Some u \<Rightarrow> Some u)
    (slave_pass (prev, kept) (obs, now, held))"
proof -
  obtain p h where p: "prev = Some p" "ir_Source p = src" "ir_CopiedEOF p = Some e" "ir_NotReceivingSince p = since"
    "ir_ObservedAt p = Some h" "t - observationWriteInterval \<le> h" "h \<le> t"
    using st by (auto simp: copy_waits_def split: option.splits)
  have hist: "usable_history prev now = Some p"
    unfolding p(1) by (rule usable_history_recent [OF p(5)]) (use p P in auto)
  obtain r where r: "nextReplication prev (Some obs) (kept_now kept now) now = Some r"
    by (auto simp: nextReplication_def Let_def)
  have "ir_NotReceivingSince r = (case since of None \<Rightarrow> Some now | Some u \<Rightarrow> Some u)" "ir_CopiedEOF r = Some e"
    using nextReplication_copy [OF r] hist p P
    by (auto simp: nextLogCopy_def Let_def go_simps split: option.splits)
  then show ?thesis using r nextReplication_reading(1) [OF r] P by (auto simp: slave_pass_def copy_waits_def)
qed

lemma copy_stands_run:
  "copy_waits src e t (Some u) S \<Longrightarrow> copy_stands_at src e t Ps \<Longrightarrow>
    \<exists>t'. copy_waits src e t' (Some u) (foldl slave_pass S Ps)"
proof (induction Ps arbitrary: t S)
  case Nil
  then show ?case by auto
next
  case (Cons P Ps)
  obtain obs now held where P: "P = (obs, now, held)" by (metis prod.exhaust)
  obtain prev kept where S: "S = (prev, kept)" by (cases S)
  have "copy_waits src e now (Some u) (slave_pass S P)"
    using copy_stands_pass [of src e t "Some u" prev kept obs now held] Cons.prems S P by simp
  then show ?case using Cons.IH [of now] Cons.prems(2) P by simp
qed

lemma copy_first_seen:
  assumes P: "copy_stands_at src e t [(obs, now, held)]" and new: "\<And>p. prev = Some p \<Longrightarrow> ir_CopiedEOF p \<noteq> Some e"
  shows "copy_waits src e now None (slave_pass (prev, kept) (obs, now, held))"
proof -
  obtain r where r: "nextReplication prev (Some obs) (kept_now kept now) now = Some r"
    by (auto simp: nextReplication_def Let_def)
  have grew: "\<And>p. usable_history prev now = Some p \<Longrightarrow> ir_CopiedEOF p \<noteq> Some e"
    using new usable_history_SomeD by blast
  have "ir_NotReceivingSince r = None" "ir_CopiedEOF r = Some e"
    using nextReplication_copy [OF r] grew P
    by (auto simp: nextLogCopy_def Let_def go_simps split: option.splits)
  then show ?thesis using r nextReplication_reading(1) [OF r] P by (auto simp: slave_pass_def copy_waits_def)
qed

lemma copy_waits_since: "copy_waits src e t since S \<Longrightarrow> \<exists>r. fst S = Some r \<and> ir_NotReceivingSince r = since"
  by (cases S) (auto simp: copy_waits_def split: option.splits)

lemma standing_copy_is_reported:
  assumes "i \<in> set instances" "in_Role i = RoleSlave" "in_Replication i = Some r"
    "ob_Replication (obs_of obs (in_Name i)) \<noteq> None" "ir_NotReceivingSince r = Some since"
    "replicationStallWindow \<le> now - since"
  shows "fst (replicationCondition instances obs now) = ConditionFalse"
proof -
  have "judge_slave i obs now \<in> {Failing, Stalled, NotReceiving}"
    using assms by (auto simp: judge_slave_def go_simps window_defs split: option.splits)
  then have "judged Failing instances obs now \<noteq> [] \<or> judged Stalled instances obs now \<noteq> [] \<or>
      judged NotReceiving instances obs now \<noteq> []"
    using assms(1,2) by (auto simp: judged_def filter_empty_conv)
  then show ?thesis by (auto simp: replicationCondition_def Let_def)
qed

text \<open>
  A copy of the master's log that stands still while the master's log ends pages later is
  reported: from the second reading that finds it at the same address the time is stored and kept,
  and once that time is as old as the window the replication condition is False. The apply stall
  cannot tell, since nothing waits to be applied.
\<close>

theorem standing_copy_is_reported_after_the_window:
  assumes "\<And>p. prev = Some p \<Longrightarrow> ir_CopiedEOF p \<noteq> Some e"
    and "copy_stands_at src e t ((obs1, now1, held1) # (obs2, now2, held2) # Ps)"
  shows "\<exists>r. fst (foldl slave_pass (prev, kept) ((obs1, now1, held1) # (obs2, now2, held2) # Ps)) = Some r \<and>
    ir_NotReceivingSince r = Some now2 \<and>
    (\<forall>instances os i later. i \<in> set instances \<longrightarrow> in_Role i = RoleSlave \<longrightarrow> in_Replication i = Some r \<longrightarrow>
       ob_Replication (obs_of os (in_Name i)) \<noteq> None \<longrightarrow> replicationStallWindow \<le> later - now2 \<longrightarrow>
       fst (replicationCondition instances os later) = ConditionFalse)"
proof -
  let ?S1 = "slave_pass (prev, kept) (obs1, now1, held1)"
  have one: "copy_waits src e now1 None ?S1"
    by (rule copy_first_seen [of _ _ t]) (use assms in auto)
  then have "copy_waits src e now2 (Some now2) (slave_pass ?S1 (obs2, now2, held2))"
    using copy_stands_pass [of src e now1 None "fst ?S1" "snd ?S1" obs2 now2 held2] assms(2) by simp
  then obtain t' where "copy_waits src e t' (Some now2) (foldl slave_pass (prev, kept) ((obs1, now1, held1) # (obs2, now2, held2) # Ps))"
    using copy_stands_run assms(2) by fastforce
  from copy_waits_since [OF this] show ?thesis using standing_copy_is_reported by blast
qed

theorem standing_copy_is_reported_after_the_window_witness:
  "\<exists>r. fst (foldl slave_pass (None, None)
     [(demo_reading 0 10 20, 0, 0), (demo_reading 0 10 20, 10 * second, 0), (demo_reading 0 10 20, 20 * second, 20 * second)]) = Some r \<and>
     ir_NotReceivingSince r = Some (10 * second)"
  using standing_copy_is_reported_after_the_window [of None "LogAddress 20 0" "''c-1''" 0 "demo_reading 0 10 20" 0 0
      "demo_reading 0 10 20" "10 * second" 0 "[(demo_reading 0 10 20, 20 * second, 20 * second)]" None]
  by (auto simp: demo_reading_def is_int64_def window_defs)

subsection \<open>The store of the readings\<close>

lemma map_of_filter_distinct:
  "distinct (map fst xs) \<Longrightarrow>
    map_of (filter P xs) k = (case map_of xs k of Some v \<Rightarrow> if P (k, v) then Some v else None | None \<Rightarrow> None)"
  by (induction xs) (auto simp: map_of_eq_None_iff rev_image_eqI split: option.splits if_splits)

lemma distinct_commit: "distinct (map fst p) \<Longrightarrow> distinct (map fst (commit uid name rs p))"
proof -
  assume "distinct (map fst p)"
  then have "distinct (map fst (filter (\<lambda>(u, c). \<not> (u \<noteq> uid \<and> cp_name c = name)) p))"
    by (induction p) auto
  then show ?thesis by (simp add: commit_def Let_def distinct_update distinct_delete)
qed

text \<open>
  What one reconcile commits is what the next one reads: after \<^verbatim>\<open>commit\<close> the readings of the
  cluster are the committed ones that are neither too old nor stamped in the future, nothing is left
  of another cluster of the same name, and the readings of every other cluster are unchanged.
\<close>

theorem commit_then_readings:
  assumes "distinct (map fst p)"
  shows "readings (commit uid name rs p) uid' now m =
     (if uid' = uid
      then (case map_of rs m of Some r \<Rightarrow> if reading_counts r now then Some r else None | None \<Rightarrow> None)
      else (case map_of p uid' of
              Some c \<Rightarrow> if cp_name c = name then None else readings p uid' now m
            | None \<Rightarrow> None))"
  using map_of_filter_distinct [OF assms, of "\<lambda>(u, c). \<not> (u \<noteq> uid \<and> cp_name c = name)"]
  by (cases "rs = []")
    (auto simp: readings_def commit_def Let_def update_conv' delete_conv' split: option.splits)

theorem commit_then_readings_witness:
  "distinct (map fst (commit ''u1'' (''ns'', ''c'') [(''c-0'', reading_of (demo_reading 0 1 2) 5)] [])) \<and>
   readings (commit ''u2'' (''ns'', ''c'') [(''c-0'', reading_of (demo_reading 0 3 4) 7)]
     (commit ''u1'' (''ns'', ''c'') [(''c-0'', reading_of (demo_reading 0 1 2) 5)] [])) ''u1'' 9 ''c-0'' = None \<and>
   readings (commit ''u2'' (''ns'', ''c'') [(''c-0'', reading_of (demo_reading 0 3 4) 7)]
     (commit ''u1'' (''ns'', ''c'') [(''c-0'', reading_of (demo_reading 0 1 2) 5)] [])) ''u2'' 9 ''c-0'' =
     Some (reading_of (demo_reading 0 3 4) 7)"
proof -
  let ?p = "commit ''u1'' (''ns'', ''c'') [(''c-0'', reading_of (demo_reading 0 1 2) 5)] []"
  have d: "distinct (map fst ?p)" by (rule distinct_commit) simp
  have "map_of ?p ''u1'' = Some \<lparr>cp_name = (''ns'', ''c''), cp_members = map_of [(''c-0'', reading_of (demo_reading 0 1 2) 5)]\<rparr>"
    by (simp add: commit_def)
  moreover have "reading_counts (reading_of (demo_reading 0 3 4) 7) 9"
    by (simp add: reading_counts_def reading_of_def Let_def go_simps window_defs)
  ultimately show ?thesis using d commit_then_readings [OF d] by simp
qed

end
