(* ===== verification/HAStatus.thy ===== *)
theory HAStatus
  imports Replication
begin

section \<open>The HA status of a cluster\<close>

text \<open>
  The second half of \<^verbatim>\<open>internal/controller/haresolve.go\<close>: the list of the members in the status, the
  HAReady condition, the status of a reconcile that could not ask the members, the times that are put
  back so that a reconcile that saw nothing new writes nothing, and the reconcile step that puts these
  together (\<^verbatim>\<open>reconcileHAStatus\<close>).

  The library functions that keep the list of conditions (\<^verbatim>\<open>meta.FindStatusCondition\<close>,
  \<^verbatim>\<open>meta.SetStatusCondition\<close>, \<^verbatim>\<open>meta.IsStatusConditionTrue\<close>), the comparison of two statuses (\<^verbatim>\<open>equality.Semantic.DeepEqual\<close>) and the
  answers of the members are arguments. The log lines of \<^verbatim>\<open>logUnobservedMembers\<close> are left out.
\<close>

subsection \<open>The members in the status\<close>

definition withSourceLogEnd ::
  "ReplicationObservation option \<Rightarrow> observations \<Rightarrow> time \<Rightarrow> ReplicationObservation option" where
  "withSourceLogEnd r0 obs now =
     (case r0 of
        None \<Rightarrow> None
      | Some r \<Rightarrow>
          (case obs (ro_Source r) of
             None \<Rightarrow> Some r
           | Some src \<Rightarrow>
               if ob_Role src \<noteq> RoleMaster \<or> \<not> authoritative src now \<or> ob_LogEnd src = None
               then Some r else Some (r\<lparr>ro_SourceLogEnd := ob_LogEnd src\<rparr>)))"

text \<open>A map built by a loop over a list: the last entry of a key counts.\<close>

definition last_of :: "(InstanceStatus \<Rightarrow> 'a option) \<Rightarrow> InstanceStatus list \<Rightarrow> string \<Rightarrow> 'a option" where
  "last_of f previous m =
     (case map_of (map (\<lambda>i. (in_Name i, f i)) (rev previous)) m of Some v \<Rightarrow> v | None \<Rightarrow> None)"

definition instanceStatus ::
  "observations \<Rightarrow> time \<Rightarrow> InstanceStatus list \<Rightarrow> (string \<Rightarrow> applierReading option) \<Rightarrow> nat \<times> string \<Rightarrow> InstanceStatus" where
  "instanceStatus obs now previous positions im =
     (let m = snd im;
          role = (case obs m of Some o' \<Rightarrow> if authoritative o' now then ob_Role o' else RoleUnknown | None \<Rightarrow> RoleUnknown);
          ready = (case obs m of
                     Some o' \<Rightarrow> authoritative o' now \<and> (role = RoleMaster \<or> role = RoleSlave \<or> role = RoleReplica)
                   | None \<Rightarrow> False);
          version = (case obs m of Some o' \<Rightarrow> if fresh o' now then ob_EngineVersion o' else [] | None \<Rightarrow> []);
          answered = (case obs m of Some o' \<Rightarrow> fresh o' now \<and> \<not> ob_Conflicting o' | None \<Rightarrow> False)
      in \<lparr>in_Name = m, in_Ordinal = int (fst im), in_Role = role, in_Ready = ready,
          in_ObservedEngineVersion = version, in_ImageID = [],
          in_Replication =
            (if role = RoleSlave
             then nextReplication (last_of in_Replication previous m)
                    (withSourceLogEnd (ob_Replication (obs_of obs m)) obs now) (positions m) now
             else None),
          in_LastObservedTime = (if answered then Some now else last_of in_LastObservedTime previous m),
          in_UnfinishedDatabase =
            (if answered then ob_Unfinished (obs_of obs m) else last_of in_UnfinishedDatabase previous m)\<rparr>)"

definition instanceStatuses ::
  "string list \<Rightarrow> observations \<Rightarrow> time \<Rightarrow> InstanceStatus list \<Rightarrow> (string \<Rightarrow> applierReading option) \<Rightarrow>
     InstanceStatus list" where
  "instanceStatuses members obs now previous positions =
     map (instanceStatus obs now previous positions) (enumerate 0 members)"

subsection \<open>HAReady\<close>

definition reasonReplicasNotObserved :: string where
  "reasonReplicasNotObserved = ''ReplicasNotObserved''"

definition reasonHealthyReplication :: string where
  "reasonHealthyReplication = ''HealthyReplication''"

definition reasonRolesNotObserved :: string where
  "reasonRolesNotObserved = ''RolesNotObserved''"

definition replicationDecided :: "Condition option \<Rightarrow> bool" where
  "replicationDecided c0 \<longleftrightarrow>
     (case c0 of
        None \<Rightarrow> False
      | Some c \<Rightarrow>
          if co_Reason c = reasonHealthyReplication then co_Status c = ConditionTrue
          else if co_Reason c = reasonReplicationStalled \<or> co_Reason c = reasonApplyFailures \<or>
                  co_Reason c = reasonLogCopyStalled
          then co_Status c = ConditionFalse
          else False)"

definition younger_than_window :: "time option \<Rightarrow> time \<Rightarrow> bool" where
  "younger_than_window t0 now \<longleftrightarrow>
     (case t0 of None \<Rightarrow> False | Some t \<Rightarrow> \<not> sub now t \<ge> replicationStallWindow)"

definition unreadRecently :: "InstanceStatus list \<Rightarrow> observations \<Rightarrow> time \<Rightarrow> bool" where
  "unreadRecently instances obs now \<longleftrightarrow>
     (\<forall>i \<in> set instances.
        in_Role i \<noteq> RoleSlave \<or> ob_Replication (obs_of obs (in_Name i)) \<noteq> None \<or>
        (case in_Replication i of None \<Rightarrow> False | Some r \<Rightarrow> younger_than_window (ir_ObservedAt r) now))"

definition unobserved_members :: "PrimaryResolution \<Rightarrow> InstanceStatus list \<Rightarrow> InstanceStatus list" where
  "unobserved_members res instances =
     filter (\<lambda>i. \<not> (in_Name i = pr_CurrentPrimary res \<or> in_Role i = RoleSlave)) instances"

definition haReadyCondition ::
  "PrimaryResolution \<Rightarrow> InstanceStatus list \<Rightarrow> observations \<Rightarrow> Condition option \<Rightarrow> ConditionStatus \<Rightarrow> string \<Rightarrow> string \<Rightarrow>
     time \<Rightarrow> ConditionStatus \<times> string \<times> string" where
  "haReadyCondition res instances obs previous replStatus replReason replMessage now =
     (if pr_Status res \<noteq> ConditionTrue then (ConditionFalse, pr_Reason res, primaryResolvedMessage res)
      else let resolved = ''single primary resolved: '' @ pr_CurrentPrimary res;
               unobserved = unobserved_members res instances;
               recent = (\<forall>i \<in> set unobserved. younger_than_window (in_LastObservedTime i) now);
               hold = (replicationDecided previous \<and> recent \<and> unreadRecently instances obs now);
               held = (case previous of
                         Some c \<Rightarrow> (co_Status c, co_Reason c, co_Message c)
                       | None \<Rightarrow> (ConditionUnknown, [], []))
           in if replStatus = ConditionFalse
              then (replStatus, replReason, resolved @ ''; replication: '' @ replMessage)
              else if unobserved \<noteq> [] \<and> hold then held
              else if unobserved \<noteq> []
              then (ConditionUnknown, reasonReplicasNotObserved,
                    resolved @ ''; not observed as a slave: '' @ join '', '' (map in_Name unobserved))
              else if length instances \<le> 1 \<or> replStatus = ConditionTrue
              then (ConditionTrue, reasonHealthyReplication, resolved)
              else if hold then held
              else (replStatus, replReason, resolved @ ''; replication: '' @ replMessage))"

subsection \<open>The times that are put back\<close>

definition heldTime :: "time option \<Rightarrow> time option \<Rightarrow> time \<Rightarrow> time option" where
  "heldTime stored current now =
     (case (stored, current) of
        (Some s, Some c) \<Rightarrow>
          if c < s then current
          else let age = sub now s in if age < 0 \<or> age \<ge> observationWriteInterval then current else stored
      | _ \<Rightarrow> current)"

definition held_instance :: "InstanceStatus list \<Rightarrow> time \<Rightarrow> InstanceStatus \<Rightarrow> InstanceStatus" where
  "held_instance before now i =
     (case map_of (map (\<lambda>p. (in_Name p, p)) (rev before)) (in_Name i) of
        None \<Rightarrow> i
      | Some p \<Rightarrow>
          i\<lparr>in_LastObservedTime := heldTime (in_LastObservedTime p) (in_LastObservedTime i) now,
            in_Replication :=
              (case (in_Replication i, in_Replication p) of
                 (Some r, Some q) \<Rightarrow> Some (r\<lparr>ir_ObservedAt := heldTime (ir_ObservedAt q) (ir_ObservedAt r) now\<rparr>)
               | _ \<Rightarrow> in_Replication i)\<rparr>)"

definition held_status :: "CubridClusterStatus \<Rightarrow> CubridClusterStatus \<Rightarrow> time \<Rightarrow> CubridClusterStatus" where
  "held_status stored status now =
     status\<lparr>cs_LastObservedTime := heldTime (cs_LastObservedTime stored) (cs_LastObservedTime status) now,
            cs_Instances := map (held_instance (cs_Instances stored) now) (cs_Instances status)\<rparr>"

definition holdObservationTimes ::
  "(CubridClusterStatus \<Rightarrow> CubridClusterStatus \<Rightarrow> bool) \<Rightarrow> CubridClusterStatus option \<Rightarrow> CubridClusterStatus \<Rightarrow> time \<Rightarrow>
     CubridClusterStatus" where
  "holdObservationTimes semanticEqual stored0 status now =
     (case stored0 of
        None \<Rightarrow> status
      | Some stored \<Rightarrow>
          let held = held_status stored status now
          in if semanticEqual held stored then held else status)"

subsection \<open>One reconcile\<close>

record condition_api =
  ca_find :: "Condition list \<Rightarrow> string \<Rightarrow> Condition option"
  ca_set :: "Condition \<Rightarrow> Condition list \<Rightarrow> Condition list"
  ca_is_true :: "Condition list \<Rightarrow> string \<Rightarrow> bool"

definition setCondition ::
  "condition_api \<Rightarrow> int \<Rightarrow> string \<Rightarrow> ConditionStatus \<times> string \<times> string \<Rightarrow> CubridClusterStatus \<Rightarrow> CubridClusterStatus" where
  "setCondition api generation ty v st =
     (case v of (status, reason, msg) \<Rightarrow>
        st\<lparr>cs_Conditions := ca_set api
             \<lparr>co_Type = ty, co_Status = status, co_Reason = reason, co_Message = msg,
              co_ObservedGeneration = generation, co_LastTransitionTime = zero_time\<rparr> (cs_Conditions st)\<rparr>)"

definition markRolesNotObserved ::
  "condition_api \<Rightarrow> int \<Rightarrow> bool \<Rightarrow> bool \<Rightarrow> string \<Rightarrow> CubridClusterStatus \<Rightarrow> CubridClusterStatus" where
  "markRolesNotObserved api generation haEnabled hasProber why st =
     (if \<not> haEnabled \<or> \<not> hasProber then st
      else let st' = st\<lparr>cs_CurrentPrimary := [],
                        cs_Instances := map (\<lambda>i. i\<lparr>in_Role := RoleUnknown\<rparr>) (cs_Instances st)\<rparr>;
               msg = ''roles were not observed in this reconcile: '' @ why
           in fold (\<lambda>ty. setCondition api generation ty (ConditionUnknown, reasonRolesNotObserved, msg))
                [''PrimaryResolved'', ''HAReady'', ''RoutingReady'', ''ReplicationHealthy''] st')"

definition probe_all :: "string list \<Rightarrow> (string \<Rightarrow> RoleObservation) \<Rightarrow> observations" where
  "probe_all members probe m = (if m \<in> set members then Some (probe m) else None)"

definition reconcileHAStatus ::
  "condition_api \<Rightarrow> int \<Rightarrow> string \<Rightarrow> nat \<Rightarrow> (string \<Rightarrow> RoleObservation) \<Rightarrow> (string \<Rightarrow> applierReading option) \<Rightarrow> time \<Rightarrow>
     CubridClusterStatus \<Rightarrow> PrimaryResolution \<times> (string \<times> applierReading) list \<times> CubridClusterStatus" where
  "reconcileHAStatus api generation cluster count probe positions now st =
     (let members = memberNames cluster count;
          obs = probe_all members probe;
          res = resolvePrimary members obs now;
          instances = instanceStatuses members obs now (cs_Instances st) positions;
          keep = readingPositions members obs positions now;
          st1 = st\<lparr>cs_CurrentPrimary := pr_CurrentPrimary res, cs_Instances := instances,
                   cs_LastObservedTime := Some now\<rparr>;
          st2 = setCondition api generation ''PrimaryResolved''
                  (pr_Status res, pr_Reason res, primaryResolvedMessage res) st1;
          repl = replicationCondition instances obs now;
          st3 = setCondition api generation ''ReplicationHealthy'' repl st2;
          ha = haReadyCondition res instances obs (ca_find api (cs_Conditions st3) ''HAReady'')
                 (fst repl) (fst (snd repl)) (snd (snd repl)) now;
          st4 = setCondition api generation ''HAReady'' ha st3
      in (res, keep, st4))"

subsection \<open>What the status shows\<close>

lemma cs_setCondition [simp]:
  "cs_CurrentPrimary (setCondition api g ty v st) = cs_CurrentPrimary st"
  "cs_Instances (setCondition api g ty v st) = cs_Instances st"
  "cs_LastObservedTime (setCondition api g ty v st) = cs_LastObservedTime st"
  by (cases v; simp add: setCondition_def)+

lemma instanceStatus_role:
  "in_Name (instanceStatus obs now previous positions im) = snd im"
  "in_Role (instanceStatus obs now previous positions im) =
     (if observed obs now (snd im) then ob_Role (obs_of obs (snd im)) else RoleUnknown)"
  by (auto simp: instanceStatus_def Let_def observed_def obs_of_def split: option.splits)

lemma instanceStatus_answered:
  assumes "observed obs now (snd im)"
  shows "in_LastObservedTime (instanceStatus obs now previous positions im) = Some now"
  using assms authoritative_not_conflicting
  by (auto simp: instanceStatus_def Let_def observed_def split: option.splits)

lemma enumerate_filter_snd: "map snd (filter (\<lambda>im. P (snd im)) (enumerate n xs)) = filter P xs"
  by (induction xs arbitrary: n) auto

lemma instance_masters:
  "map in_Name (filter (\<lambda>i. in_Role i = RoleMaster) (instanceStatuses members obs now previous positions)) =
     filter (observed_master obs now) members"
proof -
  have "filter (\<lambda>im. in_Role (instanceStatus obs now previous positions im) = RoleMaster) (enumerate 0 members) =
      filter (\<lambda>im. observed_master obs now (snd im)) (enumerate 0 members)"
    by (rule filter_cong) (auto simp: instanceStatus_role observed_master_def)
  then show ?thesis
    by (simp add: instanceStatuses_def filter_map comp_def instanceStatus_role enumerate_filter_snd)
qed

lemma observed_role: "observed obs now m \<Longrightarrow> ob_Role (obs_of obs m) \<noteq> RoleUnknown"
  by (auto simp: observed_def obs_of_def authoritative_def split: option.splits if_splits)

text \<open>
  C9. A status that names a primary names the only master it shows. After a reconcile that set
  \<^verbatim>\<open>currentPrimary\<close>, the primary is the one member whose role in \<^verbatim>\<open>instances\<close> is master, no member's role is
  unknown, and every member answered in this very observation.
\<close>

theorem named_primary_is_the_only_master_shown:
  assumes "reconcileHAStatus api generation cluster count probe positions now st = (res, keep, st')"
    and "cs_CurrentPrimary st' \<noteq> []"
  shows "map in_Name (filter (\<lambda>i. in_Role i = RoleMaster) (cs_Instances st')) = [cs_CurrentPrimary st'] \<and>
    (\<forall>i \<in> set (cs_Instances st'). in_Role i \<noteq> RoleUnknown \<and> in_LastObservedTime i = Some now)"
proof -
  let ?ms = "memberNames cluster count"
  let ?obs = "probe_all ?ms probe"
  have res: "res = resolvePrimary ?ms ?obs now" and prim: "cs_CurrentPrimary st' = pr_CurrentPrimary res"
    and ins: "cs_Instances st' = instanceStatuses ?ms ?obs now (cs_Instances st) positions"
    using assms(1) by (auto simp: reconcileHAStatus_def Let_def)
  have "pr_Status res = ConditionTrue"
    using assms(2) prim res by (auto simp: resolvePrimary_spec resolve_reference_def Let_def split: if_splits)
  then have all: "\<forall>m \<in> set ?ms. observed ?obs now m"
    and one: "filter (observed_master ?obs now) ?ms = [pr_CurrentPrimary res]"
    using resolved_iff [of ?ms ?obs now] res by auto
  have "in_Role i \<noteq> RoleUnknown \<and> in_LastObservedTime i = Some now" if i: "i \<in> set (cs_Instances st')" for i
  proof -
    obtain im where im: "i = instanceStatus ?obs now (cs_Instances st) positions im" "im \<in> set (enumerate 0 ?ms)"
      using i unfolding ins instanceStatuses_def by auto
    then have "snd im \<in> set ?ms" by (metis enumerate_eq_zip prod.collapse set_zip_rightD)
    then have "observed ?obs now (snd im)" using all by blast
    then show ?thesis using im instanceStatus_role(2) instanceStatus_answered observed_role by metis
  qed
  then show ?thesis using instance_masters ins one prim by simp
qed

definition demo_api :: condition_api where
  "demo_api = \<lparr>ca_find = (\<lambda>cs ty. find (\<lambda>c. co_Type c = ty) cs),
     ca_set = (\<lambda>c cs. c # filter (\<lambda>d. co_Type d \<noteq> co_Type c) cs),
     ca_is_true = (\<lambda>cs ty. \<exists>c \<in> set cs. co_Type c = ty \<and> co_Status c = ConditionTrue)\<rparr>"

definition demo_status :: CubridClusterStatus where
  "demo_status = \<lparr>cs_ObservedGeneration = 1, cs_CurrentPrimary = [], cs_Instances = [], cs_Databases = [],
     cs_Conditions = [], cs_Bootstrap = None, cs_ObservedEngineVersion = [], cs_Update = None, cs_LastObservedTime = None\<rparr>"

definition demo_reconciled :: "PrimaryResolution \<times> (string \<times> applierReading) list \<times> CubridClusterStatus" where
  "demo_reconciled =
     reconcileHAStatus demo_api 1 ''c'' 3 (obs_of demo_observations) (\<lambda>_. None) 8 demo_status"

theorem named_primary_is_the_only_master_shown_witness:
  "map in_Name (filter (\<lambda>i. in_Role i = RoleMaster) (cs_Instances (snd (snd demo_reconciled)))) = [''c-1''] \<and>
   cs_CurrentPrimary (snd (snd demo_reconciled)) = ''c-1''"
proof -
  have p: "cs_CurrentPrimary (snd (snd demo_reconciled)) = ''c-1''" by code_simp
  have "reconcileHAStatus demo_api 1 ''c'' 3 (obs_of demo_observations) (\<lambda>_. None) 8 demo_status =
      (fst demo_reconciled, fst (snd demo_reconciled), snd (snd demo_reconciled))"
    by (simp add: demo_reconciled_def)
  from named_primary_is_the_only_master_shown [OF this] p show ?thesis by simp
qed

text \<open>
  C7. HAReady is never True without evidence. It is True only on a resolved primary and without a
  slave that is known not to replicate, and then either every other member is observed as a slave
  whose replication is healthy now (or the primary is the only member), or HAReady was True before
  and what is missing now was last seen less than the stall window ago.
\<close>

theorem HAReady_True_rests_on_recent_evidence:
  assumes "fst (haReadyCondition res instances obs previous replStatus replReason replMessage now) = ConditionTrue"
  shows "pr_Status res = ConditionTrue \<and> replStatus \<noteq> ConditionFalse \<and>
    ((\<forall>i \<in> set instances. in_Name i = pr_CurrentPrimary res \<or> in_Role i = RoleSlave) \<and>
       (length instances \<le> 1 \<or> replStatus = ConditionTrue) \<or>
     (\<exists>c. previous = Some c \<and> co_Status c = ConditionTrue \<and> co_Reason c = reasonHealthyReplication \<and>
       (\<forall>i \<in> set instances. in_Name i = pr_CurrentPrimary res \<or> in_Role i = RoleSlave \<or>
          (\<exists>t. in_LastObservedTime i = Some t \<and> now - t < replicationStallWindow)) \<and>
       (\<forall>i \<in> set instances. in_Role i = RoleSlave \<longrightarrow> ob_Replication (obs_of obs (in_Name i)) = None \<longrightarrow>
          (\<exists>r t. in_Replication i = Some r \<and> ir_ObservedAt r = Some t \<and> now - t < replicationStallWindow))))"
proof -
  have young: "younger_than_window t0 now \<longleftrightarrow> (\<exists>t. t0 = Some t \<and> now - t < replicationStallWindow)" for t0
    by (auto simp: younger_than_window_def go_simps window_defs split: option.splits)
  have held: "\<exists>c. previous = Some c \<and> co_Status c = ConditionTrue \<and> co_Reason c = reasonHealthyReplication"
    if "replicationDecided previous" "(case previous of Some c \<Rightarrow> co_Status c | None \<Rightarrow> ConditionUnknown) = ConditionTrue"
    using that by (auto simp: replicationDecided_def split: option.splits if_splits)
  have unread: "unreadRecently instances obs now \<Longrightarrow> i \<in> set instances \<Longrightarrow> in_Role i = RoleSlave \<Longrightarrow>
      ob_Replication (obs_of obs (in_Name i)) = None \<Longrightarrow>
      \<exists>r t. in_Replication i = Some r \<and> ir_ObservedAt r = Some t \<and> now - t < replicationStallWindow" for i
    by (auto simp: unreadRecently_def young split: option.splits)
  have fst_held: "fst (case previous of Some c \<Rightarrow> (co_Status c, co_Reason c, co_Message c) | None \<Rightarrow> (ConditionUnknown, [], [])) =
      (case previous of Some c \<Rightarrow> co_Status c | None \<Rightarrow> ConditionUnknown)"
    by (simp split: option.splits)
  consider (now) "unobserved_members res instances = []" "length instances \<le> 1 \<or> replStatus = ConditionTrue"
    | (before) "replicationDecided previous" "unreadRecently instances obs now"
        "\<forall>i \<in> set (unobserved_members res instances). younger_than_window (in_LastObservedTime i) now"
        "(case previous of Some c \<Rightarrow> co_Status c | None \<Rightarrow> ConditionUnknown) = ConditionTrue"
    using assms fst_held by (auto simp: haReadyCondition_def Let_def split: if_splits)
  moreover have "pr_Status res = ConditionTrue \<and> replStatus \<noteq> ConditionFalse"
    using assms by (auto simp: haReadyCondition_def Let_def split: if_splits)
  ultimately show ?thesis
  proof cases
    case now
    then have "\<forall>i \<in> set instances. in_Name i = pr_CurrentPrimary res \<or> in_Role i = RoleSlave"
      by (auto simp: unobserved_members_def filter_empty_conv)
    then show ?thesis using now \<open>pr_Status res = ConditionTrue \<and> replStatus \<noteq> ConditionFalse\<close> by blast
  next
    case before
    have "\<forall>i \<in> set instances. in_Name i = pr_CurrentPrimary res \<or> in_Role i = RoleSlave \<or>
        (\<exists>t. in_LastObservedTime i = Some t \<and> now - t < replicationStallWindow)"
      using before(3) by (auto simp: unobserved_members_def young)
    then show ?thesis using held [OF before(1,4)] unread [OF before(2)]
        \<open>pr_Status res = ConditionTrue \<and> replStatus \<noteq> ConditionFalse\<close> by blast
  qed
qed

definition demo_slave :: "string \<Rightarrow> CubridRole \<Rightarrow> time \<Rightarrow> InstanceStatus" where
  "demo_slave n r t = \<lparr>in_Name = n, in_Ordinal = 0, in_Role = r, in_Ready = True, in_ObservedEngineVersion = [],
     in_ImageID = [], in_Replication = None, in_LastObservedTime = Some t, in_UnfinishedDatabase = None\<rparr>"

theorem HAReady_True_rests_on_recent_evidence_witness:
  "fst (haReadyCondition (resolvePrimary (memberNames ''c'' 3) demo_observations 8)
      [demo_slave ''c-1'' RoleMaster 8, demo_slave ''c-0'' RoleUnknown 3] demo_observations
      (Some \<lparr>co_Type = ''HAReady'', co_Status = ConditionTrue, co_Reason = reasonHealthyReplication, co_Message = [],
        co_ObservedGeneration = 1, co_LastTransitionTime = 0\<rparr>) ConditionUnknown [] [] 8) = ConditionTrue \<and>
   pr_Status (resolvePrimary (memberNames ''c'' 3) demo_observations 8) = ConditionTrue"
proof -
  have "fst (haReadyCondition (resolvePrimary (memberNames ''c'' 3) demo_observations 8)
      [demo_slave ''c-1'' RoleMaster 8, demo_slave ''c-0'' RoleUnknown 3] demo_observations
      (Some \<lparr>co_Type = ''HAReady'', co_Status = ConditionTrue, co_Reason = reasonHealthyReplication, co_Message = [],
        co_ObservedGeneration = 1, co_LastTransitionTime = 0\<rparr>) ConditionUnknown [] [] 8) = ConditionTrue"
    by code_simp
  from HAReady_True_rests_on_recent_evidence [OF this] this show ?thesis by blast
qed

subsection \<open>Held times\<close>

definition erase_times :: "CubridClusterStatus \<Rightarrow> CubridClusterStatus" where
  "erase_times st =
     st\<lparr>cs_LastObservedTime := None,
        cs_Instances := map (\<lambda>i. i\<lparr>in_LastObservedTime := None,
          in_Replication := map_option (\<lambda>r. r\<lparr>ir_ObservedAt := None\<rparr>) (in_Replication i)\<rparr>) (cs_Instances st)\<rparr>"

definition held_from :: "time \<Rightarrow> time option \<Rightarrow> time option \<Rightarrow> bool" where
  "held_from now a b \<longleftrightarrow>
     a = b \<or> (\<exists>s c. a = Some s \<and> b = Some c \<and> s \<le> c \<and> s \<le> now \<and> now - s < observationWriteInterval)"

lemma heldTime_held: "held_from now (heldTime stored current now) current"
  by (auto simp: held_from_def heldTime_def Let_def go_simps window_defs split: option.splits if_splits)

text \<open>
  Holding the times changes nothing else: the status that \<^verbatim>\<open>holdObservationTimes\<close> leaves differs
  from the one it was given in observation times only, and each of those is the current one or a
  stored one that is not later and less than the write interval old. So the age of a written time
  never overstates how old the observation is by more than that interval, whatever the comparison
  of statuses answers.
\<close>

theorem holdObservationTimes_holds_times_only:
  "erase_times (holdObservationTimes semanticEqual stored status now) = erase_times status \<and>
   held_from now (cs_LastObservedTime (holdObservationTimes semanticEqual stored status now)) (cs_LastObservedTime status) \<and>
   list_all2 (\<lambda>i j. held_from now (in_LastObservedTime i) (in_LastObservedTime j) \<and>
       rel_option (\<lambda>r q. held_from now (ir_ObservedAt r) (ir_ObservedAt q)) (in_Replication i) (in_Replication j))
     (cs_Instances (holdObservationTimes semanticEqual stored status now)) (cs_Instances status)"
proof -
  have refl: "held_from now t t" for t by (simp add: held_from_def)
  have rrefl: "rel_option (\<lambda>r q. held_from now (ir_ObservedAt r) (ir_ObservedAt q)) x x" for x
    by (cases x) (auto simp: refl)
  have one: "held_from now (in_LastObservedTime (held_instance b now i)) (in_LastObservedTime i) \<and>
      rel_option (\<lambda>r q. held_from now (ir_ObservedAt r) (ir_ObservedAt q)) (in_Replication (held_instance b now i)) (in_Replication i) \<and>
      (held_instance b now i)\<lparr>in_LastObservedTime := None,
          in_Replication := map_option (\<lambda>r. r\<lparr>ir_ObservedAt := None\<rparr>) (in_Replication (held_instance b now i))\<rparr> =
      i\<lparr>in_LastObservedTime := None, in_Replication := map_option (\<lambda>r. r\<lparr>ir_ObservedAt := None\<rparr>) (in_Replication i)\<rparr>" for b i
    by (auto simp: held_instance_def heldTime_held refl rrefl split: option.splits)
  show ?thesis
    by (auto simp: holdObservationTimes_def Let_def erase_times_def held_status_def heldTime_held refl rrefl one
        list_all2_map1 list_all2_same comp_def split: option.splits)
qed

end
