(* ===== verification/Engine.thy ===== *)
theory Engine
  imports Prelude
begin

section \<open>Engine versions\<close>

text \<open>
  \<^verbatim>\<open>EngineSeries\<close> of \<^verbatim>\<open>internal/instancemanager/cli.go\<close>, by which versions are compared: the operator for
  updates, the Instance Manager for backups and restores.
\<close>

definition isDecimal :: "string \<Rightarrow> bool" where
  "isDecimal s \<longleftrightarrow> s \<noteq> [] \<and> (\<forall>c \<in> set s. is_digit c)"

definition EngineSeries :: "string \<Rightarrow> string" where
  "EngineSeries v =
     (case splitN (CHR ''.'') 3 (trim_space v) of
        a # b # _ \<Rightarrow> if isDecimal a \<and> isDecimal b then a @ ''.'' @ b else []
      | _ \<Rightarrow> [])"

text \<open>A series is the series of itself, so that one named in a spec compares equal with itself.\<close>

lemma EngineSeries_idem: "EngineSeries (EngineSeries v) = EngineSeries v"
proof (cases "EngineSeries v = []")
  case True
  then show ?thesis unfolding True by (simp add: EngineSeries_def trim_space_def numeral_3_eq_3)
next
  case False
  then obtain a b where ab: "EngineSeries v = a @ ''.'' @ b" "isDecimal a" "isDecimal b"
    by (auto simp: EngineSeries_def split: list.splits if_splits)
  have nodot: "\<not> is_digit (CHR ''.'')" by (simp add: is_digit_def)
  have ns: "\<not> is_space (hd (a @ ''.'' @ b))" "\<not> is_space (last (a @ ''.'' @ b))"
    using ab(2,3) by (auto simp: isDecimal_def digit_not_space hd_append)
  have trim: "trim_space (a @ ''.'' @ b) = a @ ''.'' @ b" using ns by (intro trim_space_id) auto
  have da: "CHR ''.'' \<notin> set a" "CHR ''.'' \<notin> set b" using ab(2,3) nodot by (auto simp: isDecimal_def)
  then have "splitN (CHR ''.'') 3 (a @ ''.'' @ b) = [a, b]" by (simp add: numeral_3_eq_3)
  then show ?thesis unfolding ab(1) using ab(2,3) trim by (simp add: EngineSeries_def)
qed

lemma EngineSeries_nil [simp]: "EngineSeries [] = []"
  by (simp add: EngineSeries_def trim_space_def numeral_3_eq_3)

end
