(* ===== verification/RollingUpdate.thy ===== *)
theory RollingUpdate
  imports HAStatus Engine
begin

section \<open>Updates\<close>

text \<open>
  \<^verbatim>\<open>internal/controller/rollingplan.go\<close> and \<^verbatim>\<open>update.go\<close>: the guard that lets no update proceed unless every member shows
  the engine series the spec asks for, the planner that lets at most one outdated slave be deleted,
  and the reconcile steps that carry the plan out. What the API server answers for a Pod, what a
  deletion answers and the functions on the list of conditions are arguments; the calls that change
  the cluster are returned as a list of effects in the order they are made.
\<close>

subsection \<open>Engine changes\<close>

datatype UpdateClass = UpdateNone | UpdateEngineUpgradeBlocked | UpdateUnverifiable

definition classifyEngineChange :: "string \<Rightarrow> string \<Rightarrow> UpdateClass" where
  "classifyEngineChange desired seen =
     (let want = EngineSeries desired
      in if want = [] then UpdateUnverifiable
         else if seen = [] then UpdateNone
         else let got = EngineSeries seen
              in if got = [] then UpdateUnverifiable
                 else if want \<noteq> got then UpdateEngineUpgradeBlocked else UpdateNone)"

subsection \<open>The planner\<close>

record updateMember =
  um_Name :: string
  um_Role :: CubridRole
  um_Ready :: bool
  um_Outdated :: bool
  um_Converged :: bool

datatype RollingAction = RollNone | RollDeletePod | RollWait | RollMasterUpdatePending

record RollingPlan =
  rp_Action :: RollingAction
  rp_Target :: string
  rp_Reason :: string

definition plan :: "RollingAction \<Rightarrow> string \<Rightarrow> RollingPlan" where
  "plan a reason = \<lparr>rp_Action = a, rp_Target = [], rp_Reason = reason\<rparr>"

definition planRollingUpdate ::
  "updateMember list \<Rightarrow> bool \<Rightarrow> bool \<Rightarrow> bool \<Rightarrow> int \<Rightarrow> RollingPlan" where
  "planRollingUpdate members primaryResolved fencingRequired pdbAllowsDisruption minHealthy =
     (let outdated = length (filter um_Outdated members);
          outdatedSlaves = filter (\<lambda>m. um_Outdated m \<and> um_Role m = RoleSlave) members;
          outdatedMaster = (\<exists>m \<in> set members. um_Outdated m \<and> um_Role m = RoleMaster);
          healthy = int (length (filter um_Ready members));
          anyNotReady = (\<exists>m \<in> set members. \<not> um_Ready m)
      in if outdated = 0 then plan RollNone ''UpdateCompleted''
         else if \<not> primaryResolved then plan RollWait ''WaitingForPrimaryResolved''
         else if fencingRequired then plan RollWait ''UpdatePausedFencingRequired''
         else if anyNotReady then plan RollWait ''WaitingForHealthyCluster''
         else if \<not> pdbAllowsDisruption then plan RollWait ''WaitingForPDB''
         else case outdatedSlaves of
                s # _ \<Rightarrow>
                  if \<not> um_Converged s then plan RollWait ''WaitingForCatchUp''
                  else if healthy - 1 < minHealthy then plan RollWait ''WaitingForHealthyCluster''
                  else \<lparr>rp_Action = RollDeletePod, rp_Target = um_Name s, rp_Reason = ''RollingUpdateInProgress''\<rparr>
              | [] \<Rightarrow>
                  if outdatedMaster then plan RollMasterUpdatePending ''MasterUpdatePending''
                  else plan RollWait ''WaitingForPrimaryResolved'')"

subsection \<open>The engine guard\<close>

definition agreedEngineVersion :: "InstanceStatus list \<Rightarrow> int \<Rightarrow> string option" where
  "agreedEngineVersion instances expected =
     (if expected \<le> 0 \<or> int (length instances) < expected then None
      else case map in_ObservedEngineVersion instances of
             [] \<Rightarrow> Some []
           | v # vs \<Rightarrow> if v = [] \<or> (\<exists>w \<in> set vs. w = [] \<or> w \<noteq> v) then None else Some v)"

fun membersMatchBaseline ::
  "string \<Rightarrow> string \<Rightarrow> int \<Rightarrow> int \<Rightarrow> InstanceStatus list \<Rightarrow> (string \<times> string) option" where
  "membersMatchBaseline baseline series expected reported [] =
     (if reported < expected
      then Some (''UpdateBlockedEngineVersionUnknown'',
                 itoa reported @ '' of '' @ itoa expected @ '' members have reported an engine version'')
      else None)"
| "membersMatchBaseline baseline series expected reported (i # is) =
     (if in_ObservedEngineVersion i = []
      then Some (''UpdateBlockedEngineVersionUnknown'',
                 ''member '' @ in_Name i @ '' has not reported its engine version in a fresh observation'')
      else if EngineSeries (in_ObservedEngineVersion i) \<noteq> series
      then Some (''UpdateBlockedMixedEngineVersions'',
                 ''member '' @ in_Name i @ '' runs engine '' @ in_ObservedEngineVersion i @ '', the cluster'' @ apostrophe_s @
                 '' baseline is '' @ baseline)
      else membersMatchBaseline baseline series expected (reported + 1) is)"

definition updating :: "condition_api \<Rightarrow> int \<Rightarrow> ConditionStatus \<Rightarrow> string \<Rightarrow> string \<Rightarrow> CubridClusterStatus \<Rightarrow> CubridClusterStatus" where
  "updating api generation status reason msg st = setCondition api generation ''Updating'' (status, reason, msg) st"

text \<open>The result is whether the update may proceed, and the new status.\<close>

definition reconcileUpdateGuard ::
  "condition_api \<Rightarrow> int \<Rightarrow> string \<Rightarrow> int \<Rightarrow> CubridClusterStatus \<Rightarrow> bool \<times> CubridClusterStatus" where
  "reconcileUpdateGuard api generation specVersion expected st0 =
     (let baseline =
            (if cs_ObservedEngineVersion st0 = []
             then agreedEngineVersion (cs_Instances st0) expected
             else Some (cs_ObservedEngineVersion st0))
      in case baseline of
           None \<Rightarrow>
             (False, updating api generation ConditionFalse ''UpdateBlockedEngineVersionNotObserved''
                ''not every member has reported the same engine version yet; no update is carried out'' st0)
         | Some seen \<Rightarrow>
             let st = st0\<lparr>cs_ObservedEngineVersion := seen\<rparr>
             in case membersMatchBaseline seen (EngineSeries seen) expected 0 (cs_Instances st) of
                  Some (reason, msg) \<Rightarrow>
                    (False, updating api generation ConditionFalse reason (msg @ '' (no pod deletion)'') st)
                | None \<Rightarrow>
                    (case classifyEngineChange specVersion seen of
                       UpdateEngineUpgradeBlocked \<Rightarrow>
                         (False, updating api generation ConditionFalse ''UpdateBlockedEngineUpgrade''
                            (''desired engine version '' @ specVersion @ '' differs from observed '' @ seen @
                             ''; engine upgrades are out of MVP scope (no pod deletion)'') st)
                     | UpdateUnverifiable \<Rightarrow>
                         (False, updating api generation ConditionFalse ''UpdateBlockedUnverifiableEngineVersion''
                            ''desired engine version is missing or unverifiable (no pod deletion)'' st)
                     | UpdateNone \<Rightarrow> (True, st)))"

subsection \<open>Carrying the plan out\<close>

text \<open>What \<^verbatim>\<open>r.Get\<close> of a Pod answers: the Pod's revision label (empty when it has none) and whether its
  Ready condition is True, that the Pod does not exist, or another error.\<close>

datatype pod_answer = PodFound string bool | PodNotFound | PodError string

datatype delete_answer = DeleteDone | DeleteNotFound | DeleteError string

datatype effect = DeletePod string | NormalEvent string string

definition minHealthyHA :: int where
  "minHealthyHA = 2"

fun buildUpdateMembers ::
  "(string \<Rightarrow> pod_answer) \<Rightarrow> InstanceStatus list \<Rightarrow> string \<Rightarrow> string list \<Rightarrow> string + updateMember list" where
  "buildUpdateMembers getPod instances desiredRev [] = Inr []"
| "buildUpdateMembers getPod instances desiredRev (name # names) =
     (case getPod name of
        PodError e \<Rightarrow> Inl e
      | PodNotFound \<Rightarrow>
          (case buildUpdateMembers getPod instances desiredRev names of
             Inl e \<Rightarrow> Inl e
           | Inr ms \<Rightarrow> Inr (\<lparr>um_Name = name, um_Role = RoleOther [], um_Ready = False, um_Outdated = False,
                             um_Converged = False\<rparr> # ms))
      | PodFound label ready \<Rightarrow>
          (case buildUpdateMembers getPod instances desiredRev names of
             Inl e \<Rightarrow> Inl e
           | Inr ms \<Rightarrow>
               let (role, rdy) = (case map_of (map (\<lambda>i. (in_Name i, i)) (rev instances)) name of
                                    Some i \<Rightarrow> (in_Role i, in_Ready i)
                                  | None \<Rightarrow> (RoleOther [], False))
               in Inr (\<lparr>um_Name = name, um_Role = role, um_Ready = rdy, um_Outdated = (label \<noteq> desiredRev),
                        um_Converged = rdy\<rparr> # ms)))"

definition reconcileRollingUpdate ::
  "condition_api \<Rightarrow> int \<Rightarrow> bool \<Rightarrow> (string \<Rightarrow> pod_answer) \<Rightarrow> (string \<Rightarrow> delete_answer) \<Rightarrow> string \<Rightarrow> nat \<Rightarrow> string \<Rightarrow> string \<Rightarrow>
     PrimaryResolution \<Rightarrow> CubridClusterStatus \<Rightarrow> effect list \<times> CubridClusterStatus" where
  "reconcileRollingUpdate api generation automaticReplacement getPod deletePod cluster count updateRevision
       currentRevision res st0 =
     (if updateRevision = [] then ([], st0)
      else let st = st0\<lparr>cs_Update := Some \<lparr>us_DesiredRevision = updateRevision, us_CurrentRevision = currentRevision,
                          us_EngineVersion = cs_ObservedEngineVersion st0\<rparr>\<rparr>
           in case buildUpdateMembers getPod (cs_Instances st) updateRevision (memberNames cluster count) of
                Inl e \<Rightarrow> ([], updating api generation ConditionUnknown ''UpdateStateUnavailable'' e st)
              | Inr members \<Rightarrow>
                  let fencing = ca_is_true api (cs_Conditions st) ''FencingRequired'';
                      p = planRollingUpdate members (pr_Status res = ConditionTrue) fencing True minHealthyHA
                  in case rp_Action p of
                       RollDeletePod \<Rightarrow>
                         if \<not> automaticReplacement
                         then ([], updating api generation ConditionFalse ''AutomaticReplacementDisabled''
                                (''member '' @ rp_Target p @ '' runs an outdated revision; the operator does not replace Pods by itself yet (#96), '' @
                                 ''so the change takes effect when a Pod is replaced by hand'') st)
                         else (case deletePod (rp_Target p) of
                                 DeleteError e \<Rightarrow>
                                   ([DeletePod (rp_Target p)],
                                    updating api generation ConditionTrue ''MemberUpdateInProgress''
                                      (''failed to delete '' @ rp_Target p @ '': '' @ e) st)
                               | _ \<Rightarrow>
                                   ([DeletePod (rp_Target p),
                                     NormalEvent ''RollingUpdate'' (''deleted outdated slave '' @ rp_Target p)],
                                    updating api generation ConditionTrue (rp_Reason p)
                                      (''replacing outdated slave '' @ rp_Target p) st))
                     | RollMasterUpdatePending \<Rightarrow>
                         ([], updating api generation ConditionFalse ''MasterUpdatePending''
                            ''only the master is outdated; a master update requires explicit planned-failover intent (ADR-0009)'' st)
                     | RollWait \<Rightarrow>
                         ([], updating api generation ConditionTrue (rp_Reason p) (''rolling update waiting: '' @ rp_Reason p) st)
                     | RollNone \<Rightarrow>
                         ([], updating api generation ConditionFalse ''UpToDate'' ''all members run the desired revision'' st))"

subsection \<open>A standalone cluster\<close>

definition reconcileStandaloneStatus ::
  "(string \<Rightarrow> RoleObservation) \<Rightarrow> (string \<Rightarrow> pod_answer) \<Rightarrow> string \<Rightarrow> nat \<Rightarrow> time \<Rightarrow> CubridClusterStatus \<Rightarrow>
     string list \<times> CubridClusterStatus" where
  "reconcileStandaloneStatus probe getPod cluster count now st =
     (let members = memberNames cluster count;
          obs = probe_all members probe;
          refused = filter (\<lambda>m. ob_TokenRefused (probe m)) members;
          instances = instanceStatuses members obs now (cs_Instances st) (\<lambda>_. None)
      in (refused,
          st\<lparr>cs_Instances := map (\<lambda>i. i\<lparr>in_Role := RoleUnknown,
               in_Ready := (case getPod (in_Name i) of PodFound _ ready \<Rightarrow> ready | _ \<Rightarrow> False),
               in_Replication := None\<rparr>) instances\<rparr>))"

definition reportStandaloneRevision ::
  "condition_api \<Rightarrow> int \<Rightarrow> (string \<Rightarrow> pod_answer) \<Rightarrow> string \<Rightarrow> string \<Rightarrow> string \<Rightarrow> CubridClusterStatus \<Rightarrow> CubridClusterStatus" where
  "reportStandaloneRevision api generation getPod cluster updateRevision currentRevision st0 =
     (let st = (if updateRevision \<noteq> []
                then st0\<lparr>cs_Update := Some \<lparr>us_DesiredRevision = updateRevision, us_CurrentRevision = currentRevision,
                          us_EngineVersion = cs_ObservedEngineVersion st0\<rparr>\<rparr>
                else st0);
          name = cluster @ ''-0''
      in case getPod name of
           PodFound label _ \<Rightarrow>
             if updateRevision = []
             then updating api generation ConditionUnknown ''UpdateStateUnavailable''
                    (''the revision that member '' @ name @ '' runs is not known'') st
             else if label \<noteq> updateRevision
             then updating api generation ConditionFalse ''AutomaticReplacementDisabled''
                    (''member '' @ name @ '' runs an outdated revision; the operator does not replace the Pod of a standalone cluster, '' @
                     ''so the change takes effect when the Pod is replaced by hand'') st
             else updating api generation ConditionFalse ''UpToDate'' ''all members run the desired revision'' st
         | _ \<Rightarrow> updating api generation ConditionUnknown ''UpdateStateUnavailable''
                 (''the revision that member '' @ name @ '' runs is not known'') st)"

text \<open>\<^verbatim>\<open>FindStatusCondition\<close> returns a pointer into the list: the message of the condition it finds, the
  first of its type, is changed in place.\<close>

fun append_message :: "string \<Rightarrow> string \<Rightarrow> Condition list \<Rightarrow> Condition list" where
  "append_message ty extra [] = []"
| "append_message ty extra (c # cs) =
     (if co_Type c = ty then c\<lparr>co_Message := co_Message c @ extra\<rparr> # cs else c # append_message ty extra cs)"

definition reconcileStandaloneUpdate ::
  "condition_api \<Rightarrow> int \<Rightarrow> (string \<Rightarrow> RoleObservation) \<Rightarrow> (string \<Rightarrow> pod_answer) \<Rightarrow> string \<Rightarrow> nat \<Rightarrow> string \<Rightarrow> int \<Rightarrow> bool \<Rightarrow>
     string \<Rightarrow> string \<Rightarrow> time \<Rightarrow> CubridClusterStatus \<Rightarrow> CubridClusterStatus" where
  "reconcileStandaloneUpdate api generation probe getPod cluster count specVersion expected recovering
       updateRevision currentRevision now st0 =
     (case reconcileStandaloneStatus probe getPod cluster count now st0 of
        (refused, st1) \<Rightarrow>
          (case reconcileUpdateGuard api generation specVersion expected st1 of
             (True, st2) \<Rightarrow>
               if \<not> recovering
               then reportStandaloneRevision api generation getPod cluster updateRevision currentRevision st2
               else st2
           | (False, st2) \<Rightarrow>
               if refused \<noteq> [] \<and> ca_find api (cs_Conditions st2) ''Updating'' \<noteq> None
               then st2\<lparr>cs_Conditions := append_message ''Updating''
                      (''; the Instance Manager of '' @ join '', '' refused @ '' refused the cluster'' @ apostrophe_s @ '' token'')
                      (cs_Conditions st2)\<rparr>
               else st2))"

definition standaloneVersionPending :: "bool \<Rightarrow> bool \<Rightarrow> bool \<Rightarrow> CubridClusterStatus \<Rightarrow> bool" where
  "standaloneVersionPending haEnabled hasProber recovering st \<longleftrightarrow>
     (if haEnabled \<or> \<not> hasProber \<or> recovering then False
      else (\<exists>i \<in> set (cs_Instances st). in_ObservedEngineVersion i = []) \<or> cs_Instances st = [])"

subsection \<open>Engine versions\<close>

lemma membersMatchBaseline_None:
  "membersMatchBaseline b series expected n is = None \<longleftrightarrow>
     (\<forall>i \<in> set is. in_ObservedEngineVersion i \<noteq> [] \<and> EngineSeries (in_ObservedEngineVersion i) = series) \<and>
     expected \<le> n + int (length is)"
  by (induction "is" arbitrary: n) auto

lemma classify_None:
  "seen \<noteq> [] \<Longrightarrow> classifyEngineChange desired seen = UpdateNone \<longleftrightarrow>
     EngineSeries desired \<noteq> [] \<and> EngineSeries seen = EngineSeries desired"
  by (auto simp: classifyEngineChange_def Let_def)

lemma agreed_some: "agreedEngineVersion is expected = Some v \<Longrightarrow> v \<noteq> []"
  by (auto simp: agreedEngineVersion_def split: if_splits list.splits)

lemma cs_updating [simp]:
  "cs_ObservedEngineVersion (updating api g s r m st) = cs_ObservedEngineVersion st"
  "cs_Instances (updating api g s r m st) = cs_Instances st"
  by (auto simp: updating_def setCondition_def)


definition demo_member :: "string \<Rightarrow> CubridRole \<Rightarrow> string \<Rightarrow> InstanceStatus" where
  "demo_member n r v = (demo_slave n r 0)\<lparr>in_ObservedEngineVersion := v\<rparr>"

definition demo_update_status :: CubridClusterStatus where
  "demo_update_status = demo_status\<lparr>cs_ObservedEngineVersion := ''11.4.6.1963'',
     cs_Instances := [demo_member ''c-0'' RoleMaster ''11.4.6.1963'', demo_member ''c-1'' RoleSlave ''11.4.7.1'',
       demo_member ''c-2'' RoleSlave ''11.4.6.1963'']\<rparr>"


subsection \<open>The planner deletes no member it must not\<close>

lemma plan_delete_iff:
  "rp_Action (planRollingUpdate ms resolved fencing pdb minHealthy) = RollDeletePod \<longleftrightarrow>
     resolved \<and> \<not> fencing \<and> pdb \<and> (\<forall>m \<in> set ms. um_Ready m) \<and>
     (\<exists>s rest. filter (\<lambda>m. um_Outdated m \<and> um_Role m = RoleSlave) ms = s # rest \<and> um_Converged s) \<and>
     minHealthy \<le> int (length ms) - 1"
proof -
  have "filter um_Ready ms = ms" if "\<forall>m \<in> set ms. um_Ready m" using that by (rule filter_True)
  moreover have "filter um_Outdated ms \<noteq> []" if "filter (\<lambda>m. um_Outdated m \<and> um_Role m = RoleSlave) ms \<noteq> []"
    using that by (auto simp: filter_empty_conv)
  ultimately show ?thesis
    by (auto simp: planRollingUpdate_def plan_def Let_def split: list.splits if_splits)
qed

lemma plan_target:
  assumes "rp_Action (planRollingUpdate ms resolved fencing pdb minHealthy) = RollDeletePod"
  shows "\<exists>s rest. filter (\<lambda>m. um_Outdated m \<and> um_Role m = RoleSlave) ms = s # rest \<and>
    rp_Target (planRollingUpdate ms resolved fencing pdb minHealthy) = um_Name s"
  using assms by (auto simp: planRollingUpdate_def plan_def Let_def split: list.splits if_splits)

text \<open>
  The planner asks for a deletion exactly when the primary is resolved, nothing is fenced, every
  member is ready, the first outdated slave has caught up and enough members stay healthy without it;
  the target is then that slave. In particular an update never waits for ever on a healthy cluster
  with an outdated slave, and an outdated master is never the target.
\<close>

theorem planner_deletes_the_first_outdated_slave_iff_safe:
  "rp_Action (planRollingUpdate ms resolved fencing pdb minHealthy) = RollDeletePod \<and>
   rp_Target (planRollingUpdate ms resolved fencing pdb minHealthy) = t \<longleftrightarrow>
     resolved \<and> \<not> fencing \<and> pdb \<and> list_all um_Ready ms \<and>
     (\<exists>s rest. filter (\<lambda>m. um_Outdated m \<and> um_Role m = RoleSlave) ms = s # rest \<and> um_Converged s \<and> t = um_Name s) \<and>
     minHealthy \<le> int (length ms) - 1"
  using plan_delete_iff [of ms resolved fencing pdb minHealthy] plan_target [of ms resolved fencing pdb minHealthy]
  by (fastforce simp: list_all_iff)

lemma built_member:
  assumes "buildUpdateMembers getPod instances rv names = Inr ms" "m \<in> set ms" "um_Outdated m"
  shows "um_Name m \<in> set names \<and> (\<exists>label ready. getPod (um_Name m) = PodFound label ready \<and> label \<noteq> rv) \<and>
    (um_Ready m \<longrightarrow> (\<exists>i \<in> set instances. in_Name i = um_Name m \<and> in_Role i = um_Role m \<and> in_Ready i))"
  using assms
proof (induction names arbitrary: ms)
  case Nil
  then show ?case by simp
next
  case (Cons n names)
  obtain ms' where ms': "buildUpdateMembers getPod instances rv names = Inr ms'"
    using Cons.prems(1) by (cases "buildUpdateMembers getPod instances rv names") (auto split: pod_answer.splits)
  show ?case
  proof (cases "m \<in> set ms'")
    case True
    then show ?thesis using Cons.IH [OF ms' True Cons.prems(3)] by auto
  next
    case False
    then show ?thesis
      using Cons.prems ms'
      by (auto split: pod_answer.splits option.splits prod.splits dest!: map_of_SomeD)
  qed
qed

lemma built_ready:
  assumes "buildUpdateMembers getPod instances rv names = Inr ms" "\<forall>m \<in> set ms. um_Ready m" "n \<in> set names"
  shows "\<exists>i \<in> set instances. in_Name i = n \<and> in_Ready i"
  using assms
proof (induction names arbitrary: ms)
  case Nil
  then show ?case by simp
next
  case (Cons x names)
  obtain ms' where ms': "buildUpdateMembers getPod instances rv names = Inr ms'"
    using Cons.prems(1) by (cases "buildUpdateMembers getPod instances rv names") (auto split: pod_answer.splits)
  obtain m where m: "ms = m # ms'" using Cons.prems(1) ms' by (auto split: pod_answer.splits prod.splits option.splits)
  show ?case
  proof (cases "n = x")
    case True
    then show ?thesis
      using Cons.prems(1,2) ms'
      by (auto split: pod_answer.splits option.splits prod.splits dest!: map_of_SomeD)
  next
    case False
    then show ?thesis using Cons.IH [OF ms'] Cons.prems(2,3) m by auto
  qed
qed

lemma built_length:
  "buildUpdateMembers getPod instances rv names = Inr ms \<Longrightarrow> length ms = length names"
  by (induction names arbitrary: ms) (auto split: pod_answer.splits sum.splits prod.splits option.splits)

text \<open>
  C11. A reconcile deletes at most one Pod, and only one that is safe to lose: automatic replacement
  is on, the primary is resolved and nothing is fenced, the Pod exists with an outdated revision and
  belongs to a member that the status shows as a ready slave, every member of the cluster is shown
  ready, and at least two others remain. The master's Pod is never deleted.
\<close>

theorem rolling_update_deletes_only_a_safe_slave:
  assumes "reconcileRollingUpdate api generation automatic getPod deletePod cluster count updateRevision
      currentRevision res st = (effects, st')"
    and "DeletePod t \<in> set effects"
  shows "filter (\<lambda>e. \<exists>n. e = DeletePod n) effects = [DeletePod t] \<and> automatic \<and>
    pr_Status res = ConditionTrue \<and> \<not> ca_is_true api (cs_Conditions st) ''FencingRequired'' \<and>
    t \<in> set (memberNames cluster count) \<and>
    (\<exists>label ready. getPod t = PodFound label ready \<and> label \<noteq> updateRevision) \<and>
    (\<exists>i \<in> set (cs_Instances st). in_Name i = t \<and> in_Role i = RoleSlave \<and> in_Ready i) \<and>
    (\<forall>n \<in> set (memberNames cluster count). \<exists>i \<in> set (cs_Instances st). in_Name i = n \<and> in_Ready i) \<and>
    count \<ge> 3"
proof -
  have rev: "updateRevision \<noteq> []" using assms by (auto simp: reconcileRollingUpdate_def)
  obtain ms where ms: "buildUpdateMembers getPod (cs_Instances st) updateRevision (memberNames cluster count) = Inr ms"
    using assms rev by (auto simp: reconcileRollingUpdate_def Let_def split: sum.splits)
  let ?p = "planRollingUpdate ms (pr_Status res = ConditionTrue)
      (ca_is_true api (cs_Conditions st) ''FencingRequired'') True minHealthyHA"
  have del: "rp_Action ?p = RollDeletePod" "automatic" "rp_Target ?p = t"
    and one: "filter (\<lambda>e. \<exists>n. e = DeletePod n) effects = [DeletePod t]"
    using assms rev ms
    by (auto simp: reconcileRollingUpdate_def Let_def split: RollingAction.splits if_splits delete_answer.splits)
  have safe: "pr_Status res = ConditionTrue" "\<not> ca_is_true api (cs_Conditions st) ''FencingRequired''"
    "\<forall>m \<in> set ms. um_Ready m" "minHealthyHA \<le> int (length ms) - 1"
    using del(1) plan_delete_iff [of ms] by auto
  obtain s rest where s: "filter (\<lambda>m. um_Outdated m \<and> um_Role m = RoleSlave) ms = s # rest" "um_Name s = t"
    using plan_target [OF del(1)] del(3) by auto
  then have "s \<in> set (filter (\<lambda>m. um_Outdated m \<and> um_Role m = RoleSlave) ms)" by simp
  then have sm: "s \<in> set ms" "um_Outdated s" "um_Role s = RoleSlave" by auto
  have "count \<ge> 3" using safe(4) built_length [OF ms] by (simp add: minHealthyHA_def memberNames_def)
  then show ?thesis
    using one del safe(1,2) built_member [OF ms sm(1,2)] sm(3) s(2) safe(3) sm(1) built_ready [OF ms safe(3)] by auto
qed

definition demo_pods :: "string \<Rightarrow> pod_answer" where
  "demo_pods n = PodFound (if n = ''c-2'' then ''old'' else ''new'') True"

theorem rolling_update_deletes_only_a_safe_slave_witness:
  "DeletePod ''c-2'' \<in> set (fst (reconcileRollingUpdate demo_api 1 True demo_pods (\<lambda>_. DeleteDone) ''c'' 3 ''new'' ''old''
      (resolvePrimary (memberNames ''c'' 3) demo_observations 8) demo_update_status)) \<and>
   (\<exists>i \<in> set (cs_Instances demo_update_status). in_Name i = ''c-2'' \<and> in_Role i = RoleSlave \<and> in_Ready i)"
proof -
  let ?r = "reconcileRollingUpdate demo_api 1 True demo_pods (\<lambda>_. DeleteDone) ''c'' 3 ''new'' ''old''
      (resolvePrimary (memberNames ''c'' 3) demo_observations 8) demo_update_status"
  have d: "DeletePod ''c-2'' \<in> set (fst ?r)" by code_simp
  have "?r = (fst ?r, snd ?r)" by simp
  from rolling_update_deletes_only_a_safe_slave [OF this d] d show ?thesis by blast
qed

text \<open>
  C13. A member whose Pod is missing does not make the planner wait when no other member is outdated: the
  update is then planned as complete, and the condition says that all members run the desired
  revision, although the replaced Pod is not there yet.
\<close>

theorem missing_member_is_planned_as_up_to_date:
  assumes "buildUpdateMembers getPod instances rv names = Inr ms" "n \<in> set names" "getPod n = PodNotFound"
    and "\<forall>m \<in> set names. m \<noteq> n \<longrightarrow> (\<exists>ready. getPod m = PodFound rv ready)"
  shows "(\<exists>m \<in> set ms. um_Name m = n \<and> \<not> um_Ready m) \<and>
    planRollingUpdate ms resolved fencing pdb k = plan RollNone ''UpdateCompleted''"
proof -
  have "\<not> um_Outdated m" if "m \<in> set ms" for m
    using built_member [OF assms(1) that] assms(3,4) by (metis pod_answer.distinct(1) pod_answer.inject(1))
  then have "planRollingUpdate ms resolved fencing pdb k = plan RollNone ''UpdateCompleted''"
    by (simp add: planRollingUpdate_def filter_empty_conv)
  moreover have "\<exists>m \<in> set ms. um_Name m = n \<and> \<not> um_Ready m"
    using assms(1,2,3)
    by (induction names arbitrary: ms) (auto split: pod_answer.splits sum.splits prod.splits option.splits)
  ultimately show ?thesis by blast
qed

theorem missing_member_is_planned_as_up_to_date_witness:
  "planRollingUpdate
     (case buildUpdateMembers (\<lambda>m. if m = ''c-1'' then PodNotFound else PodFound ''new'' True) [] ''new'' [''c-0'', ''c-1''] of
        Inr ms \<Rightarrow> ms | Inl _ \<Rightarrow> []) True False True 2 = plan RollNone ''UpdateCompleted''"
proof -
  let ?pods = "\<lambda>m. if m = ''c-1'' then PodNotFound else PodFound ''new'' True"
  obtain ms where ms: "buildUpdateMembers ?pods [] ''new'' [''c-0'', ''c-1''] = Inr ms" by simp
  have "\<forall>m \<in> set [''c-0'', ''c-1'']. m \<noteq> ''c-1'' \<longrightarrow> (\<exists>ready. ?pods m = PodFound ''new'' ready)" by auto
  from missing_member_is_planned_as_up_to_date [OF ms _ _ this, of True False True 2]
  have "planRollingUpdate ms True False True 2 = plan RollNone ''UpdateCompleted''" by simp
  then show ?thesis unfolding ms by simp
qed

end
