(* ===== verification/BackupTarget.thy ===== *)
theory BackupTarget
  imports HAStatus
begin

section \<open>Which member runs a backup\<close>

text \<open>
  \<^verbatim>\<open>internal/controller/backuptarget.go\<close>: the standbys that are eligible for a backup from the
  observations of this reconcile, the replication the status records and the readings kept in memory,
  and the choice of the target under the preference of the backup.
\<close>

datatype TargetPreference = StandbyOnly | PrimaryOnly | PreferStandby | PreferenceOther string

record TargetSelection =
  ts_Instance :: string
  ts_Role :: CubridRole
  ts_FallbackUsed :: bool
  ts_Selected :: bool
  ts_Reason :: string

definition no_target :: "string \<Rightarrow> TargetSelection" where
  "no_target reason =
     \<lparr>ts_Instance = [], ts_Role = RoleOther [], ts_FallbackUsed = False, ts_Selected = False, ts_Reason = reason\<rparr>"

definition target :: "string \<Rightarrow> CubridRole \<Rightarrow> bool \<Rightarrow> string \<Rightarrow> TargetSelection" where
  "target i role fallback reason =
     \<lparr>ts_Instance = i, ts_Role = role, ts_FallbackUsed = fallback, ts_Selected = True, ts_Reason = reason\<rparr>"

definition authoritativeSlaves :: "string list \<Rightarrow> observations \<Rightarrow> time \<Rightarrow> string list" where
  "authoritativeSlaves members obs now =
     filter (\<lambda>m. case obs m of Some o' \<Rightarrow> ob_Role o' = RoleSlave \<and> authoritative o' now | None \<Rightarrow> False) members"

definition onlyMember :: "string list \<Rightarrow> string option" where
  "onlyMember members = (case members of [m] \<Rightarrow> Some m | _ \<Rightarrow> None)"

definition copyGrewSinceRecentReading ::
  "InstanceReplication option \<Rightarrow> ReplicationObservation \<Rightarrow> time \<Rightarrow> bool" where
  "copyGrewSinceRecentReading prev r now \<longleftrightarrow>
     (case prev of
        None \<Rightarrow> False
      | Some p \<Rightarrow>
          (case (ir_CopiedEOF p, ir_ObservedAt p, ro_CopiedEOF r) of
             (Some e, Some t, Some e') \<Rightarrow>
               ir_Source p = ro_Source r \<and>
               (let age = sub now t in \<not> (age < 0 \<or> age > replicationStallWindow)) \<and>
               Before (LSA (la_Page e) (la_Offset e)) (LSA (la_Page e') (la_Offset e'))
           | _ \<Rightarrow> False))"

definition window_reached :: "time option \<Rightarrow> time \<Rightarrow> bool" where
  "window_reached t0 now \<longleftrightarrow> (case t0 of Some t \<Rightarrow> sub now t \<ge> replicationStallWindow | None \<Rightarrow> False)"

datatype candidate_kind = Excluded | ForWantOfLogEnd | Candidate int

definition candidacy ::
  "observations \<Rightarrow> (string \<Rightarrow> InstanceReplication option) \<Rightarrow> (string \<Rightarrow> applierReading option) \<Rightarrow> PrimaryResolution \<Rightarrow>
     time \<Rightarrow> string \<Rightarrow> candidate_kind" where
  "candidacy obs history positions res now m =
     (case ob_Replication (obs_of obs m) of
        None \<Rightarrow> Excluded
      | Some r \<Rightarrow>
          if ro_FailCount r > 0 \<or> ro_Source r \<noteq> pr_CurrentPrimary res \<or> ro_CopiedEOF r = None then Excluded
          else let withEnd = withSourceLogEnd (Some r) obs now
               in case nextReplication (history m) withEnd (positions m) now of
                    None \<Rightarrow> Excluded
                  | Some next \<Rightarrow>
                      if window_reached (ir_StalledSince next) now then Excluded
                      else if window_reached (ir_NotReceivingSince next) now then Excluded
                      else if (case withEnd of Some w \<Rightarrow> ro_SourceLogEnd w = None | None \<Rightarrow> True) \<and>
                              \<not> copyGrewSinceRecentReading (history m) r now
                      then ForWantOfLogEnd
                      else Candidate (ro_DelayedPages r))"

definition candidates_of ::
  "observations \<Rightarrow> (string \<Rightarrow> InstanceReplication option) \<Rightarrow> (string \<Rightarrow> applierReading option) \<Rightarrow> PrimaryResolution \<Rightarrow>
     time \<Rightarrow> string list \<Rightarrow> (string \<times> int) list" where
  "candidates_of obs history positions res now slaves =
     concat (map (\<lambda>m. case candidacy obs history positions res now m of Candidate d \<Rightarrow> [(m, d)] | _ \<Rightarrow> []) slaves)"

definition eligibleStandbys ::
  "string list \<Rightarrow> observations \<Rightarrow> (string \<Rightarrow> InstanceReplication option) \<Rightarrow> (string \<Rightarrow> applierReading option) \<Rightarrow>
     PrimaryResolution \<Rightarrow> time \<Rightarrow> string list \<times> bool" where
  "eligibleStandbys members obs history positions res now =
     (if pr_Status res \<noteq> ConditionTrue \<or> pr_CurrentPrimary res = [] then ([], False)
      else let slaves = authoritativeSlaves members obs now
           in (map fst (sort_key snd (candidates_of obs history positions res now slaves)),
               \<exists>m \<in> set slaves. candidacy obs history positions res now m = ForWantOfLogEnd))"

definition selectBackupTarget ::
  "string list \<Rightarrow> observations \<Rightarrow> (string \<Rightarrow> InstanceReplication option) \<Rightarrow> (string \<Rightarrow> applierReading option) \<Rightarrow>
     PrimaryResolution \<Rightarrow> TargetPreference \<Rightarrow> bool \<Rightarrow> bool \<Rightarrow> time \<Rightarrow> TargetSelection" where
  "selectBackupTarget members obs history positions res pref single primaryLogEndWaitOver now =
     (case eligibleStandbys members obs history positions res now of (standbys, logEndUnread) \<Rightarrow>
        let primaryResolved = (pr_Status res = ConditionTrue \<and> pr_CurrentPrimary res \<noteq> [])
        in case pref of
             StandbyOnly \<Rightarrow>
               (case standbys of [] \<Rightarrow> no_target ''NoHealthyStandby''
                | s # _ \<Rightarrow> target s RoleSlave False ''StandbySelected'')
           | PrimaryOnly \<Rightarrow>
               if \<not> primaryResolved then no_target ''PrimaryNotResolved''
               else target (pr_CurrentPrimary res) RoleMaster False ''PrimarySelected''
           | _ \<Rightarrow>
               (case standbys of
                  s # _ \<Rightarrow> target s RoleSlave False ''StandbySelected''
                | [] \<Rightarrow>
                    if single \<and> \<not> primaryResolved \<and> onlyMember members \<noteq> None
                    then target (the (onlyMember members)) RoleUnknown False ''RoleUnknownSingleInstanceFallback''
                    else if primaryResolved \<and> logEndUnread \<and> \<not> primaryLogEndWaitOver
                    then no_target ''PrimaryLogEndNotRead''
                    else if primaryResolved \<and> logEndUnread
                    then target (pr_CurrentPrimary res) RoleMaster True ''MasterFallbackPrimaryLogEndNotRead''
                    else if primaryResolved
                    then target (pr_CurrentPrimary res) RoleMaster True ''MasterFallbackSelected''
                    else no_target ''NoSafeTarget''))"

definition recordedTargetEligible ::
  "TargetSelection \<Rightarrow> string list \<Rightarrow> observations \<Rightarrow> PrimaryResolution \<Rightarrow> bool \<Rightarrow> time \<Rightarrow> bool" where
  "recordedTargetEligible sel members obs res single now \<longleftrightarrow>
     (case ts_Role sel of
        RoleSlave \<Rightarrow> ts_Instance sel \<in> set (authoritativeSlaves members obs now)
      | RoleMaster \<Rightarrow> pr_Status res = ConditionTrue \<and> pr_CurrentPrimary res = ts_Instance sel
      | RoleUnknown \<Rightarrow> single \<and> onlyMember members = Some (ts_Instance sel)
      | _ \<Rightarrow> False)"

subsection \<open>The choice is safe\<close>

text \<open>What a standby must show: it is observed as a slave, its applier was read, follows the resolved
  primary and failed no change, and neither its applier nor its copy of the log has stood still for
  the window, as the status would judge it.\<close>

definition standby_ok ::
  "string list \<Rightarrow> observations \<Rightarrow> (string \<Rightarrow> InstanceReplication option) \<Rightarrow> (string \<Rightarrow> applierReading option) \<Rightarrow>
     PrimaryResolution \<Rightarrow> time \<Rightarrow> string \<Rightarrow> bool" where
  "standby_ok members obs history positions res now m \<longleftrightarrow>
     m \<in> set members \<and> observed obs now m \<and> ob_Role (obs_of obs m) = RoleSlave \<and>
     pr_Status res = ConditionTrue \<and>
     (\<exists>r next. ob_Replication (obs_of obs m) = Some r \<and> \<not> ro_FailCount r > 0 \<and> ro_Source r = pr_CurrentPrimary res \<and>
        ro_CopiedEOF r \<noteq> None \<and> nextReplication (history m) (withSourceLogEnd (Some r) obs now) (positions m) now = Some next \<and>
        \<not> window_reached (ir_StalledSince next) now \<and> \<not> window_reached (ir_NotReceivingSince next) now)"

definition delayed_pages :: "observations \<Rightarrow> string \<Rightarrow> int" where
  "delayed_pages obs m = (case ob_Replication (obs_of obs m) of Some r \<Rightarrow> ro_DelayedPages r | None \<Rightarrow> 0)"

lemma authoritativeSlaves_iff:
  "m \<in> set (authoritativeSlaves members obs now) \<longleftrightarrow>
     m \<in> set members \<and> observed obs now m \<and> ob_Role (obs_of obs m) = RoleSlave"
  by (auto simp: authoritativeSlaves_def observed_def obs_of_def split: option.splits)

lemma candidates_of_iff:
  "(m, d) \<in> set (candidates_of obs history positions res now slaves) \<longleftrightarrow>
     m \<in> set slaves \<and> candidacy obs history positions res now m = Candidate d"
  by (auto simp: candidates_of_def split: candidate_kind.splits)

lemma candidate_ok:
  assumes "candidacy obs history positions res now m = Candidate d"
    "m \<in> set (authoritativeSlaves members obs now)" "pr_Status res = ConditionTrue"
  shows "standby_ok members obs history positions res now m \<and> d = delayed_pages obs m"
  using assms
  by (auto simp: candidacy_def standby_ok_def authoritativeSlaves_iff delayed_pages_def Let_def
      split: option.splits if_splits)

lemma hd_sort_key_min: "s # rest = sort_key f xs \<Longrightarrow> x \<in> set xs \<Longrightarrow> f s \<le> f x"
  by (metis list.set_intros(1) set_ConsD set_sort sorted_sort_key sorted_wrt.simps(2) list.simps(9) order_refl imageI list.set_map)

lemma eligible_first:
  assumes e: "eligibleStandbys members obs history positions res now = (s # rest, unread)"
  shows "standby_ok members obs history positions res now s \<and>
    (\<forall>m \<in> set (s # rest). delayed_pages obs s \<le> delayed_pages obs m)"
proof -
  let ?slaves = "authoritativeSlaves members obs now"
  let ?cs = "candidates_of obs history positions res now ?slaves"
  have res: "pr_Status res = ConditionTrue" using e by (auto simp: eligibleStandbys_def split: if_splits)
  have names: "s # rest = map fst (sort_key snd ?cs)" using e by (auto simp: eligibleStandbys_def Let_def split: if_splits)
  then obtain d cs where cs: "sort_key snd ?cs = (s, d) # cs" by (cases "sort_key snd ?cs") auto
  have ok: "standby_ok members obs history positions res now m \<and> d' = delayed_pages obs m" if "(m, d') \<in> set ?cs" for m d'
    using that candidate_ok [of obs history positions res now m d' members] res by (simp add: candidates_of_iff)
  have mem: "(s, d) \<in> set ?cs" using cs by (metis list.set_intros(1) set_sort)
  have "delayed_pages obs s \<le> delayed_pages obs m" if m: "m \<in> set (s # rest)" for m
  proof -
    obtain d' where d': "(m, d') \<in> set ?cs" using m unfolding names by auto
    then have "d \<le> d'" using hd_sort_key_min [OF cs [symmetric] d'] by simp
    then show ?thesis using ok [OF mem] ok [OF d'] by simp
  qed
  then show ?thesis using ok [OF mem] by blast
qed

definition target_shape ::
  "string list \<Rightarrow> PrimaryResolution \<Rightarrow> TargetPreference \<Rightarrow> bool \<Rightarrow> string list \<Rightarrow> TargetSelection \<Rightarrow> bool" where
  "target_shape members res pref single standbys sel \<longleftrightarrow>
     (\<exists>s rest. standbys = s # rest \<and> pref \<noteq> PrimaryOnly \<and> sel = target s RoleSlave False ''StandbySelected'') \<or>
     (\<exists>fallback why. sel = target (pr_CurrentPrimary res) RoleMaster fallback why \<and> pr_Status res = ConditionTrue \<and>
        pr_CurrentPrimary res \<noteq> [] \<and> pref \<noteq> StandbyOnly \<and> (pref = PrimaryOnly \<or> fallback \<and> standbys = [])) \<or>
     (\<exists>m why. sel = target m RoleUnknown False why \<and> single \<and> members = [m] \<and> pref \<noteq> StandbyOnly \<and> pref \<noteq> PrimaryOnly)"

lemma selection_shape:
  assumes e: "eligibleStandbys members obs history positions res now = (standbys, unread)"
    and sel: "selectBackupTarget members obs history positions res pref single over now = sel" "ts_Selected sel"
  shows "target_shape members res pref single standbys sel"
proof -
  have only: "members = [the (onlyMember members)]" if "onlyMember members \<noteq> None"
    using that by (auto simp: onlyMember_def split: list.splits)
  have none: "\<not> ts_Selected (no_target why)" for why by (simp add: no_target_def)
  show ?thesis
    using sel only none unfolding selectBackupTarget_def e target_shape_def Let_def
    by (cases pref; cases standbys) (simp_all split: if_splits, metis+)
qed


definition demo_standby_observations :: observations where
  "demo_standby_observations = demo_observations
     (''c-0'' \<mapsto> (demo_observation RoleSlave 5)\<lparr>ob_Replication := Some (demo_reading 4 10 20)\<rparr>,
      ''c-1'' \<mapsto> (demo_observation RoleMaster 6)\<lparr>ob_LogEnd := Some (LogAddress 21 0)\<rparr>,
      ''c-2'' \<mapsto> (demo_observation RoleSlave 7)\<lparr>ob_Replication := Some (demo_reading 2 10 20)\<rparr>)"


end
