(* ===== verification/GoText.thy ===== *)
theory GoText
  imports Prelude
begin

section \<open>Text as Go reads it\<close>

text \<open>
  A Go string is a sequence of bytes that is read as UTF-8. This theory holds what the sources use of
  it: the conversion to runes and back, the classes of \<^verbatim>\<open>unicode\<close>, \<^verbatim>\<open>strings.FieldsFunc\<close> and the
  verb \<^verbatim>\<open>%q\<close> of \<^verbatim>\<open>fmt\<close>. The Unicode tables of the characters past Latin-1 are an argument,
  \<open>printable\<close>. The section ends with \<^verbatim>\<open>cleanMessage\<close> of \<^verbatim>\<open>internal/controller/imclient.go\<close>, through which
  everything passes that a member sends and a condition, an Event or a log shows.
\<close>

subsection \<open>UTF-8\<close>

type_synonym rune = nat

definition byte :: "char \<Rightarrow> nat" where
  "byte c = of_char c"

definition runeError :: rune where
  "runeError = 0xFFFD"

definition continuation :: "nat \<Rightarrow> bool" where
  "continuation b \<longleftrightarrow> 0x80 \<le> b \<and> b \<le> 0xBF"

text \<open>The lowest and the highest second byte that may follow a first byte of three or four.\<close>

definition second_byte_ok :: "nat \<Rightarrow> nat \<Rightarrow> bool" where
  "second_byte_ok b0 b1 \<longleftrightarrow>
     (if b0 = 0xE0 then 0xA0 \<le> b1 \<and> b1 \<le> 0xBF
      else if b0 = 0xED then 0x80 \<le> b1 \<and> b1 \<le> 0x9F
      else if b0 = 0xF0 then 0x90 \<le> b1 \<and> b1 \<le> 0xBF
      else if b0 = 0xF4 then 0x80 \<le> b1 \<and> b1 \<le> 0x8F
      else continuation b1)"

text \<open>\<^verbatim>\<open>utf8.DecodeRune\<close>: the first rune and its width; a byte that starts none is \<open>runeError\<close> of width 1.\<close>

fun decode_rune :: "nat list \<Rightarrow> rune \<times> nat" where
  "decode_rune [] = (runeError, 0)"
| "decode_rune (b0 # bs) =
     (if b0 < 0x80 then (b0, 1)
      else if 0xC2 \<le> b0 \<and> b0 \<le> 0xDF
      then (case bs of
              b1 # _ \<Rightarrow> if continuation b1 then ((b0 - 0xC0) * 64 + (b1 - 0x80), 2) else (runeError, 1)
            | _ \<Rightarrow> (runeError, 1))
      else if 0xE0 \<le> b0 \<and> b0 \<le> 0xEF
      then (case bs of
              b1 # b2 # _ \<Rightarrow>
                if second_byte_ok b0 b1 \<and> continuation b2
                then ((b0 - 0xE0) * 4096 + (b1 - 0x80) * 64 + (b2 - 0x80), 3) else (runeError, 1)
            | _ \<Rightarrow> (runeError, 1))
      else if 0xF0 \<le> b0 \<and> b0 \<le> 0xF4
      then (case bs of
              b1 # b2 # b3 # _ \<Rightarrow>
                if second_byte_ok b0 b1 \<and> continuation b2 \<and> continuation b3
                then ((b0 - 0xF0) * 262144 + (b1 - 0x80) * 4096 + (b2 - 0x80) * 64 + (b3 - 0x80), 4)
                else (runeError, 1)
            | _ \<Rightarrow> (runeError, 1))
      else (runeError, 1))"

lemma decode_rune_width: "bs \<noteq> [] \<Longrightarrow> 0 < snd (decode_rune bs)"
  by (cases bs) (auto split: list.splits)

text \<open>The runes of a string with their widths and first bytes, as \<^verbatim>\<open>range\<close> visits them.\<close>

function decode_bytes :: "nat list \<Rightarrow> (rune \<times> nat \<times> nat) list" where
  "decode_bytes bs =
     (if bs = [] then []
      else (fst (decode_rune bs), snd (decode_rune bs), hd bs) # decode_bytes (drop (snd (decode_rune bs)) bs))"
  by pat_completeness auto
termination
  by (relation "measure length") (auto simp: decode_rune_width)

declare decode_bytes.simps [simp del]

definition runes :: "string \<Rightarrow> rune list" where
  "runes s = map fst (decode_bytes (map byte s))"

definition valid_rune :: "rune \<Rightarrow> bool" where
  "valid_rune r \<longleftrightarrow> r < 0xD800 \<or> 0xDFFF < r \<and> r \<le> 0x10FFFF"

definition encode_rune :: "rune \<Rightarrow> nat list" where
  "encode_rune r0 =
     (let r = (if valid_rune r0 then r0 else runeError)
      in if r < 0x80 then [r]
         else if r < 0x800 then [0xC0 + r div 64, 0x80 + r mod 64]
         else if r < 0x10000 then [0xE0 + r div 4096, 0x80 + r div 64 mod 64, 0x80 + r mod 64]
         else [0xF0 + r div 262144, 0x80 + r div 4096 mod 64, 0x80 + r div 64 mod 64, 0x80 + r mod 64])"

definition string_of_runes :: "rune list \<Rightarrow> string" where
  "string_of_runes rs = map char_of (concat (map encode_rune rs))"

subsection \<open>Classes and fields\<close>

definition isSpace :: "rune \<Rightarrow> bool" where
  "isSpace r \<longleftrightarrow>
     r \<in> {9, 10, 11, 12, 13, 32, 0x85, 0xA0, 0x1680, 0x2028, 0x2029, 0x202F, 0x205F, 0x3000} \<or> 0x2000 \<le> r \<and> r \<le> 0x200A"

definition isPrint :: "(rune \<Rightarrow> bool) \<Rightarrow> rune \<Rightarrow> bool" where
  "isPrint printable r \<longleftrightarrow>
     (if r \<le> 0xFF then 0x20 \<le> r \<and> r \<le> 0x7E \<or> 0xA1 \<le> r \<and> r \<noteq> 0xAD else printable r)"

text \<open>\<^verbatim>\<open>strings.FieldsFunc\<close>: the runs of elements that are no separators.\<close>

function fieldsFunc :: "('a \<Rightarrow> bool) \<Rightarrow> 'a list \<Rightarrow> 'a list list" where
  "fieldsFunc f [] = []"
| "fieldsFunc f (x # xs) =
     (if f x then fieldsFunc f xs
      else (x # takeWhile (\<lambda>y. \<not> f y) xs) # fieldsFunc f (dropWhile (\<lambda>y. \<not> f y) xs))"
  by pat_completeness auto
termination
  by (relation "measure (length \<circ> snd)") (auto simp: length_dropWhile_le le_imp_less_Suc)

subsection \<open>Quoting\<close>

fun hex_fixed :: "nat \<Rightarrow> nat \<Rightarrow> string" where
  "hex_fixed 0 n = []"
| "hex_fixed (Suc k) n = hex_fixed k (n div 16) @ [hex_char (n mod 16)]"

definition quote_rune :: "(rune \<Rightarrow> bool) \<Rightarrow> rune \<times> nat \<times> nat \<Rightarrow> string" where
  "quote_rune printable x =
     (case x of (r, width, b) \<Rightarrow>
        if width = 1 \<and> r = runeError then [CHR 0x5C, CHR ''x''] @ hex_fixed 2 b
        else if r = 0x22 \<or> r = 0x5C then [CHR 0x5C, char_of r]
        else if isPrint printable r then map char_of (encode_rune r)
        else if r = 7 then [CHR 0x5C, CHR ''a'']
        else if r = 8 then [CHR 0x5C, CHR ''b'']
        else if r = 12 then [CHR 0x5C, CHR ''f'']
        else if r = 10 then [CHR 0x5C, CHR ''n'']
        else if r = 13 then [CHR 0x5C, CHR ''r'']
        else if r = 9 then [CHR 0x5C, CHR ''t'']
        else if r = 11 then [CHR 0x5C, CHR ''v'']
        else if r < 0x20 \<or> r = 0x7F then [CHR 0x5C, CHR ''x''] @ hex_fixed 2 r
        else if r < 0x10000 then [CHR 0x5C, CHR ''u''] @ hex_fixed 4 r
        else [CHR 0x5C, CHR ''U''] @ hex_fixed 8 r)"

definition quote :: "(rune \<Rightarrow> bool) \<Rightarrow> string \<Rightarrow> string" where
  "quote printable s = [CHR 0x22] @ concat (map (quote_rune printable) (decode_bytes (map byte s))) @ [CHR 0x22]"

subsection \<open>Messages from a member\<close>

definition maxErrorMessage :: nat where
  "maxErrorMessage = 256"

definition separator :: "(rune \<Rightarrow> bool) \<Rightarrow> rune \<Rightarrow> bool" where
  "separator printable r \<longleftrightarrow> \<not> isPrint printable r \<or> isSpace r"

definition clean_runes :: "(rune \<Rightarrow> bool) \<Rightarrow> rune list \<Rightarrow> rune list" where
  "clean_runes printable rs =
     (let cleaned = join [32] (fieldsFunc (separator printable) rs)
      in if length cleaned > maxErrorMessage then take maxErrorMessage cleaned @ [0x2E, 0x2E, 0x2E] else cleaned)"

definition cleanMessage :: "(rune \<Rightarrow> bool) \<Rightarrow> string \<Rightarrow> string" where
  "cleanMessage printable msg = string_of_runes (clean_runes printable (runes msg))"

subsection \<open>Decoding is the inverse of encoding\<close>

lemma three_digits: "r div 4096 * 4096 + r div 64 mod 64 * 64 + r mod 64 = (r :: nat)"
proof -
  have "r div 4096 = r div 64 div 64" using div_mult2_eq [of r 64 64] by simp
  moreover have "r div 64 div 64 * 64 + r div 64 mod 64 = r div 64" "r div 64 * 64 + r mod 64 = r" by simp_all
  ultimately show ?thesis by linarith
qed

lemma four_digits: "r div 262144 * 262144 + r div 4096 mod 64 * 4096 + r div 64 mod 64 * 64 + r mod 64 = (r :: nat)"
proof -
  have "r div 262144 = r div 4096 div 64" using div_mult2_eq [of r 4096 64] by simp
  moreover have "r div 4096 div 64 * 64 + r div 4096 mod 64 = r div 4096" by simp
  ultimately show ?thesis using three_digits [of r] by linarith
qed

lemma decode_encode_rune:
  assumes "valid_rune r"
  shows "decode_rune (encode_rune r @ bs) = (r, length (encode_rune r))"
proof -
  consider (one) "r < 0x80" | (two) "0x80 \<le> r" "r < 0x800" | (three) "0x800 \<le> r" "r < 0x10000" | (four) "0x10000 \<le> r"
    by linarith
  then show ?thesis
  proof cases
    case two
    then have "2 \<le> r div 64" "r div 64 < 32" by (simp_all add: div_less_iff_less_mult less_eq_div_iff_mult_less_eq)
    then show ?thesis using two assms by (simp add: encode_rune_def continuation_def)
  next
    case three
    then have q: "r div 4096 < 16" "r div 64 mod 64 < 64" "r mod 64 < 64" by (simp_all add: div_less_iff_less_mult)
    note e = three_digits [of r]
    have low: "0x20 \<le> r div 64 mod 64" if "r div 4096 = 0" using that three e q by linarith
    have sur: "r div 64 mod 64 < 0x20" if "r div 4096 = 0xD" using that assms e q unfolding valid_rune_def by linarith
    have "second_byte_ok (0xE0 + r div 4096) (0x80 + r div 64 mod 64)"
      using q low sur by (auto simp: second_byte_ok_def continuation_def)
    then show ?thesis using three assms q by (simp add: encode_rune_def continuation_def) (use e in linarith)
  next
    case four
    have r: "r \<le> 0x10FFFF" using four assms by (auto simp: valid_rune_def)
    then have q: "r div 262144 < 5" "r div 4096 mod 64 < 64" "r div 64 mod 64 < 64" "r mod 64 < 64"
      by (simp_all add: div_less_iff_less_mult)
    note e = four_digits [of r]
    have low: "0x10 \<le> r div 4096 mod 64" if "r div 262144 = 0" using that four e q by linarith
    have high: "r div 4096 mod 64 < 0x10" if "r div 262144 = 4" using that r e q by linarith
    have "second_byte_ok (0xF0 + r div 262144) (0x80 + r div 4096 mod 64)"
      using q low high by (auto simp: second_byte_ok_def continuation_def)
    then show ?thesis using four assms q by (simp add: encode_rune_def continuation_def) (use e in linarith)
  qed (simp add: encode_rune_def valid_rune_def)
qed

lemma encode_rune_bytes:
  assumes "b \<in> set (encode_rune r)"
  shows "b < 256" and "r < 0x80 \<and> b = r \<or> 0x80 \<le> b"
proof -
  let ?r = "if valid_rune r then r else runeError"
  have v: "?r \<le> 0x10FFFF" "r < 0x80 \<Longrightarrow> ?r = r" "\<not> r < 0x80 \<Longrightarrow> \<not> ?r < 0x80"
    by (auto simp: valid_rune_def runeError_def)
  then have "?r div 262144 < 5" by (simp add: div_less_iff_less_mult)
  moreover have "?r div 4096 < 16" if "?r < 0x10000" using that by (simp add: div_less_iff_less_mult)
  moreover have "?r div 64 < 32" if "?r < 0x800" using that by (simp add: div_less_iff_less_mult)
  moreover have "?r mod 64 < 64" "?r div 64 mod 64 < 64" "?r div 4096 mod 64 < 64" by simp_all
  ultimately show "b < 256" using assms unfolding encode_rune_def Let_def by (auto split: if_splits)
  show "r < 0x80 \<and> b = r \<or> 0x80 \<le> b" using assms v unfolding encode_rune_def Let_def by (auto split: if_splits)
qed

lemma encode_rune_length: "0 < length (encode_rune r) \<and> length (encode_rune r) \<le> 4"
  by (auto simp: encode_rune_def Let_def)

lemma three_bytes_valid:
  assumes "0xE0 \<le> b0" "b0 \<le> 0xEF" "second_byte_ok b0 b1" "continuation b2"
  shows "valid_rune ((b0 - 0xE0) * 4096 + (b1 - 0x80) * 64 + (b2 - 0x80))"
proof -
  have b2: "b2 - 0x80 < 64" using assms(4) by (auto simp: continuation_def)
  consider "b0 < 0xED" | "b0 = 0xED" | "0xED < b0" by linarith
  then show ?thesis
  proof cases
    case 1
    moreover have "b1 - 0x80 < 64" using assms(1,3) 1 by (auto simp: second_byte_ok_def continuation_def split: if_splits)
    ultimately have "(b0 - 0xE0) * 4096 + (b1 - 0x80) * 64 + (b2 - 0x80) < 0xD800" using b2 assms(1) by linarith
    then show ?thesis by (simp add: valid_rune_def)
  next
    case 2
    then have "b1 - 0x80 < 32" using assms(3) by (auto simp: second_byte_ok_def)
    then have "(b0 - 0xE0) * 4096 + (b1 - 0x80) * 64 + (b2 - 0x80) < 0xD800" using b2 2 by simp
    then show ?thesis by (simp add: valid_rune_def)
  next
    case 3
    moreover have "b1 - 0x80 < 64" using assms(2,3) 3 by (auto simp: second_byte_ok_def continuation_def split: if_splits)
    ultimately have "0xDFFF < (b0 - 0xE0) * 4096 + (b1 - 0x80) * 64 + (b2 - 0x80)"
      "(b0 - 0xE0) * 4096 + (b1 - 0x80) * 64 + (b2 - 0x80) \<le> 0x10FFFF" using b2 assms(2) by linarith+
    then show ?thesis by (simp add: valid_rune_def)
  qed
qed

lemma four_bytes_valid:
  assumes "0xF0 \<le> b0" "b0 \<le> 0xF4" "second_byte_ok b0 b1" "continuation b2" "continuation b3"
  shows "valid_rune ((b0 - 0xF0) * 262144 + (b1 - 0x80) * 4096 + (b2 - 0x80) * 64 + (b3 - 0x80))"
proof -
  have b: "b2 - 0x80 < 64" "b3 - 0x80 < 64" using assms(4,5) by (auto simp: continuation_def)
  have "b0 = 0xF0 \<and> 16 \<le> b1 - 0x80 \<and> b1 - 0x80 < 64 \<or> b0 \<in> {0xF1, 0xF2, 0xF3} \<and> b1 - 0x80 < 64 \<or> b0 = 0xF4 \<and> b1 - 0x80 < 16"
    using assms(1-3) by (auto simp: second_byte_ok_def continuation_def split: if_splits)
  then have "0xDFFF < (b0 - 0xF0) * 262144 + (b1 - 0x80) * 4096 + (b2 - 0x80) * 64 + (b3 - 0x80)"
    "(b0 - 0xF0) * 262144 + (b1 - 0x80) * 4096 + (b2 - 0x80) * 64 + (b3 - 0x80) \<le> 0x10FFFF"
    using b by auto
  then show ?thesis by (simp add: valid_rune_def)
qed

lemma decode_rune_valid: "valid_rune (fst (decode_rune bs))"
proof (cases bs)
  case Nil
  then show ?thesis by (simp add: valid_rune_def runeError_def)
next
  case (Cons b0 cs)
  have err: "valid_rune runeError" by (simp add: valid_rune_def runeError_def)
  have one: "valid_rune b0" if "b0 < 0x80" using that by (simp add: valid_rune_def)
  have two: "valid_rune ((b0 - 0xC0) * 64 + (b1 - 0x80))" if "b0 \<le> 0xDF" "continuation b1" for b1
  proof -
    have "(b0 - 0xC0) * 64 + (b1 - 0x80) < 0xD800" using that unfolding continuation_def by linarith
    then show ?thesis by (simp add: valid_rune_def)
  qed
  show ?thesis unfolding Cons
    using err one two three_bytes_valid four_bytes_valid by (simp split: list.split)
qed

lemma decode_bytes_encode:
  assumes "list_all valid_rune rs"
  shows "map fst (decode_bytes (concat (map encode_rune rs))) = rs"
  using assms
proof (induction rs)
  case Nil
  then show ?case by (simp add: decode_bytes.simps)
next
  case (Cons r rs)
  have "encode_rune r \<noteq> []" using encode_rune_length [of r] by auto
  then show ?case using Cons by (subst decode_bytes.simps) (simp add: decode_encode_rune)
qed

lemma runes_of_string_of_runes:
  assumes "list_all valid_rune rs"
  shows "runes (string_of_runes rs) = rs"
proof -
  have "map byte (string_of_runes rs) = concat (map encode_rune rs)"
    by (auto simp: string_of_runes_def byte_def encode_rune_bytes intro!: map_idI)
  then show ?thesis using decode_bytes_encode [OF assms] by (simp add: runes_def)
qed

lemma decode_bytes_valid: "list_all valid_rune (map fst (decode_bytes bs))"
proof (induction bs rule: decode_bytes.induct)
  case (1 bs)
  then show ?case by (subst decode_bytes.simps) (simp add: decode_rune_valid)
qed

lemma runes_valid: "list_all valid_rune (runes s)"
  by (simp add: runes_def decode_bytes_valid)

subsection \<open>Cleaning\<close>

definition fields_ok :: "('a \<Rightarrow> bool) \<Rightarrow> 'a list list \<Rightarrow> bool" where
  "fields_ok f fs \<longleftrightarrow> (\<forall>x \<in> set fs. x \<noteq> [] \<and> (\<forall>y \<in> set x. \<not> f y))"

lemma fieldsFunc_ok: "fields_ok f (fieldsFunc f xs)"
proof (induction f xs rule: fieldsFunc.induct)
  case (2 f x xs)
  have "\<forall>y \<in> set (takeWhile (\<lambda>y. \<not> f y) xs). \<not> f y" using set_takeWhileD by fastforce
  then have "fields_ok f ((x # takeWhile (\<lambda>y. \<not> f y) xs) # gs)" if "\<not> f x" "fields_ok f gs" for gs
    using that unfolding fields_ok_def by auto
  then show ?case using 2 by (cases "f x") simp_all
qed (simp add: fields_ok_def)

lemma fieldsFunc_run:
  assumes "x \<noteq> []" "\<forall>y \<in> set x. \<not> f y" "zs = [] \<or> f (hd zs)"
  shows "fieldsFunc f (x @ zs) = x # fieldsFunc f zs"
proof (cases x)
  case (Cons y ys)
  have "takeWhile (\<lambda>y. \<not> f y) (ys @ zs) = ys" "dropWhile (\<lambda>y. \<not> f y) (ys @ zs) = zs"
    using assms Cons by (cases zs; auto simp: takeWhile_append dropWhile_append)+
  then show ?thesis using assms(2) Cons by simp
qed (use assms in simp)

lemma fieldsFunc_join:
  assumes "fields_ok f fs" "f sp"
  shows "fieldsFunc f (join [sp] fs) = fs"
  using assms(1)
proof (induction "[sp]" fs rule: join.induct)
  case (2 x)
  then show ?case using fieldsFunc_run [of x f "[]"] by (auto simp: fields_ok_def)
next
  case (3 x y ys)
  then have "x \<noteq> []" "\<forall>z \<in> set x. \<not> f z" "fields_ok f (y # ys)" by (auto simp: fields_ok_def)
  then show ?case using 3 assms(2) fieldsFunc_run [of x f "sp # join [sp] (y # ys)"] by simp
qed simp

lemma take_join:
  assumes "fields_ok f fs" "d \<noteq> []" "\<forall>y \<in> set d. \<not> f y"
  shows "\<exists>gs. gs \<noteq> [] \<and> fields_ok f gs \<and> take n (join [sp] fs) @ d = join [sp] gs"
  using assms(1)
proof (induction "[sp]" fs arbitrary: n rule: join.induct)
  case 1
  then show ?case using assms(2,3) by (intro exI [of _ "[d]"]) (simp add: fields_ok_def)
next
  case (2 x)
  then show ?case using assms(2,3)
    by (intro exI [of _ "[take n x @ d]"]) (auto simp: fields_ok_def dest: in_set_takeD)
next
  case (3 x y ys)
  show ?case
  proof (cases "n \<le> length x")
    case True
    then show ?thesis using 3(2) assms(2,3)
      by (intro exI [of _ "[take n x @ d]"]) (auto simp: fields_ok_def dest: in_set_takeD)
  next
    case False
    have "fields_ok f (y # ys)" using 3(2) by (auto simp: fields_ok_def)
    then obtain gs where gs: "gs \<noteq> []" "fields_ok f gs" "take (n - Suc (length x)) (join [sp] (y # ys)) @ d = join [sp] gs"
      using 3(1) by blast
    have "take n (join [sp] (x # y # ys)) = x @ sp # take (n - Suc (length x)) (join [sp] (y # ys))"
      using False by (cases "n - length x") (auto simp: Suc_diff_Suc diff_Suc split: nat.splits)
    moreover have "join [sp] (x # gs) = x @ sp # join [sp] gs" using gs(1) by (cases gs) auto
    ultimately show ?thesis using gs 3(2) by (intro exI [of _ "x # gs"]) (auto simp: fields_ok_def)
  qed
qed

lemma separator_space: "separator printable 32"
  by (simp add: separator_def isSpace_def)

lemma dots_plain: "\<forall>r \<in> set [0x2E, 0x2E, 0x2E]. \<not> separator printable r"
  by (simp add: separator_def isSpace_def isPrint_def)

lemma clean_runes_shape: "\<exists>fs. fields_ok (separator printable) fs \<and> clean_runes printable rs = join [32] fs"
proof -
  let ?fs = "fieldsFunc (separator printable) rs"
  obtain gs where "fields_ok (separator printable) gs" "take maxErrorMessage (join [32] ?fs) @ [0x2E, 0x2E, 0x2E] = join [32] gs"
    using take_join [OF fieldsFunc_ok, of "[0x2E, 0x2E, 0x2E]"] dots_plain by blast
  then show ?thesis
    using fieldsFunc_ok [of "separator printable" rs] unfolding clean_runes_def Let_def by (cases "length (join [32] ?fs) > maxErrorMessage") auto
qed

lemma clean_runes_idem: "clean_runes printable (clean_runes printable rs) = clean_runes printable rs"
proof -
  obtain fs where fs: "fields_ok (separator printable) fs" "clean_runes printable rs = join [32] fs"
    using clean_runes_shape by blast
  have "join [32] (fieldsFunc (separator printable) (clean_runes printable rs)) = clean_runes printable rs"
    using fieldsFunc_join [OF fs(1) separator_space] fs(2) by simp
  then show ?thesis
    by (simp add: clean_runes_def [of printable "clean_runes printable rs"]) (auto simp: clean_runes_def Let_def)
qed

lemma set_join: "set (join sep fs) \<subseteq> set sep \<union> \<Union> (set ` set fs)"
  by (induction sep fs rule: join.induct) auto

lemma set_fieldsFunc: "\<Union> (set ` set (fieldsFunc f xs)) \<subseteq> set xs"
proof (induction f xs rule: fieldsFunc.induct)
  case (2 f x xs)
  then show ?case
    using set_takeWhileD [of _ "\<lambda>y. \<not> f y" xs] set_dropWhileD [of _ "\<lambda>y. \<not> f y" xs] by (cases "f x") (simp, blast)+
qed simp

lemma clean_runes_set:
  assumes "r \<in> set (clean_runes printable rs)"
  shows "r = 32 \<or> r = 0x2E \<or> r \<in> set rs"
proof -
  have "set (clean_runes printable rs) \<subseteq> set (join [32] (fieldsFunc (separator printable) rs)) \<union> {0x2E}"
    by (auto simp: clean_runes_def Let_def dest: in_set_takeD)
  then show ?thesis using assms set_join [of "[32]"] set_fieldsFunc [of "separator printable" rs] by fastforce
qed

lemma clean_runes_plain:
  assumes "r \<in> set (clean_runes printable rs)"
  shows "r = 32 \<or> \<not> separator printable r"
proof -
  obtain fs where "fields_ok (separator printable) fs" "clean_runes printable rs = join [32] fs"
    using clean_runes_shape by blast
  then show ?thesis using assms set_join [of "[32]" fs] by (auto simp: fields_ok_def)
qed

lemma clean_runes_length: "length (clean_runes printable rs) \<le> 259"
  by (simp add: clean_runes_def Let_def maxErrorMessage_def)

lemma string_of_runes_length: "length (string_of_runes rs) \<le> 4 * length rs"
proof (induction rs)
  case (Cons r rs)
  then show ?case using encode_rune_length [of r] by (simp add: string_of_runes_def)
qed (simp add: string_of_runes_def)


end
