(* ===== verification/ImApi.thy ===== *)
theory ImApi
  imports OpStore GoText
begin

section \<open>The Instance Manager's API\<close>

text \<open>
  What the manager of a member and the operator exchange: the requests (\<^verbatim>\<open>operations.go\<close>,
  \<^verbatim>\<open>restore.go\<close>, \<^verbatim>\<open>habootstrap.go\<close>), the error answers and their codes (\<^verbatim>\<open>errorcode.go\<close>), all under
  \<^verbatim>\<open>internal/instancemanager\<close>. The server's side is in \<^verbatim>\<open>ImServer\<close>, the operator's in \<^verbatim>\<open>ImClient\<close>.
\<close>

subsection \<open>Requests\<close>

record BackupUpload =
  up_Bucket :: string
  up_Prefix :: string
  up_ClusterUID :: string
  up_CubridVersion :: string
  up_SourceInstance :: string
  up_SourceRole :: string
  up_Seed :: bool

record BackupRequest =
  br_Database :: string
  br_Destination :: string
  br_Level :: int
  br_Upload :: "BackupUpload option"

record RestoreRequest =
  rr_Database :: string
  rr_Bucket :: string
  rr_Prefix :: string
  rr_ExpectedCubridVersion :: string
  rr_StagingDir :: string
  rr_TargetDir :: string
  rr_SeedFromMaster :: string
  rr_ExpectedClusterUID :: string

record HABootstrapRequest =
  hr_Database :: string

subsection \<open>Error answers\<close>

record ErrorResponse =
  ers_Error :: string
  ers_Code :: string

definition CodeUnauthorized :: string where
  "CodeUnauthorized = ''Unauthorized''"

definition CodeOperationInProgress :: string where
  "CodeOperationInProgress = ''OperationInProgress''"

definition CodeIdempotencyConflict :: string where
  "CodeIdempotencyConflict = ''IdempotencyConflict''"

definition CodeStagingDestinationInUse :: string where
  "CodeStagingDestinationInUse = ''StagingDestinationInUse''"

definition CodeNotAnHAMember :: string where
  "CodeNotAnHAMember = ''NotAnHAMember''"

definition CodeObjectStorageNotApplied :: string where
  "CodeObjectStorageNotApplied = ''ObjectStorageNotApplied''"

definition CodeOperationRecordUnreadable :: string where
  "CodeOperationRecordUnreadable = ''OperationRecordUnreadable''"

lemmas code_defs = CodeUnauthorized_def CodeOperationInProgress_def CodeIdempotencyConflict_def
  CodeStagingDestinationInUse_def CodeNotAnHAMember_def CodeObjectStorageNotApplied_def CodeOperationRecordUnreadable_def

text \<open>The errors of the manager that an answer is made of: one of the store, the staging destination of a
  running operation, or another with its text.\<close>

datatype manager_error = StoreError store_error | ErrBackupStagingInUse | OtherError string

text \<open>\<^verbatim>\<open>errors.Is\<close> on what the store's errors wrap.\<close>

fun is_conflict :: "store_error \<Rightarrow> bool" where
  "is_conflict ErrIdempotencyConflict = True"
| "is_conflict (ErrOperationRecordUnreadable n e) = is_conflict e"
| "is_conflict (ErrInterruptedRecord i e) = is_conflict e"
| "is_conflict (ErrUnwrittenEnd i (Some e)) = is_conflict e"
| "is_conflict _ = False"

fun is_in_progress :: "store_error \<Rightarrow> bool" where
  "is_in_progress ErrOperationInProgress = True"
| "is_in_progress (ErrOperationRecordUnreadable n e) = is_in_progress e"
| "is_in_progress (ErrInterruptedRecord i e) = is_in_progress e"
| "is_in_progress (ErrUnwrittenEnd i (Some e)) = is_in_progress e"
| "is_in_progress _ = False"

fun is_unreadable :: "store_error \<Rightarrow> bool" where
  "is_unreadable (ErrOperationRecordUnreadable n e) = True"
| "is_unreadable (ErrInterruptedRecord i e) = is_unreadable e"
| "is_unreadable (ErrUnwrittenEnd i (Some e)) = is_unreadable e"
| "is_unreadable _ = False"

fun is_store :: "(store_error \<Rightarrow> bool) \<Rightarrow> manager_error \<Rightarrow> bool" where
  "is_store p (StoreError e) = p e"
| "is_store p _ = False"

definition errorCode :: "int \<Rightarrow> manager_error \<Rightarrow> string" where
  "errorCode status err =
     (if is_store is_conflict err then CodeIdempotencyConflict
      else if is_store is_in_progress err then CodeOperationInProgress
      else if err = ErrBackupStagingInUse then CodeStagingDestinationInUse
      else if is_store is_unreadable err then CodeOperationRecordUnreadable
      else if status = 412 then CodeObjectStorageNotApplied
      else [])"

end
