(* ===== verification/Heartbeat.thy ===== *)
theory Heartbeat
  imports Api
begin

section \<open>What CUBRID's utilities print\<close>

text \<open>
  \<^verbatim>\<open>internal/instancemanager/role.go\<close> and the parsers of \<^verbatim>\<open>convergence.go\<close> and \<^verbatim>\<open>cli.go\<close>: the role of a
  member from the output of \<^verbatim>\<open>cubrid heartbeat status\<close>, and the state of its log applier and of its log
  from the output of \<^verbatim>\<open>cubrid applyinfo\<close>.

  The regular expressions of the source are sequences of literals and of repetitions of a class of
  characters. They are matched here as Go's \<^verbatim>\<open>regexp\<close> matches them: the leftmost match, and among the
  matches that start there the one that a greedy repetition tries longest first and a lazy one
  shortest first.
\<close>

subsection \<open>Regular expressions\<close>

datatype rx_item =
    Lit string
  | Rep bool nat "char \<Rightarrow> bool"
  | Mark

fun first_some :: "('a \<Rightarrow> 'b option) \<Rightarrow> 'a list \<Rightarrow> 'b option" where
  "first_some f [] = None"
| "first_some f (x # xs) = (case f x of Some y \<Rightarrow> Some y | None \<Rightarrow> first_some f xs)"

text \<open>A match of the items at the start of the text: what is left at each mark, and what is left
  after the match.\<close>

primrec rx_match :: "rx_item list \<Rightarrow> string \<Rightarrow> (string list \<times> string) option" where
  "rx_match [] = (\<lambda>s. Some ([], s))"
| "rx_match (i # is) = (\<lambda>s.
     case i of
       Lit l \<Rightarrow> if take (length l) s = l then rx_match is (drop (length l) s) else None
     | Mark \<Rightarrow> map_option (\<lambda>(ms, r). (s # ms, r)) (rx_match is s)
     | Rep greedy least cls \<Rightarrow>
         let most = length (takeWhile cls s);
             tries = [least..<Suc most]
         in first_some (\<lambda>n. rx_match is (drop n s)) (if greedy then rev tries else tries))"

text \<open>The text between each pair of marks.\<close>

fun captures :: "string list \<Rightarrow> string list" where
  "captures (a # b # ms) = take (length a - length b) a # captures ms"
| "captures _ = []"

text \<open>The leftmost match of an expression; \<open>anchored\<close> is for \<^verbatim>\<open>(?m)^\<close>, and \<open>bol\<close> says that the text starts
  at the beginning of a line.\<close>

fun rx_find :: "bool \<Rightarrow> bool \<Rightarrow> rx_item list \<Rightarrow> string \<Rightarrow> (string list \<times> string) option" where
  "rx_find anchored bol is [] = (if anchored \<and> \<not> bol then None else rx_match is [])"
| "rx_find anchored bol is (c # s) =
     (case (if anchored \<and> \<not> bol then None else rx_match is (c # s)) of
        Some m \<Rightarrow> Some m
      | None \<Rightarrow> rx_find anchored (c = CHR 0x0A) is s)"

definition FindStringSubmatch :: "bool \<Rightarrow> rx_item list \<Rightarrow> string \<Rightarrow> string list option" where
  "FindStringSubmatch anchored is s = map_option (\<lambda>(ms, r). captures ms) (rx_find anchored True is s)"

text \<open>All matches from left to right, the next one searched after the end of the one before. The
  expressions below match no empty text, so what is left is always shorter.\<close>

function FindAllStringSubmatch :: "rx_item list \<Rightarrow> string \<Rightarrow> string list list" where
  "FindAllStringSubmatch is s =
     (case rx_find False True is s of
        None \<Rightarrow> []
      | Some (ms, r) \<Rightarrow>
          captures ms # (if length r < length s then FindAllStringSubmatch is r else []))"
  by pat_completeness auto
termination
  by (relation "measure (\<lambda>(is, s). length s)") auto

definition cls_space :: "char \<Rightarrow> bool" where
  "cls_space c \<longleftrightarrow> (of_char c :: nat) \<in> {9, 10, 12, 13, 32}"

definition cls_nonspace :: "char \<Rightarrow> bool" where
  "cls_nonspace c \<longleftrightarrow> \<not> cls_space c"

definition cls_word :: "char \<Rightarrow> bool" where
  "cls_word c \<longleftrightarrow>
     is_digit c \<or> (of_char c :: nat) \<in> {65..90} \<or> (of_char c :: nat) \<in> {97..122} \<or> c = CHR ''_''"

definition group :: "bool \<Rightarrow> nat \<Rightarrow> (char \<Rightarrow> bool) \<Rightarrow> rx_item list" where
  "group greedy least cls = [Mark, Rep greedy least cls, Mark]"

subsection \<open>The role of a member\<close>

definition reCurrent :: "rx_item list" where
  "reCurrent = Lit ''HA-Node Info (current '' # group True 1 (\<lambda>c. c \<noteq> CHR '','') @
     Lit '', state '' # group True 1 cls_word @ [Lit '')'']"

definition reNode :: "rx_item list" where
  "reNode = Lit ''Node '' # group True 1 cls_nonspace @ Lit '' (priority '' # group True 1 is_digit @
     Lit '', state '' # group True 1 cls_word @ [Lit '')'']"

definition reServer :: "rx_item list" where
  "reServer = [Lit ''Server '', Rep True 1 cls_nonspace, Lit '' (pid '', Rep True 1 is_digit, Lit '', state ''] @
     group True 1 cls_word @ [Lit '')'']"

definition reApplier :: "rx_item list" where
  "reApplier = [Lit ''Applylogdb '', Rep False 1 cls_nonspace, Lit '':''] @ group True 1 cls_nonspace @
     Lit '' (pid '' # group True 1 is_digit @ [Lit '', state '', Rep True 1 cls_word, Lit '')'']"

record ApplierProcess =
  ap_LogPath :: string
  ap_PID :: int

record NodeState =
  ns_Name :: string
  ns_Priority :: int
  ns_State :: string

record UnfinishedDatabase =
  un_Database :: string
  un_Operation :: string
  un_State :: string
  un_Reason :: string

record ApplyConvergence =
  ac_Available :: bool
  ac_InsertCount :: int
  ac_CommitCount :: int
  ac_FailCount :: int
  ac_AppliedChanges :: int
  ac_DelayedPageCount :: int
  ac_Source :: string
  ac_Applier :: string
  ac_FinalLSA :: "LSA option"
  ac_CopiedEOF :: "LSA option"
  ac_Reason :: string

text \<open>The role type of the Instance Manager has the same strings as \<^verbatim>\<open>CubridRole\<close>, whose values are used
  for both.\<close>

record HAStatus =
  hs_Current :: string
  hs_Role :: CubridRole
  hs_ServerActive :: bool
  hs_Nodes :: "NodeState list"
  hs_Source :: string
  hs_Reason :: string
  hs_EngineVersion :: string
  hs_Replication :: "ApplyConvergence option"
  hs_LogEnd :: "LSA option"
  hs_Appliers :: "ApplierProcess list"
  hs_Unfinished :: "UnfinishedDatabase option"

definition atoiSafe :: "string \<Rightarrow> int" where
  "atoiSafe s = foldl (\<lambda>n c. wrap64 (wrap64 (n * 10) + int (digit_val c))) 0 (takeWhile is_digit s)"

definition quoted :: "string \<Rightarrow> string" where
  "quoted s = [CHR 0x27] @ s @ [CHR 0x27]"

definition localNodeMismatch :: "string \<Rightarrow> string \<Rightarrow> NodeState list \<Rightarrow> string" where
  "localNodeMismatch current state nodes =
     (let own = filter (\<lambda>n. ns_Name n = current) nodes;
          listed = (if own = [] then [] else ns_State (last own))
      in if length own = 0 then ''the node list does not contain the current node '' @ quoted current
         else if length own > 1 then ''the node list contains the current node '' @ quoted current @ '' more than once''
         else if listed \<noteq> state
         then ''the node list gives the current node '' @ quoted current @ '' state '' @ quoted listed @ '', the header '' @ quoted state
         else [])"

definition node_of :: "string list \<Rightarrow> NodeState" where
  "node_of m = \<lparr>ns_Name = m ! 0, ns_Priority = atoiSafe (m ! 1), ns_State = m ! 2\<rparr>"

definition applier_of_match :: "string list \<Rightarrow> ApplierProcess" where
  "applier_of_match m = \<lparr>ap_LogPath = m ! 0, ap_PID = atoiSafe (m ! 1)\<rparr>"

definition no_status :: HAStatus where
  "no_status = \<lparr>hs_Current = [], hs_Role = RoleUnknown, hs_ServerActive = False, hs_Nodes = [], hs_Source = ''heartbeat'',
     hs_Reason = [], hs_EngineVersion = [], hs_Replication = None, hs_LogEnd = None, hs_Appliers = [], hs_Unfinished = None\<rparr>"

definition role_of_state :: "string \<Rightarrow> CubridRole" where
  "role_of_state state =
     (if state = ''master'' then RoleMaster else if state = ''slave'' then RoleSlave
      else if state = ''replica'' then RoleReplica else RoleUnknown)"

definition ParseHAStatus :: "string \<Rightarrow> HAStatus" where
  "ParseHAStatus out =
     (case FindStringSubmatch False reCurrent out of
        None \<Rightarrow> no_status\<lparr>hs_Reason := ''no HA-Node Info line (heartbeat not running or empty output)''\<rparr>
      | Some m \<Rightarrow>
          let current = trim_space (m ! 0);
              currentState = m ! 1;
              nodes = map node_of (FindAllStringSubmatch reNode out);
              role = role_of_state currentState;
              s = no_status\<lparr>hs_Current := current, hs_Nodes := nodes,
                    hs_ServerActive := (case FindStringSubmatch False reServer out of
                                          Some sm \<Rightarrow> sm ! 0 = ''registered_and_active'' | None \<Rightarrow> False),
                    hs_Appliers := map applier_of_match (FindAllStringSubmatch reApplier out),
                    hs_Role := role,
                    hs_Reason := (if role = RoleUnknown
                                  then ''current node state '' @ quoted currentState @ '' is not an authoritative role'' else [])\<rparr>;
              mismatch = localNodeMismatch current currentState nodes
          in if role \<noteq> RoleUnknown \<and> mismatch \<noteq> []
             then s\<lparr>hs_Role := RoleUnknown, hs_Reason := mismatch\<rparr>
             else s)"

subsection \<open>The applier and the log\<close>

definition Converged :: "ApplyConvergence \<Rightarrow> bool" where
  "Converged c \<longleftrightarrow> ac_Available c \<and> ac_FailCount c = 0 \<and> ac_DelayedPageCount c = 0"

definition count_rx :: "string \<Rightarrow> rx_item list" where
  "count_rx name = [Lit name, Rep True 0 cls_space, Lit '':'', Rep True 0 cls_space] @ group True 1 is_digit"

definition lsa_rx :: "string \<Rightarrow> rx_item list" where
  "lsa_rx name = [Lit name, Rep True 0 cls_space, Lit '':'', Rep True 0 cls_space] @ group True 1 is_digit @
     [Rep True 0 cls_space, Lit ''|'', Rep True 0 cls_space] @ group True 1 is_digit"

definition max_int64 :: int where
  "max_int64 = 2 ^ 63 - 1"

text \<open>\<^verbatim>\<open>strconv.Atoi\<close> of a string of digits, whose error the source drops: out of range is the largest
  value.\<close>

definition mustAtoi :: "string \<Rightarrow> int" where
  "mustAtoi s = min (int (digits_value s)) max_int64"

definition atoiField :: "rx_item list \<Rightarrow> string \<Rightarrow> int" where
  "atoiField re out = (case FindStringSubmatch False re out of Some m \<Rightarrow> mustAtoi (m ! 0) | None \<Rightarrow> 0)"

definition lsaField :: "rx_item list \<Rightarrow> string \<Rightarrow> LSA option" where
  "lsaField re out =
     (case FindStringSubmatch True re out of
        None \<Rightarrow> None
      | Some m \<Rightarrow>
          let page = int (digits_value (m ! 0)); offset = int (digits_value (m ! 1))
          in if page > max_int64 \<or> offset > max_int64 then None else Some (LSA page offset))"

text \<open>\<^verbatim>\<open>strings.Cut\<close>: what follows the first occurrence of the separator.\<close>

fun cut_after :: "string \<Rightarrow> string \<Rightarrow> string option" where
  "cut_after sep [] = (if sep = [] then Some [] else None)"
| "cut_after sep (c # s) =
     (if take (length sep) (c # s) = sep then Some (drop (length sep) (c # s)) else cut_after sep s)"

definition no_convergence :: "string \<Rightarrow> ApplyConvergence" where
  "no_convergence reason = \<lparr>ac_Available = False, ac_InsertCount = 0, ac_CommitCount = 0, ac_FailCount = 0,
     ac_AppliedChanges = 0, ac_DelayedPageCount = 0, ac_Source = [], ac_Applier = [], ac_FinalLSA = None,
     ac_CopiedEOF = None, ac_Reason = reason\<rparr>"

definition parseApplyConvergence :: "string \<Rightarrow> ApplyConvergence" where
  "parseApplyConvergence out =
     (let fail = FindStringSubmatch False (count_rx ''Fail count'') out;
          delayed = (case cut_after ''Delay in Applying Copied Log'' out of
                       Some applying \<Rightarrow> FindStringSubmatch False (count_rx ''Delayed log page count'') applying
                     | None \<Rightarrow> None)
      in case (fail, delayed) of
           (Some f, Some d) \<Rightarrow>
             let c = (no_convergence [])\<lparr>ac_Available := True,
                       ac_InsertCount := atoiField (count_rx ''Insert count'') out,
                       ac_CommitCount := atoiField (count_rx ''Commit count'') out,
                       ac_AppliedChanges := wrap64 (wrap64 (wrap64
                         (atoiField (count_rx ''Insert count'') out + atoiField (count_rx ''Update count'') out) +
                         atoiField (count_rx ''Delete count'') out) + atoiField (count_rx ''Schema count'') out),
                       ac_FailCount := mustAtoi (f ! 0), ac_DelayedPageCount := mustAtoi (d ! 0),
                       ac_FinalLSA := lsaField (lsa_rx ''Final LSA'') out,
                       ac_CopiedEOF := (case cut_after ''Copied Active Info'' out of
                                          Some copied \<Rightarrow> lsaField (lsa_rx ''EOF LSA'') copied | None \<Rightarrow> None)\<rparr>
             in if \<not> Converged c
                then c\<lparr>ac_Reason := ''apply pipeline not converged (failCount>0 or delayed pages remain)''\<rparr>
                else c
         | _ \<Rightarrow> no_convergence ''no Applied Info block in applyinfo output'')"

definition activeInfoHeading :: "rx_item list" where
  "activeInfoHeading = [Rep True 0 cls_space, Rep True 1 (\<lambda>c. c = CHR ''*''), Rep True 1 cls_space, Lit ''Active Info.'']"

definition parseLogEnd :: "string \<Rightarrow> LSA option" where
  "parseLogEnd out =
     (case rx_find True True activeInfoHeading out of
        None \<Rightarrow> None
      | Some (ms, r) \<Rightarrow> lsaField (lsa_rx ''EOF LSA'') r)"

definition engineVersionPattern :: "rx_item list" where
  "engineVersionPattern =
     [Lit ''('', Mark, Rep True 1 is_digit, Lit ''.'', Rep True 1 is_digit, Lit ''.'', Rep True 1 is_digit, Lit ''.'',
      Rep True 1 is_digit, Mark]"

text \<open>The closing class \<^verbatim>\<open>[-)]\<close> is written as a repetition: one or more of its characters follow exactly
  when one does, and what is captured ends before them.\<close>

definition ParseEngineVersion :: "string \<Rightarrow> string" where
  "ParseEngineVersion out =
     (case FindStringSubmatch False (engineVersionPattern @ [Rep True 1 (\<lambda>c. c = CHR ''-'' \<or> c = CHR '')'')]) out of
        Some m \<Rightarrow> m ! 0
      | None \<Rightarrow> [])"

subsection \<open>A parsed role is confirmed by the node list\<close>

lemma localNodeMismatch_empty:
  "localNodeMismatch current state nodes = [] \<longleftrightarrow>
     (\<exists>n. filter (\<lambda>n. ns_Name n = current) nodes = [n] \<and> ns_State n = state)"
proof -
  have "length xs = 1 \<longleftrightarrow> (\<exists>n. xs = [n])" for xs :: "NodeState list" by (cases xs) auto
  then show ?thesis
    by (cases "filter (\<lambda>n. ns_Name n = current) nodes") (auto simp: localNodeMismatch_def Let_def)
qed

lemma role_of_state_known: "role_of_state st \<noteq> RoleUnknown \<Longrightarrow> role_string (role_of_state st) = st"
  by (auto simp: role_of_state_def role_string_def)

definition demo_heartbeat :: string where
  "demo_heartbeat = ''HA-Node Info (current c, state master) Node c (priority 1, state master)''"

text \<open>
  C18. A role that is read from heartbeat's output is confirmed by it: it is master, slave or
  replica, and the node list of the same output carries the local node exactly once, in that very
  state.
\<close>

theorem parsed_role_is_confirmed_by_the_node_list:
  assumes "hs_Role (ParseHAStatus out) \<noteq> RoleUnknown"
  shows "hs_Role (ParseHAStatus out) \<in> {RoleMaster, RoleSlave, RoleReplica} \<and> hs_Reason (ParseHAStatus out) = [] \<and>
    (\<exists>n. filter (\<lambda>n. ns_Name n = hs_Current (ParseHAStatus out)) (hs_Nodes (ParseHAStatus out)) = [n] \<and>
       ns_State n = role_string (hs_Role (ParseHAStatus out)))"
proof -
  obtain m where m: "FindStringSubmatch False reCurrent out = Some m"
    using assms by (cases "FindStringSubmatch False reCurrent out") (auto simp: ParseHAStatus_def no_status_def)
  let ?role = "role_of_state (m ! 1)"
  have ok: "?role \<noteq> RoleUnknown" "localNodeMismatch (trim_space (m ! 0)) (m ! 1) (map node_of (FindAllStringSubmatch reNode out)) = []"
    using assms m by (simp_all add: ParseHAStatus_def no_status_def Let_def split: if_splits)
  then have parsed: "hs_Role (ParseHAStatus out) = ?role" "hs_Reason (ParseHAStatus out) = []"
    "hs_Current (ParseHAStatus out) = trim_space (m ! 0)" "hs_Nodes (ParseHAStatus out) = map node_of (FindAllStringSubmatch reNode out)"
    using m by (auto simp: ParseHAStatus_def no_status_def Let_def)
  have "?role \<in> {RoleMaster, RoleSlave, RoleReplica}" using ok(1) by (simp add: role_of_state_def split: if_splits)
  then show ?thesis
    using ok(2) unfolding parsed role_of_state_known [OF ok(1)] localNodeMismatch_empty by blast
qed

theorem parsed_role_is_confirmed_by_the_node_list_witness:
  "hs_Role (ParseHAStatus demo_heartbeat) = RoleMaster \<and>
   (\<exists>n. filter (\<lambda>n. ns_Name n = hs_Current (ParseHAStatus demo_heartbeat)) (hs_Nodes (ParseHAStatus demo_heartbeat)) = [n] \<and>
       ns_State n = ''master'')"
proof -
  have "hs_Role (ParseHAStatus demo_heartbeat) = RoleMaster" by code_simp
  then show ?thesis using parsed_role_is_confirmed_by_the_node_list [of demo_heartbeat] by (simp add: role_string_def)
qed

subsection \<open>Printing and parsing\<close>

text \<open>The part of heartbeat's output that carries the roles, as the comments of the source show it.\<close>

definition node_line :: "NodeState \<Rightarrow> string" where
  "node_line n = ''   Node '' @ ns_Name n @ '' (priority '' @ itoa (ns_Priority n) @ '', state '' @ ns_State n @ '')'' @ [CHR 0x0A]"

definition heartbeat_text :: "string \<Rightarrow> string \<Rightarrow> NodeState list \<Rightarrow> string" where
  "heartbeat_text current state nodes =
     '' HA-Node Info (current '' @ current @ '', state '' @ state @ '')'' @ [CHR 0x0A] @ concat (map node_line nodes)"

definition name_ok :: "string \<Rightarrow> bool" where
  "name_ok s \<longleftrightarrow> s \<noteq> [] \<and> (\<forall>c \<in> set s. cls_nonspace c \<and> \<not> is_space c \<and> c \<noteq> CHR '','')"

definition state_ok :: "string \<Rightarrow> bool" where
  "state_ok s \<longleftrightarrow> s \<noteq> [] \<and> (\<forall>c \<in> set s. cls_word c)"

definition node_ok :: "NodeState \<Rightarrow> bool" where
  "node_ok n \<longleftrightarrow> name_ok (ns_Name n) \<and> state_ok (ns_State n) \<and> 0 \<le> ns_Priority n \<and> ns_Priority n < 2 ^ 63"

lemma rx_lit [simp]: "rx_match (Lit l # is) (l @ s) = rx_match is s"
  by simp

lemma rx_lit_no: "take (length l) s \<noteq> l \<Longrightarrow> rx_match (Lit l # is) s = None"
  by simp

lemma rx_greedy_run:
  assumes "\<forall>c \<in> set w. cls c" "least \<le> length w" "rest = [] \<or> \<not> cls (hd rest)" "rx_match is rest = Some m"
  shows "rx_match (Rep True least cls # is) (w @ rest) = Some m"
proof -
  have "takeWhile cls (w @ rest) = w" using assms(1,3) by (cases rest) (auto simp: takeWhile_append)
  then show ?thesis using assms(2,4) by (simp add: Let_def)
qed

lemma rx_group:
  assumes "\<forall>c \<in> set w. cls c" "least \<le> length w" "rest = [] \<or> \<not> cls (hd rest)" "rx_match is rest = Some (ms, r)"
  shows "rx_match (group True least cls @ is) (w @ rest) = Some ((w @ rest) # rest # ms, r)"
proof -
  have "rx_match (Mark # is) rest = Some (rest # ms, r)" using assms(4) by simp
  then have "rx_match (Rep True least cls # Mark # is) (w @ rest) = Some (rest # ms, r)"
    using assms by (intro rx_greedy_run) auto
  then show ?thesis by (simp add: group_def)
qed

lemma rx_find_unanchored: "rx_find False bol is s = rx_find False bol' is s"
  by (cases s) auto

lemma rx_find_skip1: "rx_match is (c # s) = None \<Longrightarrow> rx_find False bol is (c # s) = rx_find False True is s"
  using rx_find_unanchored by simp

lemma rx_find_here: "rx_match is s = Some m \<Longrightarrow> rx_find False bol is s = Some m"
  by (cases s) auto

lemma take5_node:
  assumes "\<forall>c \<in> set w. cls_nonspace c" "x \<notin> set ''Node ''" "w \<noteq> []"
  shows "take 5 (w @ x # t) \<noteq> ''Node ''"
proof
  assume eq: "take 5 (w @ x # t) = ''Node ''"
  show False
  proof (cases "length w < 5")
    case True
    then have "take 5 (w @ x # t) ! length w = x" by (simp only: nth_take nth_append_length)
    moreover have "length w < length ''Node ''" using True by simp
    ultimately show False using assms(2) nth_mem eq by metis
  next
    case False
    then have "take 5 (w @ x # t) ! 4 = w ! 4" by (simp add: nth_append del: take_append)
    then have "w ! 4 = CHR '' ''" unfolding eq by simp
    then have "\<not> cls_nonspace (w ! 4)" by (simp add: cls_nonspace_def cls_space_def)
    then show False using assms(1) False by simp
  qed
qed

lemma rx_match_reNode_None: "take 5 s \<noteq> ''Node '' \<Longrightarrow> rx_match reNode s = None"
  by (simp add: reNode_def eval_nat_numeral)

lemma skip_word:
  assumes "\<forall>c \<in> set w. cls_nonspace c" "x \<notin> set ''Node ''"
  shows "rx_find False bol reNode (w @ x # t) = rx_find False True reNode t"
  using assms(1)
proof (induction w arbitrary: bol)
  case Nil
  have "take 5 (x # t) \<noteq> ''Node ''" using assms(2) by auto
  from rx_find_skip1 [OF rx_match_reNode_None [OF this]] show ?case by simp
next
  case (Cons c w)
  then have "take 5 ((c # w) @ x # t) \<noteq> ''Node ''" using take5_node assms(2) by blast
  from rx_find_skip1 [OF rx_match_reNode_None [OF this [simplified append_Cons]]] show ?case using Cons by simp
qed

lemma captures_append [simp]: "captures ((w @ r) # r # ms) = w # captures ms"
  by simp

lemma word_nonspace: "cls_word c \<Longrightarrow> cls_nonspace c"
  by (auto simp: cls_word_def cls_nonspace_def cls_space_def is_digit_def)

lemma state_tail:
  assumes "state_ok st"
  shows "rx_match (Lit '', state '' # group True 1 cls_word @ [Lit '')'']) ('', state '' @ st @ '')'' @ r) =
    Some ([st @ '')'' @ r, '')'' @ r], r)"
proof -
  have "rx_match (group True 1 cls_word @ [Lit '')'']) (st @ '')'' @ r) = Some ([st @ '')'' @ r, '')'' @ r], r)"
    using assms by (intro rx_group) (auto simp: state_ok_def cls_word_def is_digit_def Suc_le_eq)
  then show ?thesis unfolding rx_lit .
qed

lemma node_matches:
  assumes "node_ok n"
  shows "\<exists>ms. rx_match reNode (''Node '' @ ns_Name n @ '' (priority '' @ itoa (ns_Priority n) @ '', state '' @ ns_State n @ '')'' @ r) =
      Some (ms, r) \<and> captures ms = [ns_Name n, itoa (ns_Priority n), ns_State n]"
proof -
  let ?c = "'', state '' @ ns_State n @ '')'' @ r"
  let ?b = "'' (priority '' @ itoa (ns_Priority n) @ ?c"
  let ?ms = "[ns_State n @ '')'' @ r, '')'' @ r]"
  let ?items = "Lit '', state '' # group True 1 cls_word @ [Lit '')'']"
  have digits: "\<forall>c \<in> set (itoa (ns_Priority n)). is_digit c" "1 \<le> length (itoa (ns_Priority n))"
    using assms show_nat_digits by (auto simp: node_ok_def itoa_def Suc_le_eq)
  have comma: "?c = [] \<or> \<not> is_digit (hd ?c)" by (simp add: is_digit_def)
  have name: "\<forall>c \<in> set (ns_Name n). cls_nonspace c" "1 \<le> length (ns_Name n)"
    using assms by (auto simp: node_ok_def name_ok_def Suc_le_eq)
  have space: "?b = [] \<or> \<not> cls_nonspace (hd ?b)" by (simp add: cls_nonspace_def cls_space_def)
  have "rx_match ?items ?c = Some (?ms, r)" using assms by (intro state_tail) (simp add: node_ok_def)
  note priority = rx_group [OF digits comma this]
  have "rx_match (Lit '' (priority '' # group True 1 is_digit @ ?items) ?b = Some ((itoa (ns_Priority n) @ ?c) # ?c # ?ms, r)"
    unfolding rx_lit by (rule priority)
  note matched = rx_group [OF name space this]
  have "rx_match reNode (''Node '' @ ns_Name n @ ?b) = Some ((ns_Name n @ ?b) # ?b # (itoa (ns_Priority n) @ ?c) # ?c # ?ms, r)"
    unfolding reNode_def rx_lit by (rule matched)
  moreover have "captures ((ns_Name n @ ?b) # ?b # (itoa (ns_Priority n) @ ?c) # ?c # ?ms) = [ns_Name n, itoa (ns_Priority n), ns_State n]"
    unfolding captures_append by simp
  ultimately show ?thesis by blast
qed

lemma skip_plain:
  "CHR ''N'' \<notin> set p \<Longrightarrow> rx_find False bol reNode (p @ t) = rx_find False True reNode t"
proof (induction p arbitrary: bol)
  case Nil
  then show ?case using rx_find_unanchored by simp
next
  case (Cons c p)
  then have "take 5 (c # p @ t) \<noteq> ''Node ''" by auto
  from rx_find_skip1 [OF rx_match_reNode_None [OF this]] show ?case using Cons by simp
qed

lemma find_node_line:
  assumes "node_ok n"
  shows "\<exists>ms. rx_find False True reNode (node_line n @ t) = Some (ms, CHR 0x0A # t) \<and>
    captures ms = [ns_Name n, itoa (ns_Priority n), ns_State n]"
proof -
  let ?n = "''Node '' @ ns_Name n @ '' (priority '' @ itoa (ns_Priority n) @ '', state '' @ ns_State n @ '')'' @ CHR 0x0A # t"
  obtain ms where ms: "rx_match reNode ?n = Some (ms, CHR 0x0A # t)" "captures ms = [ns_Name n, itoa (ns_Priority n), ns_State n]"
    using node_matches [OF assms] by blast
  have line: "node_line n @ t = ''   '' @ ?n" by (simp add: node_line_def)
  have indent: "rx_find False True reNode (''   '' @ ?n) = rx_find False True reNode ?n" by (rule skip_plain) simp
  have "rx_find False True reNode (node_line n @ t) = Some (ms, CHR 0x0A # t)"
    unfolding line indent by (rule rx_find_here [OF ms(1)])
  then show ?thesis using ms(2) by blast
qed

lemma FindAll_nodes:
  assumes "\<forall>t. rx_find False True reNode (p @ t) = rx_find False True reNode t" "\<forall>n \<in> set ns. node_ok n"
  shows "FindAllStringSubmatch reNode (p @ concat (map node_line ns)) =
    map (\<lambda>n. [ns_Name n, itoa (ns_Priority n), ns_State n]) ns"
  using assms
proof (induction ns arbitrary: p)
  case Nil
  have "rx_find False True reNode [] = None" by (simp add: rx_match_reNode_None)
  then have "rx_find False True reNode p = None" using Nil(1) append_Nil2 by metis
  then show ?case by (subst FindAllStringSubmatch.simps) simp
next
  case (Cons n ns)
  let ?t = "concat (map node_line ns)"
  obtain ms where ms: "rx_find False True reNode (node_line n @ ?t) = Some (ms, CHR 0x0A # ?t)"
    "captures ms = [ns_Name n, itoa (ns_Priority n), ns_State n]"
    using find_node_line Cons(3) by (metis list.set_intros(1))
  have "\<forall>t. rx_find False True reNode ([CHR 0x0A] @ t) = rx_find False True reNode t"
    by (intro allI skip_plain) simp
  from Cons.IH [OF this] Cons(3)
  have "FindAllStringSubmatch reNode (CHR 0x0A # ?t) = map (\<lambda>n. [ns_Name n, itoa (ns_Priority n), ns_State n]) ns" by simp
  moreover have "length (CHR 0x0A # ?t) < length (p @ node_line n @ ?t)" by (simp add: node_line_def)
  moreover have "rx_find False True reNode (p @ node_line n @ ?t) = Some (ms, CHR 0x0A # ?t)" using Cons(2) ms(1) by simp
  ultimately show ?case using ms(2) by (subst FindAllStringSubmatch.simps) simp
qed

lemma header_not_a_node: "rx_match reNode (''Node Info (current '' @ t) = None"
  by (simp add: reNode_def group_def cls_nonspace_def cls_space_def Let_def)

lemma skip_header:
  assumes "name_ok current" "state_ok state"
  shows "rx_find False True reNode ('' HA-Node Info (current '' @ current @ '', state '' @ state @ '')'' @ [CHR 0x0A] @ t) =
    rx_find False True reNode t"
proof -
  let ?s = "'' state '' @ state @ CHR '')'' # CHR 0x0A # t"
  let ?c = "current @ CHR '','' # ?s"
  have "rx_find False True reNode ('' HA-'' @ ''Node Info (current '' @ ?c) = rx_find False True reNode (''Node Info (current '' @ ?c)"
    by (rule skip_plain) simp
  also have "\<dots> = rx_find False True reNode (''ode Info (current '' @ ?c)"
    using rx_find_skip1 [OF header_not_a_node [of ?c, simplified append_Cons]] by (simp only: append_Cons)
  also have "\<dots> = rx_find False True reNode ?c" by (rule skip_plain) simp
  also have "\<dots> = rx_find False True reNode ?s" using assms(1) by (intro skip_word) (auto simp: name_ok_def)
  also have "\<dots> = rx_find False True reNode (state @ CHR '')'' # CHR 0x0A # t)" by (rule skip_plain) simp
  also have "\<dots> = rx_find False True reNode ([CHR 0x0A] @ t)"
    using assms(2) skip_word [of state] by (auto simp: state_ok_def word_nonspace)
  also have "\<dots> = rx_find False True reNode t" by (rule skip_plain) simp
  finally show ?thesis by simp
qed

lemma find_current:
  assumes "name_ok current" "state_ok state"
  shows "FindStringSubmatch False reCurrent ('' HA-Node Info (current '' @ current @ '', state '' @ state @ '')'' @ t) =
    Some [current, state]"
proof -
  let ?c = "'', state '' @ state @ '')'' @ t"
  let ?h = "''HA-Node Info (current '' @ current @ ?c"
  have name: "\<forall>c \<in> set current. c \<noteq> CHR '',''" "1 \<le> length current"
    using assms(1) by (auto simp: name_ok_def Suc_le_eq)
  have comma: "?c = [] \<or> \<not> hd ?c \<noteq> CHR '',''" by simp
  note matched = rx_group [where cls = "\<lambda>c. c \<noteq> CHR '',''", OF name comma state_tail [OF assms(2)]]
  have "rx_match reCurrent ?h = Some ([current @ ?c, ?c, state @ '')'' @ t, '')'' @ t], t)"
    unfolding reCurrent_def rx_lit by (rule matched)
  from rx_find_here [OF this]
  have "rx_find False True reCurrent ?h = Some ([current @ ?c, ?c, state @ '')'' @ t, '')'' @ t], t)" .
  moreover have "rx_find False True reCurrent (CHR '' '' # ?h) = rx_find False True reCurrent ?h"
    by (rule rx_find_skip1) (simp add: reCurrent_def)
  moreover have "captures [current @ ?c, ?c, state @ '')'' @ t, '')'' @ t] = [current, state]"
    unfolding captures_append by simp
  ultimately show ?thesis by (simp add: FindStringSubmatch_def del: captures.simps(1) rx_find.simps)
qed

lemma atoiSafe_digits:
  assumes "\<forall>c \<in> set s. is_digit c" "digits_value s < 2 ^ 63"
  shows "foldl (\<lambda>n c. wrap64 (wrap64 (n * 10) + int (digit_val c))) 0 s = int (digits_value s)"
  using assms
proof (induction s rule: rev_induct)
  case Nil
  then show ?case by (simp add: digits_value_def)
next
  case (snoc c s)
  have v: "digits_value (s @ [c]) = digits_value s * 10 + digit_val c" by (simp add: digits_value_def)
  then have "wrap64 (int (digits_value s) * 10) = int (digits_value s) * 10"
    "wrap64 (int (digits_value s) * 10 + int (digit_val c)) = int (digits_value s) * 10 + int (digit_val c)"
    using snoc(3) by (auto intro!: wrap64_id simp: is_int64_def)
  then show ?case using snoc v by simp
qed

lemma atoiSafe_itoa:
  assumes "0 \<le> p" "p < 2 ^ 63"
  shows "atoiSafe (itoa p) = p"
proof -
  have digits: "takeWhile is_digit (show_nat (nat p)) = show_nat (nat p)"
    using show_nat_digits by (simp add: takeWhile_eq_all_conv)
  have itoa: "itoa p = show_nat (nat p)" using assms(1) by (simp add: itoa_def)
  have "digits_value (show_nat (nat p)) < 2 ^ 63" using assms by simp
  from atoiSafe_digits [OF show_nat_digits this] show ?thesis
    unfolding atoiSafe_def itoa digits using assms(1) by simp
qed

text \<open>
  C19. Parsing is the inverse of heartbeat's printing: from the header and the node lines that
  heartbeat prints, with names that hold neither white space nor a comma, exactly the nodes printed
  are read, in their order and with their priorities, with the local node's name; and the role is
  the state of the header when the node list confirms it and unknown otherwise.
\<close>

theorem parse_of_printed_heartbeat:
  assumes "name_ok current" "state_ok state" "\<forall>n \<in> set nodes. node_ok n"
  shows "hs_Current (ParseHAStatus (heartbeat_text current state nodes)) = current \<and>
    hs_Nodes (ParseHAStatus (heartbeat_text current state nodes)) = nodes \<and>
    hs_Role (ParseHAStatus (heartbeat_text current state nodes)) =
      (if map ns_State (filter (\<lambda>n. ns_Name n = current) nodes) = [state] then role_of_state state else RoleUnknown)"
proof -
  let ?out = "heartbeat_text current state nodes"
  have cur: "FindStringSubmatch False reCurrent ?out = Some [current, state]"
    unfolding heartbeat_text_def using find_current assms by blast
  have "\<forall>t. rx_find False True reNode ((('' HA-Node Info (current '' @ current @ '', state '' @ state @ '')'' @ [CHR 0x0A])) @ t) =
      rx_find False True reNode t"
    using skip_header [OF assms(1,2)] by simp
  from FindAll_nodes [OF this assms(3)]
  have all: "FindAllStringSubmatch reNode ?out = map (\<lambda>n. [ns_Name n, itoa (ns_Priority n), ns_State n]) nodes"
    by (simp add: heartbeat_text_def del: FindAllStringSubmatch.simps)
  have "node_of [ns_Name n, itoa (ns_Priority n), ns_State n] = n" if "n \<in> set nodes" for n
    using assms(3) that by (auto simp: node_of_def node_ok_def atoiSafe_itoa)
  then have nodes: "map node_of (FindAllStringSubmatch reNode ?out) = nodes" unfolding all by (simp add: map_idI)
  have trim: "trim_space current = current" using assms(1) by (intro trim_space_id) (auto simp: name_ok_def)
  have "localNodeMismatch current state nodes = [] \<longleftrightarrow> map ns_State (filter (\<lambda>n. ns_Name n = current) nodes) = [state]"
    unfolding localNodeMismatch_empty by auto
  then show ?thesis unfolding ParseHAStatus_def cur by (simp add: nodes trim Let_def no_status_def del: FindAllStringSubmatch.simps)
qed

definition demo_nodes :: "NodeState list" where
  "demo_nodes = [\<lparr>ns_Name = ''cub-1'', ns_Priority = 2, ns_State = ''slave''\<rparr>, \<lparr>ns_Name = ''cub-0'', ns_Priority = 1, ns_State = ''master''\<rparr>]"

theorem parse_of_printed_heartbeat_witness:
  "hs_Nodes (ParseHAStatus (heartbeat_text ''cub-0'' ''master'' demo_nodes)) = demo_nodes \<and>
   hs_Role (ParseHAStatus (heartbeat_text ''cub-0'' ''master'' demo_nodes)) = RoleMaster"
proof -
  have "name_ok ''cub-0''" "state_ok ''master''" "\<forall>n \<in> set demo_nodes. node_ok n" by code_simp+
  moreover have "map ns_State (filter (\<lambda>n. ns_Name n = ''cub-0'') demo_nodes) = [''master'']" by code_simp
  ultimately show ?thesis using parse_of_printed_heartbeat [of "''cub-0''" "''master''" demo_nodes] by (simp add: role_of_state_def)
qed

end
