(* ===== verification/ImClient.thy ===== *)
theory ImClient
  imports ImApi Resolve Heartbeat
begin

section \<open>The operator's calls to an Instance Manager\<close>

text \<open>
  \<^verbatim>\<open>internal/controller/imclient.go\<close>: the tokens a member is called with, the call itself with its
  retries, and what is made of every answer. An error is its text with the sentinel errors that it
  wraps, which is what \<^verbatim>\<open>errors.Is\<close> sees. The transport, the API server's answer for a Secret and the
  SHA-256 of a token are arguments; an HTTP body is represented by its length and by what decoding
  it yields for each type the callers ask for. The Unicode tables are the argument \<open>printable\<close>.
\<close>

subsection \<open>Errors\<close>

datatype sentinel =
    errTokenRefused
  | errObjectStorageNotApplied
  | errStartConflict
  | errOperationInProgress
  | errStagingInUse
  | errRequestConflict
  | errOperationMissing
  | errOperationRecordUnreadable
  | errNotAnHAMember
  | errRequestRefused

fun sentinel_text :: "sentinel \<Rightarrow> string" where
  "sentinel_text errTokenRefused = ''the member refused the cluster'' @ [CHR 0x27] @ ''s Instance Manager token''"
| "sentinel_text errObjectStorageNotApplied = ''the member'' @ [CHR 0x27] @ ''s Instance Manager runs without object storage''"
| "sentinel_text errStartConflict = ''the member refused the start as a conflict''"
| "sentinel_text errOperationInProgress = ''another operation runs on the database''"
| "sentinel_text errStagingInUse = ''a running operation of another request owns the staging destination''"
| "sentinel_text errRequestConflict = ''the member holds an operation under this key for another request''"
| "sentinel_text errOperationMissing = ''the member holds no record of the operation''"
| "sentinel_text errOperationRecordUnreadable =
     ''the member'' @ [CHR 0x27] @ ''s Instance Manager holds an operation record it cannot read''"
| "sentinel_text errNotAnHAMember = ''the member is a standalone server, not an HA member''"
| "sentinel_text errRequestRefused = ''the member refused the request''"

record call_error =
  er_text :: string
  er_wraps :: "sentinel list"

definition Is :: "call_error \<Rightarrow> sentinel \<Rightarrow> bool" where
  "Is err s \<longleftrightarrow> s \<in> set (er_wraps err)"

definition plain_error :: "string \<Rightarrow> call_error" where
  "plain_error text = \<lparr>er_text = text, er_wraps = []\<rparr>"

text \<open>\<^verbatim>\<open>fmt.Errorf\<close> with a text before the error it wraps.\<close>

definition prefixed :: "string \<Rightarrow> call_error \<Rightarrow> call_error" where
  "prefixed text err = err\<lparr>er_text := text @ er_text err\<rparr>"

subsection \<open>Answers\<close>

record http_body =
  hb_length :: nat
  hb_readable :: bool
  hb_answer :: "ErrorResponse option"
  hb_operation :: "string + Operation"
  hb_operations :: "Operation list option option"
  hb_status :: "HAStatus option"

record http_response =
  rs_StatusCode :: int
  rs_RequestID :: string
  rs_Body :: "http_body option"

definition maxErrorBody :: nat where
  "maxErrorBody = 4096"

definition tokenRefused :: "int \<Rightarrow> bool" where
  "tokenRefused status \<longleftrightarrow> status = 401 \<or> status = 403"

definition is_letter :: "char \<Rightarrow> bool" where
  "is_letter c \<longleftrightarrow> \<not> ((byte c < 65 \<or> byte c > 90) \<and> (byte c < 97 \<or> byte c > 122))"

definition readErrorAnswer :: "(rune \<Rightarrow> bool) \<Rightarrow> http_response \<Rightarrow> string \<times> string" where
  "readErrorAnswer printable resp =
     (case rs_Body resp of
        None \<Rightarrow> ([], [])
      | Some b \<Rightarrow>
          if \<not> hb_readable b \<or> hb_length b > maxErrorBody then ([], [])
          else (case hb_answer b of
                  None \<Rightarrow> ([], [])
                | Some answer \<Rightarrow>
                    (if length (ers_Code answer) \<le> 64 \<and> list_all is_letter (ers_Code answer) then ers_Code answer else [],
                     cleanMessage printable (ers_Error answer))))"

definition requestRef :: "http_response \<Rightarrow> string" where
  "requestRef resp = (if rs_RequestID resp \<noteq> [] then '' (request '' @ rs_RequestID resp @ '')'' else [])"

definition describeAnswer :: "(rune \<Rightarrow> bool) \<Rightarrow> http_response \<Rightarrow> string \<times> string \<times> string" where
  "describeAnswer printable resp =
     (case readErrorAnswer printable resp of (code, msg) \<Rightarrow>
        (code, msg,
         ''status '' @ itoa (rs_StatusCode resp) @ (if code \<noteq> [] then '', '' @ code else []) @
           (if msg \<noteq> [] then '': '' @ msg else []) @ requestRef resp))"

definition runbookUnreadableRecord :: string where
  "runbookUnreadableRecord = ''Runbook: an operation record that cannot be read''"

text \<open>The errors made of one sentinel, and of a conflict with its cause, with the detail in parentheses.\<close>

definition caused :: "sentinel \<Rightarrow> string \<Rightarrow> call_error" where
  "caused s detail = \<lparr>er_text = sentinel_text s @ '' ('' @ detail @ '')'', er_wraps = [s]\<rparr>"

definition conflict_of :: "sentinel \<Rightarrow> string \<Rightarrow> call_error" where
  "conflict_of s detail =
     \<lparr>er_text = sentinel_text errStartConflict @ '': '' @ sentinel_text s @ '' ('' @ detail @ '')'',
      er_wraps = [errStartConflict, s]\<rparr>"

definition statusError :: "(rune \<Rightarrow> bool) \<Rightarrow> http_response \<Rightarrow> string \<Rightarrow> string \<Rightarrow> call_error" where
  "statusError printable resp code detail =
     (if tokenRefused (rs_StatusCode resp) then caused errTokenRefused detail
      else if rs_StatusCode resp = 412 then caused errObjectStorageNotApplied detail
      else if code = CodeOperationRecordUnreadable
      then \<lparr>er_text = sentinel_text errOperationRecordUnreadable @ '' ('' @ detail @ ''); see the runbook '' @
                     quote printable runbookUnreadableRecord @ '' in docs/observability.md'',
            er_wraps = [errOperationRecordUnreadable]\<rparr>
      else if rs_StatusCode resp \<noteq> 409 then plain_error (''unexpected '' @ detail)
      else if code = CodeOperationInProgress then conflict_of errOperationInProgress detail
      else if code = CodeStagingDestinationInUse then conflict_of errStagingInUse detail
      else if code = CodeIdempotencyConflict then conflict_of errRequestConflict detail
      else if code = CodeNotAnHAMember then conflict_of errNotAnHAMember detail
      else caused errStartConflict detail)"

definition unexpectedStatus :: "(rune \<Rightarrow> bool) \<Rightarrow> http_response \<Rightarrow> call_error" where
  "unexpectedStatus printable resp =
     (case describeAnswer printable resp of (code, _, detail) \<Rightarrow> statusError printable resp code detail)"

definition startError :: "(rune \<Rightarrow> bool) \<Rightarrow> http_response \<Rightarrow> call_error" where
  "startError printable resp =
     (let err = unexpectedStatus printable resp
      in if rs_StatusCode resp \<in> {400, 413, 422}
         then \<lparr>er_text = sentinel_text errRequestRefused @ '': '' @ er_text err, er_wraps = errRequestRefused # er_wraps err\<rparr>
         else err)"

definition instanceManagerFailureReason :: "call_error \<Rightarrow> string" where
  "instanceManagerFailureReason err =
     (if Is err errTokenRefused then reasonTokenRefused
      else if Is err errObjectStorageNotApplied then ''ObjectStorageNotApplied''
      else if Is err errOperationInProgress then ''InstanceManagerOperationInProgress''
      else if Is err errStagingInUse then ''InstanceManagerStagingInUse''
      else if Is err errRequestConflict then ''InstanceManagerRequestConflict''
      else if Is err errNotAnHAMember then ''InstanceManagerNotAnHAMember''
      else if Is err errRequestRefused then ''InstanceManagerRequestRefused''
      else if Is err errStartConflict then ''InstanceManagerConflict''
      else if Is err errOperationRecordUnreadable then ''InstanceManagerOperationRecordUnreadable''
      else ''InstanceManagerUnavailable'')"

subsection \<open>The operation of a key\<close>

fun kind_string :: "OperationKind \<Rightarrow> string" where
  "kind_string OpBackup = ''backup''"
| "kind_string OpRestore = ''restore''"
| "kind_string OpHABootstrap = ''ha-bootstrap''"
| "kind_string (KindOther s) = s"

definition operationOfKey ::
  "(rune \<Rightarrow> bool) \<Rightarrow> call_error \<Rightarrow> OperationKind \<Rightarrow> string \<Rightarrow> call_error + Operation option \<Rightarrow> call_error + Operation" where
  "operationOfKey printable err kind key answer =
     (if \<not> Is err errStartConflict \<or> Is err errOperationInProgress \<or> Is err errStagingInUse \<or> Is err errNotAnHAMember
      then Inl err
      else case answer of
             Inl lookupErr \<Rightarrow>
               Inl \<lparr>er_text = er_text err @ ''; the '' @ kind_string kind @ '' operation under the key '' @ quote printable key @
                             '' could not be looked up: '' @ er_text lookupErr,
                    er_wraps = er_wraps err @ er_wraps lookupErr\<rparr>
           | Inr None \<Rightarrow>
               Inl (err\<lparr>er_text := er_text err @ ''; the member holds no '' @ kind_string kind @ '' operation under the key '' @
                                  quote printable key\<rparr>)
           | Inr (Some op) \<Rightarrow> Inr op)"

subsection \<open>Tokens\<close>

text \<open>\<^verbatim>\<open>strings.LastIndexByte(s, '-')\<close>, as what is before and after the last dash.\<close>

definition cut_last_dash :: "string \<Rightarrow> (string \<times> string) option" where
  "cut_last_dash s =
     (if CHR ''-'' \<in> set s
      then Some (rev (tl (dropWhile (\<lambda>c. c \<noteq> CHR ''-'') (rev s))), rev (takeWhile (\<lambda>c. c \<noteq> CHR ''-'') (rev s)))
      else None)"

text \<open>\<^verbatim>\<open>strconv.ParseUint(s, 10, 32)\<close> succeeds.\<close>

definition is_uint32 :: "string \<Rightarrow> bool" where
  "is_uint32 s \<longleftrightarrow> s \<noteq> [] \<and> list_all is_digit s \<and> digits_value s < 2 ^ 32"

definition imTokenSecretName :: "string \<Rightarrow> string" where
  "imTokenSecretName cluster = cluster @ ''-im-token''"

definition imTokenKey :: string where
  "imTokenKey = ''token''"

definition imPreviousTokenKey :: string where
  "imPreviousTokenKey = ''previousToken''"

text \<open>The data of a Secret; a key that is not in it reads as the empty string.\<close>

type_synonym secret_data = "string \<Rightarrow> string"

definition ClusterTokens ::
  "(string \<Rightarrow> string \<Rightarrow> call_error + secret_data) \<Rightarrow> string \<Rightarrow> string \<Rightarrow> call_error + string list" where
  "ClusterTokens getSecret podName namespace =
     (case cut_last_dash podName of
        None \<Rightarrow> Inl (plain_error (podName @ '' is not the name of a cluster member''))
      | Some (cluster, ordinal) \<Rightarrow>
          if cluster = [] \<or> \<not> is_uint32 ordinal then Inl (plain_error (podName @ '' is not the name of a cluster member''))
          else (case getSecret (imTokenSecretName cluster) namespace of
                  Inl err \<Rightarrow> Inl (prefixed (''read the Instance Manager token of '' @ podName @ '': '') err)
                | Inr data \<Rightarrow>
                    let current = data imTokenKey; previous = data imPreviousTokenKey
                    in if current = [] then Inr []
                       else Inr (current # (if previous \<noteq> [] \<and> previous \<noteq> current then [previous] else []))))"

type_synonym token_source = "string \<Rightarrow> string \<Rightarrow> call_error + string list"

definition memberTokens :: "token_source option \<Rightarrow> string \<Rightarrow> string \<Rightarrow> call_error + string list" where
  "memberTokens tokens podName namespace =
     (case tokens of
        None \<Rightarrow> Inl (plain_error (''no Instance Manager token source for '' @ podName))
      | Some source \<Rightarrow>
          (case source podName namespace of
             Inl err \<Rightarrow> Inl err
           | Inr candidates \<Rightarrow>
               if [] \<in> set candidates then Inl (plain_error (''no Instance Manager token for '' @ podName))
               else if length candidates = 0 then Inl (plain_error (''no Instance Manager token for '' @ podName))
               else Inr candidates))"

text \<open>\<^verbatim>\<open>acceptedTokens\<close>: the fingerprint of the token each member accepted last. The token with that
  fingerprint is put first.\<close>

type_synonym 'fp accepted_tokens = "string \<Rightarrow> 'fp option"

fun index_func :: "('a \<Rightarrow> bool) \<Rightarrow> 'a list \<Rightarrow> nat option" where
  "index_func p [] = None"
| "index_func p (x # xs) = (if p x then Some 0 else map_option Suc (index_func p xs))"

definition order_tokens :: "(string \<Rightarrow> 'fp) \<Rightarrow> 'fp option \<Rightarrow> string list \<Rightarrow> string list" where
  "order_tokens fingerprint last_accepted tokens =
     (case last_accepted of
        None \<Rightarrow> tokens
      | Some last_fp \<Rightarrow>
          (case index_func (\<lambda>t. fingerprint t = last_fp) tokens of
             Some i \<Rightarrow> if i > 0 then tokens ! i # take i tokens @ drop (Suc i) tokens else tokens
           | None \<Rightarrow> tokens))"

subsection \<open>Calls\<close>

datatype im_body = NoBody | BackupBody BackupRequest | RestoreBody RestoreRequest | HABootstrapBody HABootstrapRequest

record http_request =
  rq_Method :: string
  rq_URL :: string
  rq_IdempotencyKey :: string
  rq_Body :: im_body

text \<open>The transport: \<^verbatim>\<open>c.Do\<close> of the request with an \<^verbatim>\<open>Authorization\<close> header, as the attempt of that number.\<close>

type_synonym transport = "http_request \<Rightarrow> string \<Rightarrow> nat \<Rightarrow> call_error + http_response"

definition bearer :: "string \<Rightarrow> string" where
  "bearer token = ''Bearer '' @ token"

text \<open>The loop of \<^verbatim>\<open>send\<close>: what it returns, the token that was accepted, and the tokens that were sent.\<close>

fun send_each ::
  "transport \<Rightarrow> http_request \<Rightarrow> nat \<Rightarrow> http_response option \<Rightarrow> string list \<Rightarrow>
     (call_error + http_response option) \<times> string option \<times> string list" where
  "send_each Do req i resp [] = (Inr resp, None, [])"
| "send_each Do req i resp (token # tokens) =
     (case Do req (bearer token) i of
        Inl err \<Rightarrow> (Inl err, None, [token])
      | Inr answer \<Rightarrow>
          if rs_StatusCode answer \<noteq> 401 then (Inr (Some answer), Some token, [token])
          else (case send_each Do req (Suc i) (Some answer) tokens of
                  (result, accepted, sent) \<Rightarrow> (result, accepted, token # sent)))"

definition send ::
  "(string \<Rightarrow> 'fp) \<Rightarrow> transport \<Rightarrow> http_request \<Rightarrow> string \<Rightarrow> string list \<Rightarrow> 'fp accepted_tokens \<Rightarrow>
     (call_error + http_response option) \<times> 'fp accepted_tokens" where
  "send fingerprint Do req member tokens memory =
     (case send_each Do req 0 None (order_tokens fingerprint (memory member) tokens) of
        (result, Some token, sent) \<Rightarrow> (result, memory(member \<mapsto> fingerprint token))
      | (result, None, sent) \<Rightarrow> (result, memory))"

text \<open>What a client works with: the error of a URL that \<^verbatim>\<open>http.NewRequest\<close> does not take, the transport, the
  source of tokens, the fingerprint of a token and the Unicode tables.\<close>

record 'fp im_net =
  nt_badURL :: "string \<Rightarrow> call_error option"
  nt_do :: transport
  nt_tokens :: "token_source option"
  nt_fingerprint :: "string \<Rightarrow> 'fp"
  nt_printable :: "rune \<Rightarrow> bool"

definition baseURL :: "string \<Rightarrow> string \<Rightarrow> string" where
  "baseURL podName namespace = ''http://'' @ podName @ ''.'' @ namespace @ ''.svc:9090''"

text \<open>\<^verbatim>\<open>url.QueryEscape\<close>.\<close>

definition upper_hex :: "nat \<Rightarrow> char" where
  "upper_hex d = (if d < 10 then char_of (48 + d) else char_of (55 + d))"

definition queryEscape :: "string \<Rightarrow> string" where
  "queryEscape s = concat (map (\<lambda>c.
     if is_letter c \<or> is_digit c \<or> c \<in> set ''-_.~'' then [c]
     else if c = CHR '' '' then ''+''
     else [CHR 0x25, upper_hex (byte c div 16), upper_hex (byte c mod 16)]) s)"

text \<open>\<^verbatim>\<open>do\<close>: a member that has no token is not called. \<open>send\<close> has an answer whenever there is a token, so the
  error for a missing one is never made.\<close>

definition do_call ::
  "'fp im_net \<Rightarrow> http_request \<Rightarrow> string \<Rightarrow> string \<Rightarrow> 'fp accepted_tokens \<Rightarrow>
     (call_error + http_response) \<times> 'fp accepted_tokens" where
  "do_call net req podName namespace memory =
     (case memberTokens (nt_tokens net) podName namespace of
        Inl err \<Rightarrow> (Inl err, memory)
      | Inr tokens \<Rightarrow>
          (case send (nt_fingerprint net) (nt_do net) req (namespace @ ''/'' @ podName) tokens memory of
             (Inl err, memory') \<Rightarrow> (Inl err, memory')
           | (Inr (Some resp), memory') \<Rightarrow> (Inr resp, memory')
           | (Inr None, memory') \<Rightarrow> (Inl (plain_error ''no answer''), memory')))"

definition decodeOperation :: "http_response \<Rightarrow> call_error + Operation" where
  "decodeOperation resp =
     (case rs_Body resp of
        None \<Rightarrow> Inl (plain_error ''decode operation: EOF'')
      | Some b \<Rightarrow> (case hb_operation b of Inl e \<Rightarrow> Inl (plain_error (''decode operation: '' @ e)) | Inr op \<Rightarrow> Inr op))"

text \<open>The three starts send the same kind of request and treat its answer alike.\<close>

definition start_call ::
  "'fp im_net \<Rightarrow> string \<Rightarrow> string \<Rightarrow> im_body \<Rightarrow> string \<Rightarrow> string \<Rightarrow> string \<Rightarrow> 'fp accepted_tokens \<Rightarrow>
     (call_error + Operation) \<times> 'fp accepted_tokens" where
  "start_call net what path body podName namespace idempotencyKey memory =
     (let url = baseURL podName namespace @ path;
          req = \<lparr>rq_Method = ''POST'', rq_URL = url, rq_IdempotencyKey = idempotencyKey, rq_Body = body\<rparr>;
          context = ''start '' @ what @ '' on '' @ podName @ '': ''
      in case nt_badURL net url of
           Some err \<Rightarrow> (Inl err, memory)
         | None \<Rightarrow>
             (case do_call net req podName namespace memory of
                (Inl err, memory') \<Rightarrow> (Inl (prefixed context err), memory')
              | (Inr resp, memory') \<Rightarrow>
                  (if rs_StatusCode resp \<noteq> 202 then Inl (prefixed context (startError (nt_printable net) resp))
                   else decodeOperation resp, memory')))"

definition StartBackup ::
  "'fp im_net \<Rightarrow> string \<Rightarrow> string \<Rightarrow> string \<Rightarrow> BackupRequest \<Rightarrow> 'fp accepted_tokens \<Rightarrow>
     (call_error + Operation) \<times> 'fp accepted_tokens" where
  "StartBackup net podName namespace idempotencyKey req =
     start_call net ''backup'' ''/v1/backup'' (BackupBody req) podName namespace idempotencyKey"

definition StartRestore ::
  "'fp im_net \<Rightarrow> string \<Rightarrow> string \<Rightarrow> string \<Rightarrow> RestoreRequest \<Rightarrow> 'fp accepted_tokens \<Rightarrow>
     (call_error + Operation) \<times> 'fp accepted_tokens" where
  "StartRestore net podName namespace idempotencyKey req =
     start_call net ''restore'' ''/v1/restore/prepare'' (RestoreBody req) podName namespace idempotencyKey"

definition StartHABootstrap ::
  "'fp im_net \<Rightarrow> string \<Rightarrow> string \<Rightarrow> string \<Rightarrow> HABootstrapRequest \<Rightarrow> 'fp accepted_tokens \<Rightarrow>
     (call_error + Operation) \<times> 'fp accepted_tokens" where
  "StartHABootstrap net podName namespace idempotencyKey req =
     start_call net ''HA bootstrap'' ''/v1/ha/bootstrap'' (HABootstrapBody req) podName namespace idempotencyKey"

definition get_request :: "string \<Rightarrow> http_request" where
  "get_request url = \<lparr>rq_Method = ''GET'', rq_URL = url, rq_IdempotencyKey = [], rq_Body = NoBody\<rparr>"

definition msgOperationNotFound :: string where
  "msgOperationNotFound = ''operation not found''"

definition GetOperation ::
  "'fp im_net \<Rightarrow> string \<Rightarrow> string \<Rightarrow> string \<Rightarrow> 'fp accepted_tokens \<Rightarrow> (call_error + Operation) \<times> 'fp accepted_tokens" where
  "GetOperation net podName namespace i memory =
     (let url = baseURL podName namespace @ ''/v1/operations/'' @ i;
          context = ''get operation '' @ i @ '' on '' @ podName @ '': ''
      in case nt_badURL net url of
           Some err \<Rightarrow> (Inl err, memory)
         | None \<Rightarrow>
             (case do_call net (get_request url) podName namespace memory of
                (Inl err, memory') \<Rightarrow> (Inl (prefixed context err), memory')
              | (Inr resp, memory') \<Rightarrow>
                  (if rs_StatusCode resp = 404
                   then (case describeAnswer (nt_printable net) resp of (code, msg, detail) \<Rightarrow>
                           if msg = msgOperationNotFound then Inl (prefixed context (caused errOperationMissing detail))
                           else Inl (prefixed context (statusError (nt_printable net) resp code detail)))
                   else if rs_StatusCode resp \<noteq> 200 then Inl (prefixed context (unexpectedStatus (nt_printable net) resp))
                   else decodeOperation resp, memory')))"

definition FindOperation ::
  "'fp im_net \<Rightarrow> string \<Rightarrow> string \<Rightarrow> OperationKind \<Rightarrow> string \<Rightarrow> 'fp accepted_tokens \<Rightarrow>
     (call_error + Operation option) \<times> 'fp accepted_tokens" where
  "FindOperation net podName namespace kind idempotencyKey memory =
     (let url = baseURL podName namespace @ ''/v1/operations?idempotencyKey='' @ queryEscape idempotencyKey;
          context = ''look up the '' @ kind_string kind @ '' operation on '' @ podName @ '': ''
      in case nt_badURL net url of
           Some err \<Rightarrow> (Inl err, memory)
         | None \<Rightarrow>
             (case do_call net (get_request url) podName namespace memory of
                (Inl err, memory') \<Rightarrow> (Inl (prefixed context err), memory')
              | (Inr resp, memory') \<Rightarrow>
                  (if rs_StatusCode resp \<noteq> 200 then Inl (prefixed context (unexpectedStatus (nt_printable net) resp))
                   else (case Option.bind (rs_Body resp) hb_operations of
                           Some (Some ops) \<Rightarrow> Inr (find (\<lambda>op. op_Kind op = kind) ops)
                         | _ \<Rightarrow> Inl (plain_error (context @ ''unreadable answer'' @ requestRef resp))), memory')))"

definition FindBackupOperation ::
  "'fp im_net \<Rightarrow> string \<Rightarrow> string \<Rightarrow> string \<Rightarrow> 'fp accepted_tokens \<Rightarrow>
     (call_error + Operation option) \<times> 'fp accepted_tokens" where
  "FindBackupOperation net podName namespace = FindOperation net podName namespace OpBackup"

subsection \<open>Every answer to a start has one class\<close>

text \<open>The classes of ADR-0003 as a table over the status and the code of an answer.\<close>

definition class_of_answer :: "int \<Rightarrow> string \<Rightarrow> string" where
  "class_of_answer status code =
     (if status \<in> {401, 403} then ''InstanceManagerTokenRefused''
      else if status = 412 then ''ObjectStorageNotApplied''
      else if status \<in> {400, 413, 422} then ''InstanceManagerRequestRefused''
      else if code = ''OperationRecordUnreadable'' then ''InstanceManagerOperationRecordUnreadable''
      else if status \<noteq> 409 then ''InstanceManagerUnavailable''
      else if code = ''OperationInProgress'' then ''InstanceManagerOperationInProgress''
      else if code = ''StagingDestinationInUse'' then ''InstanceManagerStagingInUse''
      else if code = ''IdempotencyConflict'' then ''InstanceManagerRequestConflict''
      else if code = ''NotAnHAMember'' then ''InstanceManagerNotAnHAMember''
      else ''InstanceManagerConflict'')"

lemmas error_defs = caused_def conflict_of_def plain_error_def Is_def

lemma unexpectedStatus_eq:
  "\<exists>detail. unexpectedStatus printable resp = statusError printable resp (fst (readErrorAnswer printable resp)) detail"
  by (auto simp: unexpectedStatus_def describeAnswer_def split: prod.split)

lemma statusError_wraps:
  "er_wraps (statusError printable resp code detail) =
     (if tokenRefused (rs_StatusCode resp) then [errTokenRefused]
      else if rs_StatusCode resp = 412 then [errObjectStorageNotApplied]
      else if code = CodeOperationRecordUnreadable then [errOperationRecordUnreadable]
      else if rs_StatusCode resp \<noteq> 409 then []
      else errStartConflict #
        (if code = CodeOperationInProgress then [errOperationInProgress]
         else if code = CodeStagingDestinationInUse then [errStagingInUse]
         else if code = CodeIdempotencyConflict then [errRequestConflict]
         else if code = CodeNotAnHAMember then [errNotAnHAMember] else []))"
  by (simp add: statusError_def error_defs)

lemma startError_wraps:
  "er_wraps (startError printable resp) =
     (if rs_StatusCode resp \<in> {400, 413, 422} then [errRequestRefused] else []) @
     er_wraps (statusError printable resp (fst (readErrorAnswer printable resp)) [])"
proof -
  obtain detail where "unexpectedStatus printable resp = statusError printable resp (fst (readErrorAnswer printable resp)) detail"
    using unexpectedStatus_eq by blast
  then show ?thesis by (simp add: startError_def Let_def statusError_wraps)
qed

text \<open>
  C16. Every answer to a start other than 202 falls into exactly the class that the table gives for
  its status and code, whatever its body is; and the request itself counts as refused, which uses up
  an attempt, exactly for the statuses 400, 413 and 422.
\<close>

theorem start_answers_are_classified_by_the_table:
  "instanceManagerFailureReason (startError printable resp) =
     class_of_answer (rs_StatusCode resp) (fst (readErrorAnswer printable resp)) \<and>
   (Is (startError printable resp) errRequestRefused \<longleftrightarrow> rs_StatusCode resp \<in> {400, 413, 422})"
  unfolding instanceManagerFailureReason_def Is_def startError_wraps statusError_wraps class_of_answer_def
    code_defs tokenRefused_def reasonTokenRefused_def
  by auto

subsection \<open>A member is called with its own tokens\<close>

lemma index_func_Some:
  "index_func p xs = Some i \<Longrightarrow> i < length xs \<and> p (xs ! i) \<and> (\<forall>j < i. \<not> p (xs ! j))"
proof (induction xs arbitrary: i)
  case (Cons x xs)
  then show ?case by (cases i) (auto simp: nth_Cons split: if_splits nat.splits)
qed simp

lemma set_order_tokens: "set (order_tokens fingerprint lst tokens) = set tokens"
proof -
  have "set (tokens ! i # take i tokens @ drop (Suc i) tokens) = set tokens" if "i < length tokens" for i
    using id_take_nth_drop [OF that] by (metis (no_types) list.set(2) set_append Un_insert_right list.simps(15))
  then show ?thesis
    by (auto simp: order_tokens_def dest!: index_func_Some split: option.split)
qed

lemma send_each_shape:
  assumes "send_each Do req i resp tokens = (result, accepted, sent)" "tokens \<noteq> []"
  shows "\<exists>refused token rest. tokens = refused @ token # rest \<and> sent = refused @ [token] \<and>
    (\<forall>k < length refused. \<exists>a. Do req (bearer (refused ! k)) (i + k) = Inr a \<and> rs_StatusCode a = 401) \<and>
    (case Do req (bearer token) (i + length refused) of
       Inl err \<Rightarrow> result = Inl err \<and> accepted = None
     | Inr answer \<Rightarrow> result = Inr (Some answer) \<and>
         (if rs_StatusCode answer = 401 then accepted = None \<and> rest = [] else accepted = Some token))"
  using assms
proof (induction tokens arbitrary: i resp result accepted sent)
  case (Cons t ts)
  show ?case
  proof (cases "Do req (bearer t) i")
    case (Inl err)
    then show ?thesis using Cons(2) by - (rule exI [of _ "[]"], rule exI [of _ t], rule exI [of _ ts], auto)
  next
    case (Inr answer)
    show ?thesis
    proof (cases "rs_StatusCode answer = 401 \<and> ts \<noteq> []")
      case False
      then show ?thesis using Cons(2) Inr
        by - (rule exI [of _ "[]"], rule exI [of _ t], rule exI [of _ ts], auto split: if_splits)
    next
      case True
      obtain sent' where next': "send_each Do req (Suc i) (Some answer) ts = (result, accepted, sent')" "sent = t # sent'"
        using Cons(2) Inr True by (auto split: prod.splits)
      obtain refused token rest where ih: "ts = refused @ token # rest" "sent' = refused @ [token]"
        "\<forall>k < length refused. \<exists>a. Do req (bearer (refused ! k)) (Suc i + k) = Inr a \<and> rs_StatusCode a = 401"
        "case Do req (bearer token) (Suc i + length refused) of
           Inl err \<Rightarrow> result = Inl err \<and> accepted = None
         | Inr answer \<Rightarrow> result = Inr (Some answer) \<and>
             (if rs_StatusCode answer = 401 then accepted = None \<and> rest = [] else accepted = Some token)"
        using Cons(1) [OF next'(1)] True by blast
      have "\<exists>a. Do req (bearer ((t # refused) ! k)) (i + k) = Inr a \<and> rs_StatusCode a = 401"
        if "k < length (t # refused)" for k
        using ih(3) that Inr True by (cases k) auto
      then show ?thesis using ih next'(2)
        by - (rule exI [of _ "t # refused"], rule exI [of _ token], rule exI [of _ rest], auto)
    qed
  qed
qed simp

text \<open>
  The tokens of a member are sent one after the other, the one it accepted last time first,
  until one is accepted: every token sent before the last was answered 401, what is returned is the
  answer or the error of the last, a 401 is returned only when every token was refused, and the
  memory of the member changes exactly to the token that was accepted.
\<close>

theorem send_tries_the_tokens_until_one_is_accepted:
  assumes "tokens \<noteq> []" "send fingerprint Do req member tokens memory = (result, memory')"
  shows "\<exists>refused token rest. order_tokens fingerprint (memory member) tokens = refused @ token # rest \<and>
    set (refused @ token # rest) = set tokens \<and>
    (\<forall>k < length refused. \<exists>a. Do req (bearer (refused ! k)) k = Inr a \<and> rs_StatusCode a = 401) \<and>
    (case Do req (bearer token) (length refused) of
       Inl err \<Rightarrow> result = Inl err \<and> memory' = memory
     | Inr answer \<Rightarrow> result = Inr (Some answer) \<and>
         (if rs_StatusCode answer = 401 then memory' = memory \<and> rest = []
          else memory' = memory(member \<mapsto> fingerprint token)))"
proof -
  let ?ts = "order_tokens fingerprint (memory member) tokens"
  obtain accepted sent where each: "send_each Do req 0 None ?ts = (result, accepted, sent)"
    and mem: "memory' = (case accepted of None \<Rightarrow> memory | Some t \<Rightarrow> memory(member \<mapsto> fingerprint t))"
    using assms(2) by (auto simp: send_def split: prod.splits option.splits)
  have ne: "?ts \<noteq> []" using assms(1) set_order_tokens by (metis set_empty)
  obtain refused token rest where sh: "?ts = refused @ token # rest"
    "\<forall>k < length refused. \<exists>a. Do req (bearer (refused ! k)) k = Inr a \<and> rs_StatusCode a = 401"
    "case Do req (bearer token) (length refused) of
       Inl err \<Rightarrow> result = Inl err \<and> accepted = None
     | Inr answer \<Rightarrow> result = Inr (Some answer) \<and>
         (if rs_StatusCode answer = 401 then accepted = None \<and> rest = [] else accepted = Some token)"
    using send_each_shape [OF each ne] by auto
  have "set (refused @ token # rest) = set tokens" using sh(1) set_order_tokens by metis
  moreover have "case Do req (bearer token) (length refused) of
       Inl err \<Rightarrow> result = Inl err \<and> memory' = memory
     | Inr answer \<Rightarrow> result = Inr (Some answer) \<and>
         (if rs_StatusCode answer = 401 then memory' = memory \<and> rest = []
          else memory' = memory(member \<mapsto> fingerprint token))"
    using sh(3) mem by (auto split: sum.splits if_splits)
  ultimately show ?thesis using sh(1,2) by blast
qed

text \<open>A rotation: the member still holds the previous token, accepts it after refusing the current one, and is
  asked with it first the next time.\<close>

definition demo_member_with_old_token :: transport where
  "demo_member_with_old_token req auth n =
     Inr \<lparr>rs_StatusCode = (if auth = ''Bearer old'' then 200 else 401), rs_RequestID = [], rs_Body = None\<rparr>"

theorem send_tries_the_tokens_until_one_is_accepted_witness:
  "let r = send id demo_member_with_old_token (get_request []) ''ns/c-0'' [''new'', ''old''] Map.empty
   in snd r ''ns/c-0'' = Some ''old'' \<and>
      order_tokens id (snd r ''ns/c-0'') [''new'', ''old''] = [''old'', ''new''] \<and>
      (\<exists>refused token rest. [''new'', ''old''] = refused @ token # rest \<and>
         (case demo_member_with_old_token (get_request []) (bearer token) (length refused) of
            Inl err \<Rightarrow> False | Inr answer \<Rightarrow> fst r = Inr (Some answer)))"
proof -
  let ?r = "send id demo_member_with_old_token (get_request []) ''ns/c-0'' [''new'', ''old''] Map.empty"
  have r: "?r = (fst ?r, snd ?r)" by simp
  have "snd ?r ''ns/c-0'' = Some ''old''"
    "order_tokens id (Some ''old'') [''new'', ''old''] = [''old'', ''new'']"
    by (simp_all add: send_def order_tokens_def demo_member_with_old_token_def bearer_def)
  moreover have "\<exists>refused token rest. [''new'', ''old''] = refused @ token # rest \<and>
      (case demo_member_with_old_token (get_request []) (bearer token) (length refused) of
         Inl err \<Rightarrow> False | Inr answer \<Rightarrow> fst ?r = Inr (Some answer))"
    using send_tries_the_tokens_until_one_is_accepted [OF _ r]
    by (fastforce simp: order_tokens_def demo_member_with_old_token_def split: if_splits)
  ultimately show ?thesis by (simp add: Let_def)
qed

lemma cut_last_dash_member:
  assumes "list_all is_digit n"
  shows "cut_last_dash (cluster @ ''-'' @ n) = Some (cluster, n)"
proof -
  have "\<forall>c \<in> set (rev n). c \<noteq> CHR ''-''" using assms by (auto simp: list_all_iff is_digit_def)
  then have "takeWhile (\<lambda>c. c \<noteq> CHR ''-'') (rev n @ CHR ''-'' # rev cluster) = rev n"
    "dropWhile (\<lambda>c. c \<noteq> CHR ''-'') (rev n @ CHR ''-'' # rev cluster) = CHR ''-'' # rev cluster"
    by (simp_all add: takeWhile_append dropWhile_append)
  then show ?thesis by (simp add: cut_last_dash_def)
qed

text \<open>
  The members of a cluster are asked with that cluster's tokens and no other: for a name that
  the cluster gives its members, the Secret that is read is the cluster's own, whatever dashes and
  digits the cluster's name has, and the tokens are the current one and, during a rotation, the
  previous one after it.
\<close>

theorem ClusterTokens_reads_the_members_own_secret:
  assumes "cluster \<noteq> []" "count \<le> 2 ^ 32" "m \<in> set (memberNames cluster count)"
    and "getSecret (cluster @ ''-im-token'') namespace = Inr data" "data ''token'' \<noteq> []"
  shows "ClusterTokens getSecret m namespace =
    Inr (if data ''previousToken'' \<in> {[], data ''token''} then [data ''token''] else [data ''token'', data ''previousToken''])"
proof -
  obtain i where i: "i < count" "m = cluster @ ''-'' @ show_nat i"
    using assms(3) by (auto simp: memberNames_def)
  have digits: "list_all is_digit (show_nat i)" using show_nat_digits by (simp add: list_all_iff)
  have "is_uint32 (show_nat i)" using i(1) assms(2) digits by (simp add: is_uint32_def)
  then show ?thesis
    using assms(1,4,5) cut_last_dash_member [OF digits, of cluster]
    by (auto simp: ClusterTokens_def i(2) imTokenSecretName_def imTokenKey_def imPreviousTokenKey_def Let_def)
qed

theorem ClusterTokens_reads_the_members_own_secret_witness:
  "ClusterTokens (\<lambda>s n. if s = ''a-1-im-token'' then Inr (\<lambda>k. if k = ''token'' then ''t'' else []) else Inl (plain_error ''other''))
     ''a-1-0'' ''ns'' = Inr [''t'']"
proof -
  have "''a-1-0'' \<in> set (memberNames ''a-1'' 1)" by code_simp
  from ClusterTokens_reads_the_members_own_secret [OF _ _ this,
      of "\<lambda>s n. if s = ''a-1-im-token'' then Inr (\<lambda>k. if k = ''token'' then ''t'' else []) else Inl (plain_error ''other'')" "''ns''"
        "\<lambda>k. if k = ''token'' then ''t'' else []"]
  show ?thesis by simp
qed

end
