(* ===== verification/Probe.thy ===== *)
theory Probe
  imports ImClient
begin

section \<open>Observing a member's role\<close>

text \<open>
  \<^verbatim>\<open>internal/controller/roleprober.go\<close>: one query of a member's role, and what is made of the answer. The
  request ID that the query was given and the time of the answer are arguments.
\<close>

definition UnfinishedWaiting :: string where
  "UnfinishedWaiting = ''WaitingForOperation''"

definition unfinishedFromStatus ::
  "(rune \<Rightarrow> bool) \<Rightarrow> UnfinishedDatabase option \<Rightarrow> InstanceUnfinishedDatabase option" where
  "unfinishedFromStatus printable u0 =
     (case u0 of
        None \<Rightarrow> None
      | Some u \<Rightarrow>
          Some \<lparr>ud_Database = cleanMessage printable (un_Database u), ud_Operation = cleanMessage printable (un_Operation u),
                ud_State = (if un_State u = UnfinishedWaiting then UnfinishedWaitingForOperation else UnfinishedRefused),
                ud_Message = cleanMessage printable (un_Reason u)\<rparr>)"

text \<open>The loop over the node list: whether the list contradicts the role, how many entries the local node
  has, and whether all of them say master.\<close>

definition node_list_contradicts :: "HAStatus \<Rightarrow> bool" where
  "node_list_contradicts st \<longleftrightarrow>
     (\<exists>n \<in> set (hs_Nodes st).
        ns_Name n = hs_Current st \<and> ns_State n \<noteq> role_string (hs_Role st) \<or>
        ns_Name n \<noteq> hs_Current st \<and> hs_Role st = RoleMaster \<and> ns_State n = ''master'')"

definition local_entries :: "HAStatus \<Rightarrow> NodeState list" where
  "local_entries st = filter (\<lambda>n. ns_Name n = hs_Current st) (hs_Nodes st)"

definition observationFromStatus :: "(rune \<Rightarrow> bool) \<Rightarrow> HAStatus \<Rightarrow> time \<Rightarrow> RoleObservation" where
  "observationFromStatus printable st at =
     (let base = zero_observation\<lparr>ob_Reachable := True, ob_Role := hs_Role st, ob_ObservedAt := at,
                   ob_EngineVersion := hs_EngineVersion st, ob_Unfinished := unfinishedFromStatus printable (hs_Unfinished st)\<rparr>
      in if hs_Role st \<noteq> RoleMaster \<and> hs_Role st \<noteq> RoleSlave
         then (if hs_Role st = RoleUnknown \<or> hs_Role st = RoleOther []
               then base\<lparr>ob_Reason := ''the Instance Manager reported no role'' @
                      (let why = cleanMessage printable (hs_Reason st) in if why \<noteq> [] then '': '' @ why else [])\<rparr>
               else base)
         else
           let replication =
                 (case hs_Replication st of
                    Some r \<Rightarrow>
                      if hs_Role st = RoleSlave \<and> ac_Available r
                      then Some \<lparr>ro_Source = ac_Source r, ro_AppliedChanges = ac_AppliedChanges r, ro_FailCount = ac_FailCount r,
                                 ro_DelayedPages = ac_DelayedPageCount r, ro_Applier = ac_Applier r,
                                 ro_FinalLSA = logAddress (ac_FinalLSA r), ro_CopiedEOF = logAddress (ac_CopiedEOF r),
                                 ro_SourceLogEnd = None\<rparr>
                      else None
                  | None \<Rightarrow> None);
               notYetActive = (hs_Role st = RoleMaster \<and> \<not> hs_ServerActive st);
               contradicts = node_list_contradicts st
           in base\<lparr>ob_Replication := replication,
                   ob_LogEnd := (if hs_Role st = RoleMaster then logAddress (hs_LogEnd st) else None),
                   ob_ActiveMasterClaim :=
                     (hs_Role st = RoleMaster \<and> hs_ServerActive st \<and> hs_Current st \<noteq> [] \<and> length (local_entries st) = 1 \<and>
                      list_all (\<lambda>n. ns_State n = ''master'') (local_entries st)),
                   ob_Conflicting := (notYetActive \<or> contradicts),
                   ob_MasterNotYetActive := (notYetActive \<and> \<not> contradicts),
                   ob_Reason :=
                     (if contradicts then ''the role '' @ role_string (hs_Role st) @ '' contradicts the HA node list''
                      else if notYetActive then ''a master whose server is not registered_and_active'' else [])\<rparr>)"

definition unreachable :: "time \<Rightarrow> string \<Rightarrow> string \<Rightarrow> RoleObservation" where
  "unreachable at reason i = zero_observation\<lparr>ob_ObservedAt := at, ob_Reason := reason, ob_RequestID := i\<rparr>"

definition role_url :: "string \<Rightarrow> string \<Rightarrow> string" where
  "role_url podName namespace = baseURL podName namespace @ ''/v1/role''"

text \<open>What is made of the answer of the member that was asked.\<close>

definition observed_answer :: "(rune \<Rightarrow> bool) \<Rightarrow> string \<Rightarrow> string \<Rightarrow> time \<Rightarrow> http_response \<Rightarrow> RoleObservation" where
  "observed_answer printable podName i at resp =
     (if rs_StatusCode resp \<noteq> 200
      then (unreachable at (''status '' @ itoa (rs_StatusCode resp)) i)\<lparr>ob_TokenRefused := tokenRefused (rs_StatusCode resp)\<rparr>
      else case Option.bind (rs_Body resp) hb_status of
             None \<Rightarrow> (unreachable at ''unreadable answer'' i)\<lparr>ob_Reachable := True, ob_Role := RoleUnknown\<rparr>
           | Some st \<Rightarrow>
               let o1 = (observationFromStatus printable st at)\<lparr>ob_RequestID := i\<rparr>;
                   o2 = (if hs_Current st \<noteq> podName then o1\<lparr>ob_ActiveMasterClaim := False\<rparr> else o1)
               in if hs_Current st \<noteq> [] \<and> hs_Current st \<noteq> podName
                  then o2\<lparr>ob_Conflicting := True, ob_MasterNotYetActive := False,
                          ob_Reason := ''the answer names the member '' @ cleanMessage printable (hs_Current st)\<rparr>
                  else o2)"

definition ProbeRole ::
  "'fp im_net \<Rightarrow> string \<Rightarrow> time \<Rightarrow> string \<Rightarrow> string \<Rightarrow> 'fp accepted_tokens \<Rightarrow> RoleObservation \<times> 'fp accepted_tokens" where
  "ProbeRole net i at podName namespace memory =
     (let url = role_url podName namespace; clean = cleanMessage (nt_printable net)
      in case nt_badURL net url of
           Some err \<Rightarrow> (unreachable at (clean (er_text err)) [], memory)
         | None \<Rightarrow>
             (case memberTokens (nt_tokens net) podName namespace of
                Inl err \<Rightarrow> (unreachable at (clean (er_text err)) [], memory)
              | Inr tokens \<Rightarrow>
                  (case send (nt_fingerprint net) (nt_do net) (get_request url) (namespace @ ''/'' @ podName) tokens memory of
                     (Inl err, memory') \<Rightarrow> (unreachable at (clean (er_text err)) i, memory')
                   | (Inr None, memory') \<Rightarrow> (unreachable at [] i, memory')
                   | (Inr (Some resp), memory') \<Rightarrow> (observed_answer (nt_printable net) podName i at resp, memory'))))"

definition AcceptsToken :: "'fp im_net \<Rightarrow> string \<Rightarrow> string \<Rightarrow> string \<Rightarrow> call_error + bool" where
  "AcceptsToken net podName namespace token =
     (let url = role_url podName namespace
      in case nt_badURL net url of
           Some err \<Rightarrow> Inl err
         | None \<Rightarrow>
             (case nt_do net (get_request url) (bearer token) 0 of
                Inl err \<Rightarrow> Inl (prefixed (''ask '' @ podName @ '' about its token: '') err)
              | Inr resp \<Rightarrow> Inr (rs_StatusCode resp \<noteq> 401)))"

subsection \<open>What a trusted observation says of the answer\<close>

lemma observation_fields:
  assumes "hs_Role st = RoleMaster \<or> hs_Role st = RoleSlave"
  shows "ob_Conflicting (observationFromStatus printable st at) \<longleftrightarrow>
      hs_Role st = RoleMaster \<and> \<not> hs_ServerActive st \<or> node_list_contradicts st"
    and "ob_Replication (observationFromStatus printable st at) \<noteq> None \<longrightarrow> hs_Role st = RoleSlave"
  using assms by (auto simp: observationFromStatus_def Let_def zero_observation_def split: option.splits)

lemma observation_role [simp]: "ob_Role (observationFromStatus printable st at) = hs_Role st"
  by (simp add: observationFromStatus_def Let_def)

text \<open>An observation that is trusted was made of an answer of the member itself.\<close>

lemma authoritative_answer:
  assumes "authoritative (observed_answer printable m i at resp) now"
  obtains st where "rs_StatusCode resp = 200" "Option.bind (rs_Body resp) hb_status = Some st"
    "hs_Current st \<in> {[], m}" "ob_Role (observed_answer printable m i at resp) = hs_Role st"
    "\<not> ob_Conflicting (observationFromStatus printable st at)"
proof -
  have "rs_StatusCode resp = 200"
    using assms by (rule_tac ccontr) (simp add: authoritative_def observed_answer_def unreachable_def zero_observation_def)
  moreover obtain st where "Option.bind (rs_Body resp) hb_status = Some st"
    using assms calculation
    by (cases "Option.bind (rs_Body resp) hb_status") (auto simp: authoritative_def observed_answer_def unreachable_def)
  ultimately show thesis
    using assms that by (auto simp: authoritative_def observed_answer_def Let_def split: if_splits)
qed

text \<open>
  C15. From the members' answers to the primary: when the roles observed from the answers of the
  members resolve a primary, that member answered under its own name, or with no name, as a master
  whose server is active, its own node list names no other master and never itself as anything else,
  and every other member answered with a role that is not master.
\<close>

theorem resolved_primary_answered_as_the_only_master:
  assumes "list_all (\<lambda>m. obs m = Some (observed_answer printable m (ids m) (at m) (answers m))) members"
    and "pr_Status (resolvePrimary members obs now) = ConditionTrue"
  shows "\<exists>p st. pr_CurrentPrimary (resolvePrimary members obs now) = p \<and> p \<in> set members \<and>
    Option.bind (rs_Body (answers p)) hb_status = Some st \<and> hs_Current st \<in> {[], p} \<and>
    hs_Role st = RoleMaster \<and> hs_ServerActive st \<and>
    list_all (\<lambda>n. (ns_State n = ''master'') = (ns_Name n = hs_Current st)) (hs_Nodes st) \<and>
    list_all (\<lambda>m. m = p \<or> (\<exists>st'. Option.bind (rs_Body (answers m)) hb_status = Some st' \<and> hs_Current st' \<in> {[], m} \<and>
                hs_Role st' \<notin> {RoleMaster, RoleUnknown, RoleOther []})) members"
proof -
  let ?ob = "\<lambda>m. observed_answer printable m (ids m) (at m) (answers m)"
  obtain p where all: "\<forall>m \<in> set members. observed obs now m"
    and p: "filter (observed_master obs now) members = [p]" "pr_CurrentPrimary (resolvePrimary members obs now) = p"
    using assms(2) resolved_iff by blast
  have ob: "obs m = Some (?ob m) \<and> authoritative (?ob m) now" if "m \<in> set members" for m
    using assms(1) all that by (auto simp: list_all_iff observed_def obs_of_def)
  have om: "observed_master obs now m \<longleftrightarrow> ob_Role (?ob m) = RoleMaster" if "m \<in> set members" for m
    using ob [OF that] by (simp add: observed_master_def observed_def obs_of_def)
  have one: "m \<in> set members \<and> observed_master obs now m \<longleftrightarrow> m = p" for m
  proof -
    have "{m \<in> set members. observed_master obs now m} = {p}" using arg_cong [OF p(1), of set] by simp
    then show ?thesis by blast
  qed
  have pm: "p \<in> set members" "ob_Role (?ob p) = RoleMaster" using one [of p] om by blast+
  have others: "ob_Role (?ob m) \<noteq> RoleMaster" if "m \<in> set members" "m \<noteq> p" for m using one [of m] om that by blast
  obtain st where st: "Option.bind (rs_Body (answers p)) hb_status = Some st" "hs_Current st \<in> {[], p}"
    "ob_Role (?ob p) = hs_Role st" "\<not> ob_Conflicting (observationFromStatus printable st (at p))"
    using ob [OF pm(1)] authoritative_answer by metis
  have role: "hs_Role st = RoleMaster" using st(3) pm(2) by simp
  then have active: "hs_ServerActive st" "\<not> node_list_contradicts st"
    using observation_fields(1) [of st printable "at p"] st(4) by auto
  have "list_all (\<lambda>n. (ns_State n = ''master'') = (ns_Name n = hs_Current st)) (hs_Nodes st)"
    using active(2) role unfolding node_list_contradicts_def list_all_iff by (auto simp: role_string_def)
  moreover have "\<exists>st'. Option.bind (rs_Body (answers m)) hb_status = Some st' \<and> hs_Current st' \<in> {[], m} \<and>
      hs_Role st' \<notin> {RoleMaster, RoleUnknown, RoleOther []}" if m: "m \<in> set members" "m \<noteq> p" for m
  proof -
    obtain st' where st': "Option.bind (rs_Body (answers m)) hb_status = Some st'" "hs_Current st' \<in> {[], m}"
      "ob_Role (?ob m) = hs_Role st'"
      using ob [OF m(1)] authoritative_answer by metis
    have "ob_Role (?ob m) \<noteq> RoleUnknown" "ob_Role (?ob m) \<noteq> RoleOther []"
      using ob [OF m(1)] by (auto simp: authoritative_def split: if_splits)
    then show ?thesis using st' others [OF m] by auto
  qed
  ultimately show ?thesis using p(2) pm(1) st(1,2) role active(1) unfolding list_all_iff by blast
qed

definition demo_answers :: "string \<Rightarrow> http_response" where
  "demo_answers m =
     \<lparr>rs_StatusCode = 200, rs_RequestID = [],
      rs_Body = Some \<lparr>hb_length = 99, hb_readable = True, hb_answer = None, hb_operation = Inl [], hb_operations = None,
        hb_status = Some (no_status\<lparr>hs_Current := m, hs_Role := (if m = ''c-0'' then RoleMaster else RoleSlave),
          hs_ServerActive := True, hs_Nodes := [\<lparr>ns_Name = ''c-0'', ns_Priority = 1, ns_State = ''master''\<rparr>,
            \<lparr>ns_Name = ''c-1'', ns_Priority = 2, ns_State = ''slave''\<rparr>]\<rparr>)\<rparr>\<rparr>"

definition demo_probed :: observations where
  "demo_probed m = Some (observed_answer (\<lambda>_. False) m [] 5 (demo_answers m))"

theorem resolved_primary_answered_as_the_only_master_witness:
  "pr_CurrentPrimary (resolvePrimary [''c-0'', ''c-1''] demo_probed 8) = ''c-0'' \<and>
   (\<exists>st. Option.bind (rs_Body (demo_answers ''c-0'')) hb_status = Some st \<and> hs_Role st = RoleMaster \<and> hs_ServerActive st)"
proof -
  have all: "list_all (\<lambda>m. demo_probed m = Some (observed_answer (\<lambda>_. False) m [] 5 (demo_answers m))) [''c-0'', ''c-1'']"
    by (simp add: demo_probed_def)
  have res: "pr_Status (resolvePrimary [''c-0'', ''c-1''] demo_probed 8) = ConditionTrue"
    "pr_CurrentPrimary (resolvePrimary [''c-0'', ''c-1''] demo_probed 8) = ''c-0''" by code_simp+
  from resolved_primary_answered_as_the_only_master [OF all res(1)] res(2) show ?thesis by auto
qed

end
