(* ===== verification/GoPath.thy ===== *)
theory GoPath
  imports Prelude
begin

section \<open>Slash-separated paths\<close>

text \<open>
  \<^verbatim>\<open>path\<close> and, as it is on Linux, \<^verbatim>\<open>path/filepath\<close>: \<open>Clean\<close>, \<open>Base\<close>, \<open>Dir\<close>, \<open>Join\<close> and \<open>IsAbs\<close>, which the
  sources use to keep every path a request names inside the directories of the manager. The facts
  at the end are what the confinement proofs need: a clean path is made of its elements, and
  joining one plain element to a clean directory stays directly below it.
\<close>

abbreviation slash :: char where
  "slash \<equiv> CHR 0x2F"

definition IsAbs :: "string \<Rightarrow> bool" where
  "IsAbs p \<longleftrightarrow> p \<noteq> [] \<and> hd p = slash"

text \<open>\<^verbatim>\<open>strings.Split(s, c)\<close> for a separator of one character.\<close>

fun split_on :: "char \<Rightarrow> string \<Rightarrow> string list" where
  "split_on c [] = [[]]"
| "split_on c (x # xs) =
     (if x = c then [] # split_on c xs else (case split_on c xs of [] \<Rightarrow> [[x]] | p # ps \<Rightarrow> (x # p) # ps))"

abbreviation split_slash :: "string \<Rightarrow> string list" where
  "split_slash \<equiv> split_on slash"

text \<open>One element of a path, taken in by \<^verbatim>\<open>Clean\<close> that has the elements \<open>out\<close>, the last one first.\<close>

definition clean_step :: "bool \<Rightarrow> string list \<Rightarrow> string \<Rightarrow> string list" where
  "clean_step rooted out e =
     (if e = [] \<or> e = ''.'' then out
      else if e = ''..''
      then (case out of
              [] \<Rightarrow> if rooted then [] else [e]
            | o1 # os \<Rightarrow> if o1 = ''..'' then e # out else os)
      else e # out)"

definition clean_elements :: "bool \<Rightarrow> string list \<Rightarrow> string list" where
  "clean_elements rooted es = rev (foldl (clean_step rooted) [] es)"

definition Clean :: "string \<Rightarrow> string" where
  "Clean p =
     (if p = [] then ''.''
      else let out = join [slash] (clean_elements (IsAbs p) (split_slash p))
           in if IsAbs p then slash # out else if out = [] then ''.'' else out)"

text \<open>What is before the last slash with it, and what is after it.\<close>

definition split_last :: "string \<Rightarrow> string \<times> string" where
  "split_last p = (rev (dropWhile (\<lambda>c. c \<noteq> slash) (rev p)), rev (takeWhile (\<lambda>c. c \<noteq> slash) (rev p)))"

definition Base :: "string \<Rightarrow> string" where
  "Base p =
     (if p = [] then ''.''
      else let stripped = rev (dropWhile (\<lambda>c. c = slash) (rev p))
           in if stripped = [] then [slash] else snd (split_last stripped))"

definition Dir :: "string \<Rightarrow> string" where
  "Dir p = Clean (fst (split_last p))"

definition Join :: "string list \<Rightarrow> string" where
  "Join es = (let ne = filter (\<lambda>e. e \<noteq> []) es in if ne = [] then [] else Clean (join [slash] ne))"

subsection \<open>Splitting and joining\<close>

text \<open>An element that a clean path can have besides \<^verbatim>\<open>..\<close>.\<close>

definition plain_element :: "string \<Rightarrow> bool" where
  "plain_element e \<longleftrightarrow> e \<noteq> [] \<and> e \<noteq> ''.'' \<and> e \<noteq> ''..'' \<and> slash \<notin> set e"

lemma split_on_nonempty [simp]: "split_on c s \<noteq> []"
  by (induction s) (auto split: list.split)

lemma split_on_none: "c \<notin> set s \<Longrightarrow> split_on c s = [s]"
  by (induction s) auto

lemma split_on_append: "split_on c (s @ c # t) = split_on c s @ split_on c t"
proof (induction s)
  case (Cons x s)
  then show ?case by (cases "split_on c s") auto
qed simp

lemma split_on_elements: "p \<in> set (split_on c s) \<Longrightarrow> c \<notin> set p"
  by (induction s arbitrary: p) (auto split: list.splits if_splits)

lemma split_on_chars: "p \<in> set (split_on c s) \<Longrightarrow> set p \<subseteq> set s"
  by (induction s arbitrary: p) (fastforce split: list.splits if_splits)+

lemmas split_slash_no_slash = split_on_none [of slash]

lemma split_slash_cons: "slash \<notin> set e \<Longrightarrow> split_slash (e @ slash # p) = e # split_slash p"
  by (simp add: split_on_append split_on_none)

lemmas split_slash_append = split_on_append [of slash]

lemmas split_slash_elements = split_on_elements [of _ slash]

lemma join_split_slash: "join [slash] (split_slash p) = p"
proof (induction p)
  case (Cons c p)
  then show ?case by (cases "split_slash p" rule: list.exhaust; cases "tl (split_slash p)") (auto split: list.split)
qed simp

lemma join_snoc: "es \<noteq> [] \<Longrightarrow> join sep (es @ [e]) = join sep es @ sep @ e"
  by (induction sep es rule: join.induct) auto

lemma split_slash_join:
  "es \<noteq> [] \<Longrightarrow> \<forall>e \<in> set es. slash \<notin> set e \<Longrightarrow> split_slash (join [slash] es) = es"
  by (induction "[slash]" es rule: join.induct) (auto simp: split_slash_no_slash split_slash_cons)

lemma clean_elements_snoc:
  "plain_element e \<Longrightarrow> clean_elements rooted (es @ [e]) = clean_elements rooted es @ [e]"
  by (simp add: clean_elements_def clean_step_def plain_element_def)

text \<open>A rooted clean path has plain elements only, and cleaning them changes nothing.\<close>

lemma clean_step_rooted:
  "list_all plain_element out \<Longrightarrow> slash \<notin> set e \<Longrightarrow> list_all plain_element (clean_step True out e)"
  by (auto simp: clean_step_def plain_element_def split: list.split)

lemma clean_elements_rooted_plain:
  assumes "\<forall>e \<in> set es. slash \<notin> set e"
  shows "list_all plain_element (clean_elements True es)"
proof -
  have "list_all plain_element (foldl (clean_step True) out es)" if "list_all plain_element out" for out
    using assms that by (induction es arbitrary: out) (auto simp: clean_step_rooted)
  from this [of "[]"] show ?thesis by (simp add: clean_elements_def list_all_rev)
qed

lemma clean_elements_plain: "list_all plain_element es \<Longrightarrow> clean_elements rooted es = es"
proof (induction es rule: rev_induct)
  case Nil
  then show ?case by (simp add: clean_elements_def)
next
  case (snoc e es)
  then show ?case by (simp add: clean_elements_snoc)
qed

subsection \<open>Clean absolute paths\<close>

definition clean_abs :: "string \<Rightarrow> bool" where
  "clean_abs p \<longleftrightarrow> IsAbs p \<and> Clean p = p \<and> p \<noteq> [slash]"

definition path_of :: "string list \<Rightarrow> string" where
  "path_of es = slash # join [slash] es"

lemma IsAbs_path_of [simp]: "IsAbs (path_of es)"
  by (simp add: IsAbs_def path_of_def)

lemma join_empty_iff: "list_all plain_element es \<Longrightarrow> join [slash] es = [] \<longleftrightarrow> es = []"
  by (cases "([slash], es)" rule: join.cases) (auto simp: plain_element_def)

lemma path_of_inject_root: "list_all plain_element es \<Longrightarrow> path_of es = [slash] \<longleftrightarrow> es = []"
  by (simp add: path_of_def join_empty_iff)

lemma clean_elements_skip: "clean_elements rooted ([] # es) = clean_elements rooted es"
  by (simp add: clean_elements_def clean_step_def)

lemma Clean_abs: "IsAbs p \<Longrightarrow> Clean p = path_of (clean_elements True (split_slash p))"
  by (simp add: Clean_def path_of_def Let_def IsAbs_def)

lemma split_slash_path_of: "list_all plain_element es \<Longrightarrow> es \<noteq> [] \<Longrightarrow> split_slash (path_of es) = [] # es"
  by (simp add: path_of_def split_slash_join list_all_iff plain_element_def)

lemma Clean_path_of: "list_all plain_element es \<Longrightarrow> Clean (path_of es) = path_of es"
proof (cases "es = []")
  case True
  then show ?thesis by (simp add: Clean_def path_of_def IsAbs_def clean_elements_def clean_step_def)
next
  case False
  assume "list_all plain_element es"
  then show ?thesis using False by (simp add: Clean_abs split_slash_path_of clean_elements_skip clean_elements_plain)
qed

text \<open>Cleaning an absolute path gives the path of plain elements.\<close>

lemma Clean_abs_path:
  assumes "IsAbs p"
  obtains es where "list_all plain_element es" "Clean p = path_of es"
  using Clean_abs [OF assms] clean_elements_rooted_plain split_slash_elements by metis

lemma clean_abs_path:
  assumes "clean_abs p"
  obtains es where "es \<noteq> []" "list_all plain_element es" "p = path_of es"
  using assms Clean_abs_path path_of_inject_root unfolding clean_abs_def by metis

lemma path_of_snoc: "es \<noteq> [] \<Longrightarrow> path_of (es @ [e]) = path_of es @ slash # e"
  by (simp add: path_of_def join_snoc)

lemma clean_abs_path_of: "es \<noteq> [] \<Longrightarrow> list_all plain_element es \<Longrightarrow> clean_abs (path_of es)"
  by (simp add: clean_abs_def Clean_path_of path_of_inject_root)

lemma clean_abs_snoc:
  assumes "clean_abs d" "plain_element e"
  shows "clean_abs (d @ slash # e)" and "Join [d, e] = d @ slash # e"
proof -
  obtain es where es: "es \<noteq> []" "list_all plain_element es" "d = path_of es" using assms(1) by (rule clean_abs_path)
  then have eq: "d @ slash # e = path_of (es @ [e])" by (simp add: path_of_snoc)
  show c: "clean_abs (d @ slash # e)" unfolding eq using es assms(2) by (intro clean_abs_path_of) auto
  have "d \<noteq> []" "e \<noteq> []" using assms by (auto simp: clean_abs_def IsAbs_def plain_element_def)
  then show "Join [d, e] = d @ slash # e" using c by (simp add: Join_def clean_abs_def)
qed

lemma split_last_snoc: "slash \<notin> set e \<Longrightarrow> split_last (d @ slash # e) = (d @ [slash], e)"
  by (auto simp: split_last_def takeWhile_append dropWhile_append)

lemma Dir_Base_snoc:
  assumes "clean_abs d" "plain_element e"
  shows "Dir (d @ slash # e) = d" and "Base (d @ slash # e) = e"
proof -
  obtain es where es: "es \<noteq> []" "list_all plain_element es" "d = path_of es" using assms(1) by (rule clean_abs_path)
  have e: "slash \<notin> set e" "e \<noteq> []" using assms(2) by (auto simp: plain_element_def)
  have "split_slash (d @ [slash]) = ([] # es) @ [[]]"
    using split_slash_append [of d "[]"] es by (simp add: split_slash_path_of)
  then have "clean_elements True (split_slash (d @ [slash])) = es"
    using es(2) by (simp add: clean_elements_skip clean_elements_plain clean_elements_def clean_step_def)
      (metis clean_elements_def clean_elements_plain rev_rev_ident)
  moreover have "IsAbs (d @ [slash])" using es(3) by (simp add: IsAbs_def path_of_def)
  ultimately show "Dir (d @ slash # e) = d" by (simp add: Dir_def split_last_snoc e Clean_abs es(3))
  have "rev (dropWhile (\<lambda>c. c = slash) (rev (d @ slash # e))) = d @ slash # e"
    using e by (cases e rule: rev_cases) auto
  then show "Base (d @ slash # e) = e" by (simp add: Base_def split_last_snoc e)
qed

lemma Dir_Base_top:
  assumes "plain_element e"
  shows "Dir (path_of [e]) = [slash]"
proof -
  have "split_last (path_of [e]) = ([slash], e)"
    using assms split_last_snoc [of e "[]"] by (simp add: path_of_def plain_element_def)
  then show ?thesis by (simp add: Dir_def Clean_def IsAbs_def clean_elements_def clean_step_def)
qed

subsection \<open>Relative paths\<close>

lemma clean_elements_nonempty:
  assumes "\<forall>e \<in> set es. slash \<notin> set e"
  shows "\<forall>e \<in> set (clean_elements rooted es). e \<noteq> [] \<and> slash \<notin> set e"
proof -
  have "\<forall>e \<in> set (foldl (clean_step rooted) out es). e \<noteq> [] \<and> slash \<notin> set e"
    if "\<forall>e \<in> set out. e \<noteq> [] \<and> slash \<notin> set e" for out
    using assms that
  proof (induction es arbitrary: out)
    case (Cons e es)
    have "\<forall>x \<in> set (clean_step rooted out e). x \<noteq> [] \<and> slash \<notin> set x"
      using Cons(2,3) by (cases out) (auto simp: clean_step_def)
    from Cons.IH [OF _ this] Cons(2) show ?case by simp
  qed simp
  from this [of "[]"] show ?thesis by (simp add: clean_elements_def)
qed

lemma hd_join: "es \<noteq> [] \<Longrightarrow> hd es \<noteq> [] \<Longrightarrow> hd (join [slash] es) = hd (hd es)"
  by (cases "([slash], es)" rule: join.cases) auto

lemma IsAbs_Clean: "IsAbs (Clean p) \<longleftrightarrow> IsAbs p"
proof (cases "IsAbs p")
  case False
  let ?es = "clean_elements False (split_slash p)"
  have "\<not> IsAbs (join [slash] ?es)"
  proof (cases ?es)
    case (Cons e es)
    then have "e \<noteq> [] \<and> slash \<notin> set e" using clean_elements_nonempty split_slash_elements by (metis list.set_intros(1))
    then have "hd e \<noteq> slash" by (cases e) auto
    then show ?thesis using hd_join [of ?es] Cons \<open>e \<noteq> [] \<and> slash \<notin> set e\<close> by (simp add: IsAbs_def)
  qed (simp add: IsAbs_def)
  then show ?thesis using False by (auto simp: Clean_def Let_def IsAbs_def)
qed (simp add: Clean_abs)

text \<open>A clean path whose directory is a given root lies directly below that root.\<close>

lemma Clean_below:
  assumes "clean_abs root" "Dir (Clean d) = root"
  obtains e where "plain_element e" "Clean d = root @ slash # e" "Base (Clean d) = e"
proof -
  have "IsAbs (fst (split_last (Clean d)))" using assms IsAbs_Clean unfolding Dir_def clean_abs_def by metis
  moreover have "fst (split_last p) \<noteq> [] \<Longrightarrow> hd (fst (split_last p)) = hd p" for p
  proof -
    assume ne: "fst (split_last p) \<noteq> []"
    have "rev p = takeWhile (\<lambda>c. c \<noteq> slash) (rev p) @ dropWhile (\<lambda>c. c \<noteq> slash) (rev p)" by simp
    then have "p = rev (dropWhile (\<lambda>c. c \<noteq> slash) (rev p)) @ rev (takeWhile (\<lambda>c. c \<noteq> slash) (rev p))"
      by (metis rev_append rev_rev_ident)
    then show "hd (fst (split_last p)) = hd p" using ne unfolding split_last_def by (metis fst_conv hd_append2)
  qed
  ultimately have "IsAbs (Clean d)" unfolding IsAbs_def split_last_def by fastforce
  then have "IsAbs d" by (simp add: IsAbs_Clean)
  then obtain es where es: "list_all plain_element es" "Clean d = path_of es" by (rule Clean_abs_path)
  show thesis
  proof (cases es rule: rev_cases)
    case Nil
    then have "Dir (Clean d) = [slash]"
      using es by (simp add: path_of_def Dir_def split_last_def Clean_def IsAbs_def clean_elements_def clean_step_def)
    then show thesis using assms by (simp add: clean_abs_def)
  next
    case (snoc fs e)
    have plain: "list_all plain_element fs" "plain_element e" using es(1) snoc by auto
    show thesis
    proof (cases "fs = []")
      case True
      then have "Dir (Clean d) = [slash]" using es snoc plain Dir_Base_top by simp
      then show thesis using assms by (simp add: clean_abs_def)
    next
      case False
      then have c: "clean_abs (path_of fs)" using plain by (intro clean_abs_path_of)
      have "Clean d = path_of fs @ slash # e" using es snoc False by (simp add: path_of_snoc)
      then show thesis using that plain(2) Dir_Base_snoc [OF c plain(2)] assms(2) by metis
    qed
  qed
qed

text \<open>\<^verbatim>\<open>filepath.Rel\<close>, by the elements of the two clean paths.\<close>

definition elements :: "string \<Rightarrow> string list" where
  "elements p = clean_elements (IsAbs p) (split_slash p)"

fun strip_common :: "string list \<Rightarrow> string list \<Rightarrow> string list \<times> string list" where
  "strip_common (b # bs) (t # ts) = (if b = t then strip_common bs ts else (b # bs, t # ts))"
| "strip_common bs ts = (bs, ts)"

definition Rel :: "string \<Rightarrow> string \<Rightarrow> string option" where
  "Rel basepath targpath =
     (if Clean basepath = Clean targpath then Some ''.''
      else if IsAbs basepath \<noteq> IsAbs targpath then None
      else case strip_common (elements basepath) (elements targpath) of
             (bs, ts) \<Rightarrow>
               if bs \<noteq> [] \<and> hd bs = ''..'' then None
               else Some (join [slash] (replicate (length bs) ''..'' @ ts)))"

lemma elements_path_of: "list_all plain_element es \<Longrightarrow> elements (path_of es) = es"
  by (cases "es = []") (simp_all add: elements_def split_slash_path_of clean_elements_skip clean_elements_plain,
    simp add: path_of_def clean_elements_def clean_step_def)

text \<open>Relative paths of plain elements.\<close>

lemma Clean_rel_path: "es \<noteq> [] \<Longrightarrow> list_all plain_element es \<Longrightarrow> Clean (join [slash] es) = join [slash] es"
proof -
  assume es: "es \<noteq> []" "list_all plain_element es"
  then have "plain_element (hd es)" by (cases es) simp_all
  then have "hd es \<noteq> []" "hd (hd es) \<noteq> slash" by (auto simp: plain_element_def dest: hd_in_set)
  then have "\<not> IsAbs (join [slash] es)" using es(1) by (simp add: IsAbs_def hd_join)
  moreover have "split_slash (join [slash] es) = es" using es by (intro split_slash_join) (auto simp: list_all_iff plain_element_def)
  moreover have "join [slash] es \<noteq> []" using es by (simp add: join_empty_iff)
  ultimately show ?thesis using es by (simp add: Clean_def clean_elements_plain)
qed

lemma join_append: "xs \<noteq> [] \<Longrightarrow> ys \<noteq> [] \<Longrightarrow> join sep (xs @ ys) = join sep xs @ sep @ join sep ys"
proof (induction sep xs rule: join.induct)
  case (2 sep x)
  then show ?case by (cases ys) auto
qed auto

lemma Join_rel_paths:
  assumes "ps \<noteq> []" "list_all plain_element ps" "qs \<noteq> []" "list_all plain_element qs"
  shows "Join [join [slash] ps, join [slash] qs] = join [slash] (ps @ qs)"
  using assms Clean_rel_path [of "ps @ qs"] by (simp add: Join_def join_empty_iff join_append)

lemma Join_rel_paths3:
  assumes "ps \<noteq> []" "list_all plain_element ps" "plain_element e" "qs \<noteq> []" "list_all plain_element qs"
  shows "Join [join [slash] ps, e, join [slash] qs] = join [slash] (ps @ e # qs)"
proof -
  have "join [slash] [join [slash] ps, e, join [slash] qs] = join [slash] (ps @ e # qs)"
    using assms join_append [of "[e]" qs "[slash]"] by (simp add: join_append)
  moreover have "e \<noteq> []" using assms(3) by (simp add: plain_element_def)
  ultimately show ?thesis using assms Clean_rel_path [of "ps @ e # qs"] by (simp add: Join_def join_empty_iff)
qed

lemma join_slash_inject:
  assumes "list_all plain_element xs" "list_all plain_element ys" "join [slash] xs = join [slash] ys"
  shows "xs = ys"
proof (cases "xs = [] \<or> ys = []")
  case True
  then show ?thesis using assms join_empty_iff by (metis join.simps(1))
next
  case False
  have "\<forall>e \<in> set zs. slash \<notin> set e" if "list_all plain_element zs" for zs
    using that unfolding list_all_iff plain_element_def by blast
  then have "split_slash (join [slash] xs) = xs" "split_slash (join [slash] ys) = ys"
    using False assms(1,2) by (simp_all add: split_slash_join)
  then show ?thesis using assms(3) by metis
qed

text \<open>A clean relative path without dots has plain elements.\<close>

lemma clean_rel_elements:
  assumes "\<not> IsAbs p" "Clean p = p" "p \<noteq> []" "\<forall>e \<in> set (split_slash p). e \<noteq> ''..'' \<and> e \<noteq> ''.''"
  shows "list_all plain_element (split_slash p)"
proof -
  let ?cs = "clean_elements False (split_slash p)"
  have el: "\<forall>e \<in> set ?cs. e \<noteq> [] \<and> slash \<notin> set e" using clean_elements_nonempty split_slash_elements by blast
  have "join [slash] ?cs = p"
  proof (cases "join [slash] ?cs = []")
    case True
    then have "p = ''.''" using assms by (simp add: Clean_def Let_def)
    then show ?thesis using assms(4) by simp
  qed (use assms in \<open>simp add: Clean_def Let_def\<close>)
  moreover have "?cs \<noteq> []" using calculation assms(3) by auto
  ultimately have "split_slash p = ?cs" using split_slash_join [of ?cs] el by auto
  then show ?thesis using el assms(4) unfolding list_all_iff plain_element_def by metis
qed

lemma clean_step_subset: "set (clean_step rooted out e) \<subseteq> insert e (set out)"
  by (cases out) (auto simp: clean_step_def)

lemma clean_elements_subset: "set (clean_elements rooted es) \<subseteq> set es"
proof (induction es rule: rev_induct)
  case (snoc e es)
  then show ?case using clean_step_subset [of rooted "foldl (clean_step rooted) [] es" e] by (auto simp: clean_elements_def)
qed (simp add: clean_elements_def)

lemma join_chars: "set (join sep es) \<subseteq> set sep \<union> \<Union> (set ` set es)"
  by (induction sep es rule: join.induct) auto

lemma Clean_chars: "set (Clean p) \<subseteq> insert (CHR ''.'') (insert slash (set p))"
proof -
  have "set (join [slash] (clean_elements r (split_slash p))) \<subseteq> insert slash (set p)" for r
    using join_chars [of "[slash]" "clean_elements r (split_slash p)"] clean_elements_subset [of r "split_slash p"] split_on_chars [of _ slash p]
    by fastforce
  then show ?thesis by (auto simp: Clean_def Let_def)
qed

lemma Join_chars: "set (Join es) \<subseteq> insert (CHR ''.'') (insert slash (\<Union> (set ` set es)))"
proof -
  let ?ne = "filter (\<lambda>e. e \<noteq> []) es"
  have "set (join [slash] ?ne) \<subseteq> insert slash (\<Union> (set ` set es))" using join_chars [of "[slash]" ?ne] by auto
  then have "set (Clean (join [slash] ?ne)) \<subseteq> insert (CHR ''.'') (insert slash (\<Union> (set ` set es)))"
    using Clean_chars [of "join [slash] ?ne"] by blast
  then show ?thesis by (simp add: Join_def Let_def)
qed

end
