(* ===== verification/Confine.thy ===== *)
theory Confine
  imports GoPath ImApi Api "HOL-Library.Sublist"
begin

section \<open>What a request may name\<close>

text \<open>
  The checks by which an Instance Manager keeps a request inside its own directories, before anything
  is read, written or run: of a backup (\<^verbatim>\<open>validateBackupRequest\<close> and \<^verbatim>\<open>confineBackupDestination\<close> of
  \<^verbatim>\<open>server.go\<close>, \<^verbatim>\<open>validateSeedUpload\<close> of \<^verbatim>\<open>upload.go\<close>), of a restore (\<^verbatim>\<open>validateRestoreRequest\<close>,
  \<^verbatim>\<open>confine\<close> and \<^verbatim>\<open>within\<close> of \<^verbatim>\<open>restore.go\<close>) and of a reading of a copied log
  (\<^verbatim>\<open>confineCopiedLogPath\<close>). An error is its text.
\<close>

subsection \<open>Names\<close>

definition is_lower :: "char \<Rightarrow> bool" where
  "is_lower c \<longleftrightarrow> 97 \<le> byte c \<and> byte c \<le> 122"

definition is_upper :: "char \<Rightarrow> bool" where
  "is_upper c \<longleftrightarrow> 65 \<le> byte c \<and> byte c \<le> 90"

definition is_alnum :: "char \<Rightarrow> bool" where
  "is_alnum c \<longleftrightarrow> is_lower c \<or> is_upper c \<or> is_digit c"

definition databaseNamePattern :: "string \<Rightarrow> bool" where
  "databaseNamePattern s \<longleftrightarrow>
     (case s of
        [] \<Rightarrow> False
      | c # cs \<Rightarrow> (is_lower c \<or> is_upper c) \<and> length cs \<le> 16 \<and> list_all (\<lambda>x. is_alnum x \<or> x = CHR ''_'') cs)"

definition is_label_end :: "char \<Rightarrow> bool" where
  "is_label_end c \<longleftrightarrow> is_lower c \<or> is_digit c"

definition hostLabelPattern :: "string \<Rightarrow> bool" where
  "hostLabelPattern s \<longleftrightarrow>
     s \<noteq> [] \<and> length s \<le> 63 \<and> is_label_end (hd s) \<and> is_label_end (last s) \<and>
     list_all (\<lambda>x. is_label_end x \<or> x = CHR ''-'') s"

definition stagingNamePattern :: "string \<Rightarrow> bool" where
  "stagingNamePattern s \<longleftrightarrow>
     (case s of [] \<Rightarrow> False | c # cs \<Rightarrow> is_alnum c \<and> list_all (\<lambda>x. is_alnum x \<or> x \<in> set ''._-'') cs)"

subsection \<open>Backups\<close>

definition BackupAttemptPrefix :: "string \<Rightarrow> string \<Rightarrow> string" where
  "BackupAttemptPrefix pfx attemptID = Join [pfx, ''attempt-'' @ attemptID]"

definition BackupAttemptIDLength :: nat where
  "BackupAttemptIDLength = 32"

definition ManifestObjectName :: string where
  "ManifestObjectName = ''manifest.json''"

definition has_prefix :: "string \<Rightarrow> string \<Rightarrow> bool" where
  "has_prefix s p \<longleftrightarrow> take (length p) s = p"

definition validateSeedUpload :: "string \<Rightarrow> string \<Rightarrow> string \<Rightarrow> string \<Rightarrow> string option" where
  "validateSeedUpload pfx clusterUID database sourceRole =
     (let parts = split_slash pfx; n = length parts
      in if clusterUID = [] \<or> slash \<in> set clusterUID \<or> CHR 0x5C \<in> set clusterUID \<or>
            clusterUID = ''.'' \<or> clusterUID = ''..'' \<or> \<not> databaseNamePattern database \<or>
            IsAbs pfx \<or> Clean pfx \<noteq> pfx \<or> has_prefix pfx ''../'' \<or> n < 3 \<or>
            parts ! (n - 3) \<noteq> clusterUID \<or> parts ! (n - 1) \<noteq> database \<or> sourceRole \<noteq> ''master''
         then Some ''seed upload needs master metadata and a clean <clusterUID>/seed[-artifact]/<database> suffix''
         else let seed = parts ! (n - 2)
              in if seed \<noteq> ''seed'' \<and> (\<not> has_prefix seed ''seed-'' \<or> length seed = 5)
                 then Some ''seed upload prefix does not name an HA seed'' else None)"

definition validateBackupRequest :: "(rune \<Rightarrow> bool) \<Rightarrow> BackupRequest \<Rightarrow> string option" where
  "validateBackupRequest printable req =
     (if br_Database req = [] \<or> br_Destination req = [] then Some ''database and destination are required''
      else if \<not> databaseNamePattern (br_Database req)
      then Some (''database name '' @ quote printable (br_Database req) @ '' is not a plain identifier'')
      else if br_Level req \<noteq> 0
      then Some (''backup level '' @ itoa (br_Level req) @ '' is not supported: only a full backup (level 0) is'')
      else case br_Upload req of
             None \<Rightarrow> None
           | Some up \<Rightarrow>
               if up_Bucket up = [] \<or> up_Prefix up = [] \<or> up_ClusterUID up = [] \<or> up_CubridVersion up = [] \<or>
                  up_SourceInstance up = []
               then Some ''upload needs bucket, prefix, clusterUID, cubridVersion and sourceInstance''
               else if IsAbs (up_Prefix up) \<or> Clean (up_Prefix up) \<noteq> up_Prefix up \<or> up_Prefix up = ''..'' \<or>
                       has_prefix (up_Prefix up) ''../''
               then Some (''upload prefix '' @ quote printable (up_Prefix up) @ '' must be a clean relative key prefix'')
               else if \<not> hostLabelPattern (up_SourceInstance up)
               then Some (''upload sourceInstance '' @ quote printable (up_SourceInstance up) @ '' is not a host name (a DNS label)'')
               else case (if up_Seed up
                          then validateSeedUpload (up_Prefix up) (up_ClusterUID up) (br_Database req) (up_SourceRole up)
                          else None) of
                      Some e \<Rightarrow> Some e
                    | None \<Rightarrow>
                        let manifestPrefix = (if \<not> up_Seed up
                              then BackupAttemptPrefix (up_Prefix up) (replicate BackupAttemptIDLength (CHR ''0''))
                              else up_Prefix up)
                        in if length (Join [manifestPrefix, ManifestObjectName]) > 1024
                           then Some ''upload manifest key exceeds the S3 1024-byte limit, including the attempt suffix''
                           else if up_SourceRole up \<notin> {[], ''master'', ''slave'', ''replica'', ''unknown''}
                           then Some (''upload sourceRole '' @ quote printable (up_SourceRole up) @
                                      '' is not master, slave, replica or unknown'')
                           else None)"

definition confineBackupDestination :: "(rune \<Rightarrow> bool) \<Rightarrow> string \<Rightarrow> string \<Rightarrow> string + string" where
  "confineBackupDestination printable destination root =
     (if root = [] \<or> \<not> IsAbs root \<or> Clean root \<noteq> root \<or> root = [slash]
      then Inl (''backup staging root '' @ quote printable root @ '' is not configured as a clean absolute path'')
      else if destination = [] then Inl ''destination is required''
      else let clean = Clean destination; name = Base clean
           in if Dir clean \<noteq> root \<or> \<not> stagingNamePattern name
              then Inl (''destination '' @ quote printable destination @ '' must be one directory directly below '' @
                        quote printable root)
              else Inr (Join [root, name]))"

subsection \<open>Restores\<close>

record RestoreRoots =
  rt_Target :: string
  rt_Staging :: string
  rt_Host :: string
  rt_Owner :: string
  rt_EngineVersion :: string

definition within :: "string \<Rightarrow> string \<Rightarrow> bool" where
  "within target dir \<longleftrightarrow>
     (case Rel dir target of None \<Rightarrow> False | Some rel \<Rightarrow> rel \<noteq> ''..'' \<and> \<not> has_prefix rel ''../'')"

text \<open>The two directories are checked in the order in which Go visits a map, so an error for both names
  either of them; \<open>target_first\<close> says which.\<close>

definition validateRestoreRequest :: "(rune \<Rightarrow> bool) \<Rightarrow> bool \<Rightarrow> RestoreRequest \<Rightarrow> string option" where
  "validateRestoreRequest printable target_first req =
     (let dirs = [(''targetDir'', rr_TargetDir req), (''stagingDir'', rr_StagingDir req)]
      in if rr_Database req = [] \<or> rr_Bucket req = [] \<or> rr_Prefix req = [] \<or> rr_StagingDir req = [] \<or> rr_TargetDir req = []
         then Some ''database, bucket, prefix, stagingDir and targetDir are required''
         else if \<not> databaseNamePattern (rr_Database req)
         then Some (''database name '' @ quote printable (rr_Database req) @ '' is not a plain identifier'')
         else if rr_SeedFromMaster req \<noteq> [] \<and> \<not> hostLabelPattern (rr_SeedFromMaster req)
         then Some (''seedFromMaster '' @ quote printable (rr_SeedFromMaster req) @ '' is not a host name (a DNS label)'')
         else case find (\<lambda>(name, dir). \<not> IsAbs dir \<or> Clean dir \<noteq> dir \<or> dir = [slash]) (if target_first then dirs else rev dirs) of
                Some (name, dir) \<Rightarrow>
                  Some (name @ '' '' @ quote printable dir @ '' must be a clean absolute path other than the root'')
              | None \<Rightarrow>
                  if within (rr_StagingDir req) (rr_TargetDir req) \<or> within (rr_TargetDir req) (rr_StagingDir req)
                  then Some (''stagingDir '' @ quote printable (rr_StagingDir req) @ '' and targetDir '' @
                             quote printable (rr_TargetDir req) @ '' must not contain each other'')
                  else None)"

definition confine :: "(rune \<Rightarrow> bool) \<Rightarrow> RestoreRequest \<Rightarrow> RestoreRoots \<Rightarrow> string + string \<times> string" where
  "confine printable req roots =
     (case find (\<lambda>root. root = [] \<or> \<not> IsAbs root \<or> Clean root \<noteq> root \<or> root = [slash]) [rt_Target roots, rt_Staging roots] of
        Some root \<Rightarrow> Inl (''restore root '' @ quote printable root @ '' is not configured as a clean absolute path'')
      | None \<Rightarrow>
          if Clean (rr_TargetDir req) \<noteq> rt_Target roots
          then Inl (''targetDir '' @ quote printable (rr_TargetDir req) @ '' must be the database root '' @ quote printable (rt_Target roots))
          else let staging = Clean (rr_StagingDir req); name = Base staging
               in if Dir staging \<noteq> rt_Staging roots \<or> \<not> stagingNamePattern name
                  then Inl (''stagingDir '' @ quote printable (rr_StagingDir req) @ '' must be one directory directly below '' @
                            quote printable (rt_Staging roots))
                  else Inr (rt_Target roots, Join [rt_Staging roots, name]))"

subsection \<open>Copied logs\<close>

definition cut_prefix :: "string \<Rightarrow> string \<Rightarrow> string \<times> bool" where
  "cut_prefix s p = (if has_prefix s p then (drop (length p) s, True) else (s, False))"

definition confineCopiedLogPath :: "(rune \<Rightarrow> bool) \<Rightarrow> string \<Rightarrow> string \<Rightarrow> string \<Rightarrow> string + string" where
  "confineCopiedLogPath printable database copiedLogPath databasesDir =
     (if databasesDir = [] \<or> \<not> IsAbs databasesDir \<or> Clean databasesDir \<noteq> databasesDir
      then Inl (''the databases directory '' @ quote printable databasesDir @ '' is not configured as a clean absolute path'')
      else if \<not> databaseNamePattern database
      then Inl (''database name '' @ quote printable database @ '' is not a plain identifier'')
      else case cut_prefix (Base copiedLogPath) (database @ ''_'') of
             (host, isCopiedLog) \<Rightarrow>
               if Clean copiedLogPath \<noteq> copiedLogPath \<or> Dir copiedLogPath \<noteq> databasesDir \<or> \<not> isCopiedLog \<or>
                  \<not> hostLabelPattern host
               then Inl (''copiedLogPath '' @ quote printable copiedLogPath @ '' is not a copied log of '' @ database @
                         '' directly below '' @ quote printable databasesDir)
               else Inr (Join [databasesDir, database @ ''_'' @ host]))"

subsection \<open>What passes stays inside\<close>

lemma cut_prefix_True: "cut_prefix s p = (r, True) \<Longrightarrow> s = p @ r"
  unfolding cut_prefix_def has_prefix_def by (metis Pair_inject append_take_drop_id)

lemma alnum_facts: "\<not> is_alnum slash" "\<not> is_alnum (CHR ''.'')"
  by (simp_all add: is_alnum_def is_lower_def is_upper_def is_digit_def byte_def)

lemma staging_name_plain:
  assumes "stagingNamePattern s"
  shows "plain_element s"
proof (cases s)
  case (Cons c cs)
  then have c: "is_alnum c" "\<forall>x \<in> set cs. is_alnum x \<or> x \<in> set ''._-''"
    using assms by (auto simp: stagingNamePattern_def list_all_iff)
  then have "c \<noteq> CHR ''.''" "c \<noteq> slash" "slash \<notin> set cs" using alnum_facts by auto
  then show ?thesis using Cons by (simp add: plain_element_def)
qed (use assms in \<open>simp add: stagingNamePattern_def\<close>)

lemma host_label_plain:
  assumes "databaseNamePattern d" "hostLabelPattern h"
  shows "plain_element (d @ ''_'' @ h)"
proof (cases d)
  case (Cons c cs)
  then have c: "is_lower c \<or> is_upper c" "\<forall>x \<in> set cs. is_alnum x \<or> x = CHR ''_''"
    using assms(1) by (auto simp: databaseNamePattern_def list_all_iff)
  have h: "\<forall>x \<in> set h. is_alnum x \<or> x = CHR ''-''"
    using assms(2) by (auto simp: hostLabelPattern_def list_all_iff is_label_end_def is_alnum_def)
  have "c \<noteq> CHR ''.''" "c \<noteq> slash" using c(1) alnum_facts by (auto simp: is_alnum_def)
  moreover have "slash \<notin> set cs" "slash \<notin> set h" using c(2) h alnum_facts by auto
  ultimately show ?thesis using Cons by (simp add: plain_element_def)
qed (use assms in \<open>simp add: databaseNamePattern_def\<close>)

text \<open>
  What a backup request may stage in is one directory directly below the manager's own root: a
  destination that is accepted is replaced by the root, a slash and one plain name, which is what the
  destination is when it is cleaned, so that no spelling of it leads elsewhere.
\<close>

theorem accepted_backup_destination_is_directly_below_the_root:
  assumes "confineBackupDestination printable destination root = Inr p"
  shows "\<exists>name. stagingNamePattern name \<and> p = root @ slash # name \<and> p = Clean destination \<and> Clean p = p \<and>
    Dir p = root \<and> Base p = name"
proof -
  let ?c = "Clean destination"
  have root: "clean_abs root" and dir: "Dir ?c = root" and name: "stagingNamePattern (Base ?c)" and p: "p = Join [root, Base ?c]"
    using assms by (auto simp: confineBackupDestination_def clean_abs_def Let_def split: if_splits)
  obtain e where e: "plain_element e" "?c = root @ slash # e" "Base ?c = e" using Clean_below [OF root dir] by blast
  have "p = root @ slash # e" using p e(3) clean_abs_snoc(2) [OF root e(1)] by simp
  then show ?thesis
    using e name clean_abs_snoc(1) [OF root e(1)] Dir_Base_snoc [OF root e(1)] by (auto simp: clean_abs_def)
qed

theorem accepted_backup_destination_is_directly_below_the_root_witness:
  "confineBackupDestination (\<lambda>_. False) ''/var/stage/./x/../b1/'' ''/var/stage'' = Inr ''/var/stage/b1'' \<and>
   Dir ''/var/stage/b1'' = ''/var/stage''"
proof -
  have "confineBackupDestination (\<lambda>_. False) ''/var/stage/./x/../b1/'' ''/var/stage'' = Inr ''/var/stage/b1''" by code_simp
  with accepted_backup_destination_is_directly_below_the_root [OF this] show ?thesis by blast
qed

text \<open>
  A convergence request makes \<^verbatim>\<open>applyinfo\<close> read nothing but a copied log of the named database
  directly below the databases directory.
\<close>

theorem accepted_copied_log_is_below_the_databases_directory:
  assumes "confineCopiedLogPath printable database path databasesDir = Inr p" "databasesDir \<noteq> [slash]"
  shows "\<exists>host. hostLabelPattern host \<and> databaseNamePattern database \<and> p = databasesDir @ slash # database @ ''_'' @ host \<and>
    p = path \<and> Dir p = databasesDir"
proof -
  obtain host isCopied where cut: "cut_prefix (Base path) (database @ ''_'') = (host, isCopied)" by fastforce
  have root: "clean_abs databasesDir" and dir: "Dir (Clean path) = databasesDir" and clean: "Clean path = path"
    and ok: "isCopied" "hostLabelPattern host" "databaseNamePattern database" and p: "p = Join [databasesDir, database @ ''_'' @ host]"
    using assms cut by (auto simp: confineCopiedLogPath_def clean_abs_def split: if_splits)
  have base: "Base path = database @ ''_'' @ host"
    using cut ok(1) cut_prefix_True by fastforce
  obtain e where e: "plain_element e" "path = databasesDir @ slash # e" "Base path = e"
    using Clean_below [OF root dir] clean by metis
  then show ?thesis
    using ok base p clean_abs_snoc(2) [OF root e(1)] Dir_Base_snoc(1) [OF root e(1)] by (intro exI [of _ host]) simp
qed

theorem accepted_copied_log_is_below_the_databases_directory_witness:
  "confineCopiedLogPath (\<lambda>_. False) ''db'' ''/d/db_c-0'' ''/d'' = Inr ''/d/db_c-0'' \<and> Dir ''/d/db_c-0'' = ''/d''"
proof -
  have "confineCopiedLogPath (\<lambda>_. False) ''db'' ''/d/db_c-0'' ''/d'' = Inr ''/d/db_c-0''" by code_simp
  with accepted_copied_log_is_below_the_databases_directory [OF this] show ?thesis by simp
qed

lemma strip_common_shape:
  "strip_common ds ts = (bs, us) \<Longrightarrow>
     \<exists>c. ds = c @ bs \<and> ts = c @ us \<and> (bs = [] \<or> us = [] \<or> hd bs \<noteq> hd us)"
proof (induction ds ts rule: strip_common.induct)
  case (1 b ds t ts)
  show ?case
  proof (cases "b = t")
    case True
    then obtain c where "ds = c @ bs" "ts = c @ us" "bs = [] \<or> us = [] \<or> hd bs \<noteq> hd us" using 1 by auto
    then show ?thesis using True by (intro exI [of _ "b # c"]) simp
  qed (use 1 in auto)
qed auto

lemma strip_common_prefix:
  assumes "strip_common ds ts = (bs, us)"
  shows "prefix ds ts \<longleftrightarrow> bs = []"
proof -
  obtain c where c: "ds = c @ bs" "ts = c @ us" "bs = [] \<or> us = [] \<or> hd bs \<noteq> hd us"
    using strip_common_shape [OF assms] by blast
  then show ?thesis by (cases bs; cases us) auto
qed

lemma dots_prefix:
  assumes "es \<noteq> []" "list_all (\<lambda>e. slash \<notin> set e) es"
  shows "join [slash] es = ''..'' \<or> has_prefix (join [slash] es) ''../'' \<longleftrightarrow> hd es = ''..''"
proof
  assume "join [slash] es = ''..'' \<or> has_prefix (join [slash] es) ''../''"
  then show "hd es = ''..''"
  proof
    assume "join [slash] es = ''..''"
    then have "es = split_slash ''..''" using split_slash_join assms by (metis list_all_iff)
    then show ?thesis by simp
  next
    assume "has_prefix (join [slash] es) ''../''"
    then obtain r where "join [slash] es = ''..'' @ slash # r" unfolding has_prefix_def by (metis append_take_drop_id append_Cons append_Nil)
    then have "es = split_slash (''..'' @ slash # r)" using split_slash_join assms by (metis list_all_iff)
    then show ?thesis by simp
  qed
next
  assume "hd es = ''..''"
  then show "join [slash] es = ''..'' \<or> has_prefix (join [slash] es) ''../''"
    using assms(1) by (cases "([slash], es)" rule: join.cases) (auto simp: has_prefix_def)
qed

text \<open>Of two clean absolute paths one contains the other exactly when its elements begin the other's.\<close>

lemma within_iff:
  assumes "clean_abs t" "clean_abs d"
  shows "within t d \<longleftrightarrow> prefix (elements d) (elements t)"
proof -
  obtain ts ds where ts: "ts \<noteq> []" "list_all plain_element ts" "t = path_of ts"
    and ds: "ds \<noteq> []" "list_all plain_element ds" "d = path_of ds"
    using clean_abs_path assms by metis
  have e: "elements t = ts" "elements d = ds" using ts ds by (simp_all add: elements_path_of)
  obtain bs us where sc: "strip_common ds ts = (bs, us)" by fastforce
  then obtain c where c: "ds = c @ bs" "ts = c @ us" using strip_common_shape by blast
  show ?thesis
  proof (cases "d = t")
    case True
    have "within t t" by (simp add: within_def Rel_def has_prefix_def)
    then show ?thesis unfolding True by simp
  next
    case False
    let ?es = "replicate (length bs) ''..'' @ us"
    have "IsAbs d" "IsAbs t" "Clean d = d" "Clean t = t" using assms by (auto simp: clean_abs_def)
    moreover have "\<not> (bs \<noteq> [] \<and> hd bs = ''..'')" using c(1) ds(2) by (cases bs) (auto simp: plain_element_def)
    ultimately have rel: "Rel d t = Some (join [slash] ?es)" unfolding Rel_def e sc using False by simp
    have "bs \<noteq> [] \<or> us \<noteq> []" using False c ts(3) ds(3) by auto
    then have ne: "?es \<noteq> []" by auto
    have us: "list_all plain_element us" using c(2) ts(2) by simp
    then have "list_all (\<lambda>e. slash \<notin> set e) us" by (rule list.pred_mono_strong) (simp add: plain_element_def)
    moreover have "list_all (\<lambda>e. slash \<notin> set e) (replicate (length bs) ''..'')" by (simp add: list_all_length)
    ultimately have plain: "list_all (\<lambda>e. slash \<notin> set e) ?es" by simp
    have "us \<noteq> [] \<Longrightarrow> hd us \<noteq> ''..''" using us by (cases us) (simp_all add: plain_element_def)
    then have "hd ?es = ''..'' \<longleftrightarrow> bs \<noteq> []" using ne by (cases bs) simp_all
    then have "within t d \<longleftrightarrow> bs = []" using dots_prefix [OF ne plain] unfolding within_def rel option.case by blast
    then show ?thesis unfolding e strip_common_prefix [OF sc] .
  qed
qed

text \<open>
  C20. A restore that is accepted works in the manager's own directories only: in the database root
  itself and in one directory directly below the staging root, and neither of the two lies in the
  other.
\<close>

theorem accepted_restore_stays_in_the_managers_roots:
  assumes "validateRestoreRequest printable target_first req = None" "confine printable req roots = Inr (target, staging)"
  shows "target = rt_Target roots \<and> rr_TargetDir req = target \<and> rr_StagingDir req = staging \<and>
    (\<exists>name. stagingNamePattern name \<and> staging = rt_Staging roots @ slash # name) \<and>
    \<not> prefix (elements target) (elements staging) \<and> \<not> prefix (elements staging) (elements target) \<and>
    databaseNamePattern (rr_Database req)"
proof -
  have v: "databaseNamePattern (rr_Database req)" "clean_abs (rr_TargetDir req)" "clean_abs (rr_StagingDir req)"
    "\<not> within (rr_StagingDir req) (rr_TargetDir req)" "\<not> within (rr_TargetDir req) (rr_StagingDir req)"
    using assms(1) by (auto simp: validateRestoreRequest_def Let_def clean_abs_def split: if_splits option.splits)
  let ?s = "Clean (rr_StagingDir req)"
  have c: "clean_abs (rt_Staging roots)" "Clean (rr_TargetDir req) = rt_Target roots" "target = rt_Target roots"
    "Dir ?s = rt_Staging roots" "stagingNamePattern (Base ?s)" "staging = Join [rt_Staging roots, Base ?s]"
    using assms(2) by (auto simp: confine_def Let_def clean_abs_def split: if_splits option.splits)
  obtain e where e: "plain_element e" "?s = rt_Staging roots @ slash # e" "Base ?s = e"
    using Clean_below [OF c(1,4)] by blast
  have "staging = rt_Staging roots @ slash # e" using c(6) e(3) clean_abs_snoc(2) [OF c(1) e(1)] by simp
  moreover have "?s = rr_StagingDir req" "rr_TargetDir req = target" using v(2,3) c(2,3) by (auto simp: clean_abs_def)
  ultimately show ?thesis using v c e within_iff [OF v(2,3)] within_iff [OF v(3,2)] by auto
qed

definition demo_restore_request :: RestoreRequest where
  "demo_restore_request = \<lparr>rr_Database = ''db'', rr_Bucket = ''b'', rr_Prefix = ''p'', rr_ExpectedCubridVersion = [],
     rr_StagingDir = ''/s/r1'', rr_TargetDir = ''/d'', rr_SeedFromMaster = [], rr_ExpectedClusterUID = []\<rparr>"

definition demo_roots :: RestoreRoots where
  "demo_roots = \<lparr>rt_Target = ''/d'', rt_Staging = ''/s'', rt_Host = [], rt_Owner = [], rt_EngineVersion = []\<rparr>"

theorem accepted_restore_stays_in_the_managers_roots_witness:
  "validateRestoreRequest (\<lambda>_. False) True demo_restore_request = None \<and>
   confine (\<lambda>_. False) demo_restore_request demo_roots = Inr (''/d'', ''/s/r1'') \<and> \<not> prefix (elements ''/d'') (elements ''/s/r1'')"
proof -
  have "validateRestoreRequest (\<lambda>_. False) True demo_restore_request = None"
    "confine (\<lambda>_. False) demo_restore_request demo_roots = Inr (''/d'', ''/s/r1'')" by code_simp+
  then show ?thesis using accepted_restore_stays_in_the_managers_roots by blast
qed

end
