(* ===== verification/Artifact.thy ===== *)
theory Artifact
  imports Confine Engine
begin

section \<open>Backup artifacts\<close>

text \<open>
  \<^verbatim>\<open>manifest.go\<close>, \<^verbatim>\<open>upload.go\<close> and \<^verbatim>\<open>verify.go\<close> of \<^verbatim>\<open>internal/instancemanager\<close>: how a staged backup becomes an
  artifact in object storage, and when a restore trusts one. A bucket is a map from keys to
  contents. The object store is not the repository's: what it does with each request, and what each
  reading of a staged file yields, are arguments, so that every failure and every crash between two
  requests is covered. The hexadecimal SHA-256 (\<open>sha\<close>) and the JSON encoding of a manifest
  (\<open>encode\<close> and \<open>decode\<close>) are arguments too; that decoding undoes encoding is a named hypothesis where
  it is needed.
\<close>

subsection \<open>Manifests\<close>

record ManifestObject =
  mo_Key :: string
  mo_SizeBytes :: int
  mo_SHA256 :: string

record BackupManifest =
  bm_ManifestVersion :: int
  bm_Database :: string
  bm_ClusterUID :: string
  bm_CubridVersion :: string
  bm_Level :: int
  bm_SourceInstance :: string
  bm_SourceRole :: string
  bm_CreatedAt :: string
  bm_OperationID :: string
  bm_Objects :: "ManifestObject list"

record ManifestExpectation =
  ex_Database :: string
  ex_CubridVersion :: string
  ex_Level :: "int option"
  ex_RequireSourceRole :: string
  ex_SourceInstance :: string
  ex_ClusterUID :: string

definition ManifestVersion :: int where
  "ManifestVersion = 1"

definition TotalSize :: "BackupManifest \<Rightarrow> int" where
  "TotalSize m = foldl (\<lambda>n x. wrap64 (n + mo_SizeBytes x)) 0 (bm_Objects m)"

definition ParseManifest :: "(string \<Rightarrow> string + BackupManifest) \<Rightarrow> string \<Rightarrow> string + BackupManifest" where
  "ParseManifest decode data =
     (case decode data of
        Inl e \<Rightarrow> Inl (''decode manifest: '' @ e)
      | Inr m \<Rightarrow>
          if bm_ManifestVersion m \<noteq> ManifestVersion
          then Inl (''unsupported manifest version '' @ itoa (bm_ManifestVersion m) @ '' (want '' @ itoa ManifestVersion @ '')'')
          else Inr m)"

definition mismatch :: "(rune \<Rightarrow> bool) \<Rightarrow> string \<Rightarrow> string \<Rightarrow> string \<Rightarrow> string \<Rightarrow> string" where
  "mismatch printable what got how want =
     ''manifest '' @ what @ '' '' @ quote printable got @ '' does not match '' @ how @ '' '' @ quote printable want"

definition Verify :: "(rune \<Rightarrow> bool) \<Rightarrow> BackupManifest \<Rightarrow> ManifestExpectation \<Rightarrow> string option" where
  "Verify printable m exp =
     (if bm_ManifestVersion m \<noteq> ManifestVersion
      then Some (''manifest version '' @ itoa (bm_ManifestVersion m) @ '' does not match supported '' @ itoa ManifestVersion)
      else if ex_Database exp \<noteq> [] \<and> bm_Database m \<noteq> ex_Database exp
      then Some (mismatch printable ''database'' (bm_Database m) ''expected'' (ex_Database exp))
      else if ex_CubridVersion exp \<noteq> [] \<and>
              (EngineSeries (bm_CubridVersion m) = [] \<or> EngineSeries (bm_CubridVersion m) \<noteq> EngineSeries (ex_CubridVersion exp))
      then Some (''manifest cubridVersion '' @ quote printable (bm_CubridVersion m) @ '' is not of the series of '' @
                 quote printable (ex_CubridVersion exp))
      else if ex_Level exp \<noteq> None \<and> bm_Level m \<noteq> the (ex_Level exp)
      then Some (''manifest level '' @ itoa (bm_Level m) @ '' does not match expected '' @ itoa (the (ex_Level exp)))
      else if ex_RequireSourceRole exp \<noteq> [] \<and> bm_SourceRole m \<noteq> ex_RequireSourceRole exp
      then Some (mismatch printable ''sourceRole'' (bm_SourceRole m) ''required'' (ex_RequireSourceRole exp))
      else if ex_SourceInstance exp \<noteq> [] \<and> bm_SourceInstance m \<noteq> ex_SourceInstance exp
      then Some (mismatch printable ''sourceInstance'' (bm_SourceInstance m) ''expected'' (ex_SourceInstance exp))
      else if ex_ClusterUID exp \<noteq> [] \<and> bm_ClusterUID m \<noteq> ex_ClusterUID exp
      then Some (mismatch printable ''clusterUID'' (bm_ClusterUID m) ''expected'' (ex_ClusterUID exp))
      else if length (bm_Objects m) = 0 then Some ''manifest lists no backup objects''
      else None)"

definition objectKeyRoot :: string where
  "objectKeyRoot = ''backup''"

definition key_error :: "(rune \<Rightarrow> bool) \<Rightarrow> string \<Rightarrow> string option" where
  "key_error printable key =
     (case cut_prefix key (objectKeyRoot @ [slash]) of (rest, below) \<Rightarrow>
        if key = [] \<or> CHR 0x00 \<in> set key \<or> CHR 0x5C \<in> set key
        then Some (''manifest object key '' @ quote printable key @ '' is not a usable path'')
        else if IsAbs key \<or> Clean key \<noteq> key
        then Some (''manifest object key '' @ quote printable key @ '' is not a clean relative path'')
        else if \<not> below \<or> rest = []
        then Some (''manifest object key '' @ quote printable key @ '' is not below '' @ objectKeyRoot @ [slash])
        else if \<exists>e \<in> set (split_slash key). e = ''..'' \<or> e = ''.''
        then Some (''manifest object key '' @ quote printable key @ '' is not a clean relative path'')
        else None)"

fun validate_keys :: "(rune \<Rightarrow> bool) \<Rightarrow> string list \<Rightarrow> string list \<Rightarrow> string option" where
  "validate_keys printable seen [] = None"
| "validate_keys printable seen (key # keys) =
     (case key_error printable key of
        Some e \<Rightarrow> Some e
      | None \<Rightarrow>
          if key \<in> set seen then Some (''manifest lists object key '' @ quote printable key @ '' twice'')
          else validate_keys printable (key # seen) keys)"

definition ValidateObjectKeys :: "(rune \<Rightarrow> bool) \<Rightarrow> BackupManifest \<Rightarrow> string option" where
  "ValidateObjectKeys printable m = validate_keys printable [] (map mo_Key (bm_Objects m))"

subsection \<open>Trusting an artifact\<close>

text \<open>What reading an object of the bucket yields: an error, or all of its content.\<close>

type_synonym bucket_reader = "string \<Rightarrow> string + string"

fun verify_objects :: "(string \<Rightarrow> string) \<Rightarrow> bucket_reader \<Rightarrow> string \<Rightarrow> ManifestObject list \<Rightarrow> string option" where
  "verify_objects sha read pfx [] = None"
| "verify_objects sha read pfx (x # xs) =
     (case read (Join [pfx, mo_Key x]) of
        Inl e \<Rightarrow> Some (''verify object '' @ mo_Key x @ '': '' @ e)
      | Inr content \<Rightarrow>
          if int (length content) \<noteq> mo_SizeBytes x
          then Some (''object '' @ mo_Key x @ '' size '' @ itoa (int (length content)) @ '' does not match manifest '' @ itoa (mo_SizeBytes x))
          else if sha content \<noteq> mo_SHA256 x then Some (''object '' @ mo_Key x @ '' checksum mismatch'')
          else verify_objects sha read pfx xs)"

definition VerifyArtifact ::
  "(rune \<Rightarrow> bool) \<Rightarrow> (string \<Rightarrow> string) \<Rightarrow> (string \<Rightarrow> string + BackupManifest) \<Rightarrow> bucket_reader \<Rightarrow> string \<Rightarrow> ManifestExpectation \<Rightarrow>
     string + BackupManifest" where
  "VerifyArtifact printable sha decode read pfx exp =
     (case read (Join [pfx, ManifestObjectName]) of
        Inl e \<Rightarrow> Inl (''read manifest: '' @ e)
      | Inr data \<Rightarrow>
          (case ParseManifest decode data of
             Inl e \<Rightarrow> Inl e
           | Inr m \<Rightarrow>
               (case Verify printable m exp of
                  Some e \<Rightarrow> Inl e
                | None \<Rightarrow>
                    (case ValidateObjectKeys printable m of
                       Some e \<Rightarrow> Inl e
                     | None \<Rightarrow>
                         (case verify_objects sha read pfx (bm_Objects m) of
                            Some e \<Rightarrow> Inl e
                          | None \<Rightarrow> Inr m)))))"

text \<open>What a restore requires of the artifact, from \<^verbatim>\<open>restore.go\<close>.\<close>

definition restoreExpectation :: "RestoreRequest \<Rightarrow> string \<Rightarrow> ManifestExpectation" where
  "restoreExpectation req engine =
     (let base = \<lparr>ex_Database = rr_Database req, ex_CubridVersion = engine, ex_Level = Some 0, ex_RequireSourceRole = [],
                  ex_SourceInstance = [], ex_ClusterUID = []\<rparr>
      in if rr_SeedFromMaster req \<noteq> []
         then base\<lparr>ex_RequireSourceRole := ''master'', ex_SourceInstance := rr_SeedFromMaster req,
                   ex_ClusterUID := rr_ExpectedClusterUID req\<rparr>
         else base)"

subsection \<open>Uploading\<close>

datatype file_type = Regular | Directory | Symlink | NamedPipe | Device | Socket | Special

fun describeFileType :: "file_type \<Rightarrow> string" where
  "describeFileType Symlink = ''symbolic link''"
| "describeFileType NamedPipe = ''named pipe''"
| "describeFileType Device = ''device''"
| "describeFileType Socket = ''socket''"
| "describeFileType _ = ''special file''"

fun walk_staged :: "(string \<times> file_type) list \<Rightarrow> string + string list" where
  "walk_staged [] = Inr []"
| "walk_staged ((rel, t) # es) =
     (if t = Directory then walk_staged es
      else if t \<noteq> Regular
      then Inl (rel @ '' is not a regular file ('' @ describeFileType t @ ''); a backup uploads regular files only'')
      else (case walk_staged es of Inl e \<Rightarrow> Inl e | Inr out \<Rightarrow> Inr (rel # out)))"

text \<open>The entries below the staging directory as \<^verbatim>\<open>filepath.WalkDir\<close> visits them, or its error.\<close>

definition stagedFiles :: "string + (string \<times> file_type) list \<Rightarrow> string + string list" where
  "stagedFiles walked =
     (case walked of
        Inl e \<Rightarrow> Inl (''scan staging dir: '' @ e)
      | Inr es \<Rightarrow> (case walk_staged es of Inl e \<Rightarrow> Inl (''scan staging dir: '' @ e) | Inr out \<Rightarrow> Inr (sort out)))"

text \<open>What happens to one staged file: the reading its checksum is made of, the reading that is sent,
  whether the store keeps what is sent and what it answers, and the size it gives afterwards.\<close>

record file_io =
  fi_hashed :: "string + string"
  fi_sent :: "string + string"
  fi_put :: "bool \<times> string option"
  fi_stat :: "string + int"

record UploadSpec =
  sp_StagingDir :: string
  sp_Bucket :: string
  sp_Prefix :: string
  sp_Manifest :: BackupManifest
  sp_Seed :: bool

record UploadResult =
  ur_ManifestURI :: string
  ur_ManifestDigest :: string
  ur_SizeBytes :: int

definition stat_error :: "string \<Rightarrow> int \<Rightarrow> string + int \<Rightarrow> string option" where
  "stat_error key want answer =
     (let failed = (\<lambda>got err. Some (''upload verification failed for '' @ key @ '' (size got='' @ itoa got @ '' want='' @
                              itoa want @ '' err='' @ err @ '')''))
      in case answer of
           Inl e \<Rightarrow> failed 0 e
         | Inr got \<Rightarrow> if got \<noteq> want then failed got ''<nil>'' else None)"

text \<open>The loop over the staged files: the objects of the manifest, and what the store has kept, in order.\<close>

fun upload_files ::
  "(string \<Rightarrow> string) \<Rightarrow> (string \<Rightarrow> file_io) \<Rightarrow> string \<Rightarrow> string list \<Rightarrow>
     (string + ManifestObject list) \<times> (string \<times> string) list" where
  "upload_files sha io pfx [] = (Inr [], [])"
| "upload_files sha io pfx (rel # rels) =
     (case fi_hashed (io rel) of
        Inl e \<Rightarrow> (Inl e, [])
      | Inr hashed \<Rightarrow>
          let key = Join [pfx, ''backup'', rel]; size = int (length hashed)
          in case fi_sent (io rel) of
               Inl e \<Rightarrow> (Inl e, [])
             | Inr sent \<Rightarrow>
                 let kept = (if fst (fi_put (io rel)) then [(key, sent)] else [])
                 in case snd (fi_put (io rel)) of
                      Some e \<Rightarrow> (Inl e, kept)
                    | None \<Rightarrow>
                        (case stat_error key size (fi_stat (io rel)) of
                           Some e \<Rightarrow> (Inl e, kept)
                         | None \<Rightarrow>
                             (case upload_files sha io pfx rels of
                                (Inl e, kept') \<Rightarrow> (Inl e, kept @ kept')
                              | (Inr objects, kept') \<Rightarrow>
                                  (Inr (\<lparr>mo_Key = Join [''backup'', rel], mo_SizeBytes = size, mo_SHA256 = sha hashed\<rparr> # objects),
                                   kept @ kept'))))"

text \<open>The attempt ID is made of 16 random bytes, which may not be had.\<close>

definition upload_prefix :: "string + nat list \<Rightarrow> UploadSpec \<Rightarrow> string + string" where
  "upload_prefix random spec =
     (if sp_Seed spec
      then (case validateSeedUpload (sp_Prefix spec) (bm_ClusterUID (sp_Manifest spec)) (bm_Database (sp_Manifest spec))
                   (bm_SourceRole (sp_Manifest spec)) of
              Some e \<Rightarrow> Inl e | None \<Rightarrow> Inr (sp_Prefix spec))
      else case random of
             Inl e \<Rightarrow> Inl (''generate upload identity: '' @ e)
           | Inr bs \<Rightarrow> Inr (BackupAttemptPrefix (sp_Prefix spec) (hex_encode bs)))"

definition uploaded_manifest :: "UploadSpec \<Rightarrow> ManifestObject list \<Rightarrow> BackupManifest" where
  "uploaded_manifest spec objects = (sp_Manifest spec)\<lparr>bm_ManifestVersion := ManifestVersion, bm_Objects := objects\<rparr>"

definition UploadBackup ::
  "(string \<Rightarrow> string) \<Rightarrow> (BackupManifest \<Rightarrow> string) \<Rightarrow> string + nat list \<Rightarrow> string + (string \<times> file_type) list \<Rightarrow> string option \<Rightarrow>
     (string \<Rightarrow> file_io) \<Rightarrow> bool \<times> string option \<Rightarrow> UploadSpec \<Rightarrow> (string + UploadResult) \<times> (string \<times> string) list" where
  "UploadBackup sha encode random walked open_error io manifest_put spec =
     (case upload_prefix random spec of
        Inl e \<Rightarrow> (Inl e, [])
      | Inr pfx \<Rightarrow>
          (case stagedFiles walked of
             Inl e \<Rightarrow> (Inl e, [])
           | Inr files \<Rightarrow>
               if length files = 0 then (Inl (''no backup files staged in '' @ sp_StagingDir spec), [])
               else case open_error of
                      Some e \<Rightarrow> (Inl (''open the staging directory: '' @ e), [])
                    | None \<Rightarrow>
                        (case upload_files sha io pfx files of
                           (Inl e, kept) \<Rightarrow> (Inl e, kept)
                         | (Inr objects, kept) \<Rightarrow>
                             let manifest = uploaded_manifest spec objects;
                                 manifestKey = Join [pfx, ManifestObjectName];
                                 kept' = kept @ (if fst manifest_put then [(manifestKey, encode manifest)] else [])
                             in case snd manifest_put of
                                  Some e \<Rightarrow> (Inl (''upload manifest: '' @ e), kept')
                                | None \<Rightarrow>
                                    (Inr \<lparr>ur_ManifestURI = ''s3://'' @ sp_Bucket spec @ [slash] @ manifestKey,
                                          ur_ManifestDigest = sha (encode manifest), ur_SizeBytes = TotalSize manifest\<rparr>,
                                     kept'))))"

text \<open>The bucket after the store has kept the given objects, and a reader of it.\<close>

type_synonym bucket = "string \<Rightarrow> string option"

definition bucket_after :: "bucket \<Rightarrow> (string \<times> string) list \<Rightarrow> bucket" where
  "bucket_after before kept = foldl (\<lambda>b (k, c). b(k \<mapsto> c)) before kept"

definition reader :: "bucket \<Rightarrow> bucket_reader" where
  "reader b key = (case b key of None \<Rightarrow> Inl ''no such key'' | Some c \<Rightarrow> Inr c)"

subsection \<open>What is trusted is what the manifest says\<close>

lemma key_ok_elements:
  assumes "key_error printable key = None"
  shows "\<exists>es. es \<noteq> [] \<and> list_all plain_element es \<and> key = join [slash] (''backup'' # es)"
proof -
  obtain rest below where cut: "cut_prefix key (objectKeyRoot @ [slash]) = (rest, below)" by fastforce
  have ok: "key \<noteq> []" "\<not> IsAbs key" "Clean key = key" "below" "rest \<noteq> []" "\<forall>e \<in> set (split_slash key). e \<noteq> ''..'' \<and> e \<noteq> ''.''"
    using assms cut by (simp_all add: key_error_def split: if_splits)
  then have key: "key = ''backup'' @ slash # rest"
    using cut cut_prefix_True [of key "objectKeyRoot @ [slash]" rest] by (simp add: objectKeyRoot_def)
  have "split_slash key = ''backup'' # split_slash rest" unfolding key by simp
  moreover have "list_all plain_element (split_slash key)" using clean_rel_elements ok by blast
  ultimately show ?thesis using join_split_slash [of key] by (intro exI [of _ "split_slash rest"]) simp
qed

lemma validate_keys_None:
  "validate_keys printable seen keys = None \<Longrightarrow> distinct keys \<and> set keys \<inter> set seen = {} \<and> (\<forall>k \<in> set keys. key_error printable k = None)"
proof (induction keys arbitrary: seen)
  case (Cons k keys)
  then have "key_error printable k = None" "k \<notin> set seen" "validate_keys printable (k # seen) keys = None"
    by (simp_all split: option.splits if_splits)
  then show ?case using Cons.IH [of "k # seen"] by auto
qed simp

lemma verify_objects_None:
  "verify_objects sha read pfx xs = None \<longleftrightarrow>
     (\<forall>x \<in> set xs. \<exists>c. read (Join [pfx, mo_Key x]) = Inr c \<and> int (length c) = mo_SizeBytes x \<and> sha c = mo_SHA256 x)"
  by (induction xs) (auto split: sum.splits)

text \<open>
  C21. An artifact that a restore trusts is the one it asked for and is whole: its manifest is of the
  known version and names the expected database, an engine of the same series, the expected level
  and, for a seed, the master it is to follow; it lists at least one object; every object listed is
  in the bucket with the listed size and checksum; and every key is, below the prefix, a path of
  plain elements under \<^verbatim>\<open>backup/\<close>, no two alike, so that nothing is read or written elsewhere.
\<close>

theorem trusted_artifact_is_the_expected_one_and_whole:
  assumes "VerifyArtifact printable sha decode read pfx (restoreExpectation req engine) = Inr m" "engine \<noteq> []"
  shows "bm_ManifestVersion m = 1 \<and> (rr_Database req = [] \<or> bm_Database m = rr_Database req) \<and>
    EngineSeries (bm_CubridVersion m) = EngineSeries engine \<and> EngineSeries engine \<noteq> [] \<and> bm_Level m = 0 \<and>
    (rr_SeedFromMaster req = [] \<or> bm_SourceRole m = ''master'' \<and> bm_SourceInstance m = rr_SeedFromMaster req \<and>
       rr_ExpectedClusterUID req \<in> {[], bm_ClusterUID m}) \<and>
    bm_Objects m \<noteq> [] \<and> distinct (map mo_Key (bm_Objects m)) \<and>
    list_all (\<lambda>x. (\<exists>c. read (Join [pfx, mo_Key x]) = Inr c \<and> int (length c) = mo_SizeBytes x \<and> sha c = mo_SHA256 x) \<and>
                 (\<exists>es. es \<noteq> [] \<and> list_all plain_element es \<and> mo_Key x = join [slash] (''backup'' # es))) (bm_Objects m)"
proof -
  have ok: "bm_ManifestVersion m = ManifestVersion" "Verify printable m (restoreExpectation req engine) = None"
    "ValidateObjectKeys printable m = None" "verify_objects sha read pfx (bm_Objects m) = None"
    using assms(1) by (auto simp: VerifyArtifact_def ParseManifest_def split: sum.splits option.splits if_splits)
  have id: "(rr_Database req = [] \<or> bm_Database m = rr_Database req) \<and>
      EngineSeries (bm_CubridVersion m) = EngineSeries engine \<and> EngineSeries engine \<noteq> [] \<and> bm_Level m = 0 \<and>
      (rr_SeedFromMaster req = [] \<or> bm_SourceRole m = ''master'' \<and> bm_SourceInstance m = rr_SeedFromMaster req \<and>
         rr_ExpectedClusterUID req \<in> {[], bm_ClusterUID m}) \<and> bm_Objects m \<noteq> []"
    using ok(2) assms(2) by (cases "rr_SeedFromMaster req = []")
      (simp_all add: Verify_def restoreExpectation_def Let_def split: if_splits, metis)
  have keys: "distinct (map mo_Key (bm_Objects m))" "\<forall>x \<in> set (bm_Objects m). key_error printable (mo_Key x) = None"
    using validate_keys_None ok(3) unfolding ValidateObjectKeys_def by fastforce+
  then have "\<forall>x \<in> set (bm_Objects m). \<exists>es. es \<noteq> [] \<and> list_all plain_element es \<and> mo_Key x = join [slash] (''backup'' # es)"
    using key_ok_elements by blast
  then show ?thesis using id keys(1) ok(1,4) unfolding verify_objects_None list_all_iff ManifestVersion_def by blast
qed

definition demo_manifest :: BackupManifest where
  "demo_manifest = \<lparr>bm_ManifestVersion = 1, bm_Database = ''db'', bm_ClusterUID = ''u'', bm_CubridVersion = ''11.4.6.1963'',
     bm_Level = 0, bm_SourceInstance = ''c-1'', bm_SourceRole = ''slave'', bm_CreatedAt = [], bm_OperationID = [],
     bm_Objects = [\<lparr>mo_Key = ''backup/f'', mo_SizeBytes = 2, mo_SHA256 = ''xy''\<rparr>]\<rparr>"

definition demo_bucket :: bucket where
  "demo_bucket = [''p/manifest.json'' \<mapsto> ''json'', ''p/backup/f'' \<mapsto> ''xy'']"

theorem trusted_artifact_is_the_expected_one_and_whole_witness:
  "VerifyArtifact (\<lambda>_. False) id (\<lambda>d. if d = ''json'' then Inr demo_manifest else Inl ''bad'') (reader demo_bucket) ''p''
     (restoreExpectation demo_restore_request ''11.4'') = Inr demo_manifest \<and> bm_Objects demo_manifest \<noteq> [] \<and>
   EngineSeries (bm_CubridVersion demo_manifest) = EngineSeries ''11.4''"
proof -
  have v: "VerifyArtifact (\<lambda>_. False) id (\<lambda>d. if d = ''json'' then Inr demo_manifest else Inl ''bad'') (reader demo_bucket) ''p''
     (restoreExpectation demo_restore_request ''11.4'') = Inr demo_manifest" by code_simp
  from trusted_artifact_is_the_expected_one_and_whole [OF v] v show ?thesis by simp
qed

subsection \<open>The manifest is written last\<close>

text \<open>A prefix, or the path of a staged file below its directory, as the manager makes them: clean, relative
  and without dots.\<close>

definition clean_key :: "string \<Rightarrow> bool" where
  "clean_key p \<longleftrightarrow> p \<noteq> [] \<and> \<not> IsAbs p \<and> Clean p = p \<and> list_all (\<lambda>e. e \<noteq> ''..'' \<and> e \<noteq> ''.'') (split_slash p)"

lemma clean_key_elements:
  assumes "clean_key p"
  obtains es where "es \<noteq> []" "list_all plain_element es" "p = join [slash] es"
  using that [of "split_slash p"] assms clean_rel_elements join_split_slash unfolding clean_key_def list_all_iff by auto

lemma clean_keyI:
  assumes "es \<noteq> []" "list_all plain_element es"
  shows "clean_key (join [slash] es)"
proof -
  have "split_slash (join [slash] es) = es" using assms by (intro split_slash_join) (auto simp: list_all_iff plain_element_def)
  moreover have "\<not> IsAbs (join [slash] es)"
  proof -
    have "plain_element (hd es)" using assms by (cases es) auto
    then have "hd es \<noteq> []" "hd (hd es) \<noteq> slash" by (auto simp: plain_element_def dest: hd_in_set)
    then show ?thesis using assms(1) by (simp add: IsAbs_def hd_join)
  qed
  ultimately show ?thesis
    using assms Clean_rel_path [OF assms] by (auto simp: clean_key_def join_empty_iff list_all_iff plain_element_def)
qed

lemma backup_plain: "plain_element ''backup''" "plain_element ''manifest.json''"
  by (simp_all add: plain_element_def)

lemma object_key:
  assumes "clean_key pfx" "clean_key rel"
  shows "Join [pfx, ''backup'', rel] = Join [pfx, Join [''backup'', rel]]"
    and "Join [pfx, ''backup'', rel] \<noteq> Join [pfx, ManifestObjectName]"
    and "clean_key rel' \<Longrightarrow> Join [pfx, ''backup'', rel] = Join [pfx, ''backup'', rel'] \<longleftrightarrow> rel = rel'"
proof -
  obtain ps where ps: "ps \<noteq> []" "list_all plain_element ps" "pfx = join [slash] ps" using assms(1) by (rule clean_key_elements)
  obtain es where es: "es \<noteq> []" "list_all plain_element es" "rel = join [slash] es" using assms(2) by (rule clean_key_elements)
  have key: "Join [pfx, ''backup'', rel] = join [slash] (ps @ ''backup'' # es)"
    unfolding ps(3) es(3) using Join_rel_paths3 [OF ps(1,2) backup_plain(1) es(1,2)] .
  have "Join [''backup'', rel] = join [slash] (''backup'' # es)"
    using Join_rel_paths [of "[''backup'']" es] es backup_plain(1) by simp
  then show "Join [pfx, ''backup'', rel] = Join [pfx, Join [''backup'', rel]]"
    using key Join_rel_paths [of ps "''backup'' # es"] ps es backup_plain(1) by simp
  have man: "Join [pfx, ManifestObjectName] = join [slash] (ps @ [''manifest.json''])"
    using Join_rel_paths [of ps "[''manifest.json'']"] ps backup_plain(2) by (simp add: ManifestObjectName_def)
  have "join [slash] (ps @ ''backup'' # es) \<noteq> join [slash] (ps @ [''manifest.json''])"
    using join_slash_inject [of "ps @ ''backup'' # es" "ps @ [''manifest.json'']"] ps es backup_plain by auto
  then show "Join [pfx, ''backup'', rel] \<noteq> Join [pfx, ManifestObjectName]" unfolding key man .
  show "Join [pfx, ''backup'', rel] = Join [pfx, ''backup'', rel'] \<longleftrightarrow> rel = rel'" if rel': "clean_key rel'"
  proof -
    obtain fs where fs: "fs \<noteq> []" "list_all plain_element fs" "rel' = join [slash] fs" using rel' by (rule clean_key_elements)
    have "Join [pfx, ''backup'', rel'] = join [slash] (ps @ ''backup'' # fs)"
      unfolding ps(3) fs(3) using Join_rel_paths3 [OF ps(1,2) backup_plain(1) fs(1,2)] .
    moreover have "join [slash] (ps @ ''backup'' # es) = join [slash] (ps @ ''backup'' # fs) \<longleftrightarrow> es = fs"
      using join_slash_inject [of "ps @ ''backup'' # es" "ps @ ''backup'' # fs"] ps(1,2) es(1,2) fs(1,2) backup_plain(1) by auto
    moreover have "rel = rel' \<longleftrightarrow> es = fs"
      unfolding es(3) fs(3) using join_slash_inject [of es fs] es(1,2) fs(1,2) by blast
    ultimately show ?thesis using key by metis
  qed
qed

lemma bucket_after_lookup: "bucket_after before kept k = (case map_of (rev kept) k of Some c \<Rightarrow> Some c | None \<Rightarrow> before k)"
  unfolding bucket_after_def
proof (induction kept rule: rev_induct)
  case (snoc x kept)
  then show ?case by (cases x) simp
qed simp

lemma upload_files_keys:
  "upload_files sha io pfx rels = (r, kept) \<Longrightarrow> x \<in> set kept \<Longrightarrow> \<exists>rel \<in> set rels. fst x = Join [pfx, ''backup'', rel]"
proof (induction rels arbitrary: r kept)
  case (Cons rel rels)
  obtain r' kept' where next': "upload_files sha io pfx rels = (r', kept')" by fastforce
  have "fst x = Join [pfx, ''backup'', rel] \<or> x \<in> set kept'"
    using Cons(2,3) next' by (auto simp: Let_def split: sum.splits option.splits if_splits)
  then show ?case using Cons.IH [OF next'] by auto
qed simp

lemma upload_files_Inr:
  "upload_files sha io pfx rels = (Inr objects, kept) \<Longrightarrow>
     (\<forall>rel \<in> set rels. \<exists>h. fi_hashed (io rel) = Inr h \<and> snd (fi_put (io rel)) = None \<and> fi_stat (io rel) = Inr (int (length h))) \<and>
     objects = map (\<lambda>rel. \<lparr>mo_Key = Join [''backup'', rel], mo_SizeBytes = int (length (projr (fi_hashed (io rel)))),
                            mo_SHA256 = sha (projr (fi_hashed (io rel)))\<rparr>) rels \<and>
     kept = map (\<lambda>rel. (Join [pfx, ''backup'', rel], projr (fi_sent (io rel)))) (filter (\<lambda>rel. fst (fi_put (io rel))) rels)"
proof (induction rels arbitrary: objects kept)
  case (Cons rel rels)
  obtain r' kept' where next': "upload_files sha io pfx rels = (r', kept')" by fastforce
  obtain h c where h: "fi_hashed (io rel) = Inr h" "fi_sent (io rel) = Inr c" "snd (fi_put (io rel)) = None"
      "stat_error (Join [pfx, ''backup'', rel]) (int (length h)) (fi_stat (io rel)) = None"
    using Cons(2) by (auto simp: Let_def split: sum.splits option.splits)
  from h(4) have "fi_stat (io rel) = Inr (int (length h))" by (simp add: stat_error_def Let_def split: sum.splits if_splits)
  moreover obtain objects' where "r' = Inr objects'" using Cons(2) next' h by (cases r') (simp_all add: Let_def)
  ultimately show ?case using Cons(2) h next' Cons.IH [of objects' kept'] by (auto simp: Let_def)
qed simp

lemma manifest_not_among_files:
  assumes "upload_files sha io pfx files = (r, kept)" "clean_key pfx" "list_all clean_key files"
  shows "Join [pfx, ManifestObjectName] \<notin> fst ` set kept"
proof
  assume "Join [pfx, ManifestObjectName] \<in> fst ` set kept"
  then obtain x where "x \<in> set kept" "fst x = Join [pfx, ManifestObjectName]" by force
  then obtain rel where "rel \<in> set files" "Join [pfx, ManifestObjectName] = Join [pfx, ''backup'', rel]"
    using upload_files_keys [OF assms(1)] by metis
  then show False using object_key(2) [OF assms(2)] assms(3) by (metis list_all_iff)
qed

lemma UploadBackup_kept:
  assumes "upload_prefix random spec = Inr pfx" "stagedFiles walked = Inr files"
    "(r, kept) = UploadBackup sha encode random walked open_error io manifest_put spec"
  shows "kept = [] \<or> (\<exists>r' ks. upload_files sha io pfx files = (r', ks) \<and>
           (kept = ks \<or> (\<exists>objects. r' = Inr objects \<and>
              kept = ks @ [(Join [pfx, ManifestObjectName], encode (uploaded_manifest spec objects))])))"
  using assms unfolding UploadBackup_def by (auto simp: Let_def split: if_splits option.splits prod.splits sum.splits)

text \<open>
  C22. The manifest is the completion marker. Whenever the upload is cut off - by an error of its
  own or because the manager dies after any number of objects have been kept - an artifact at a
  location that held no manifest before is trusted only when everything was kept: every staged file
  was read whole, the store accepted it and gave its size afterwards, and the last thing it kept is
  the manifest of all these files.
\<close>

theorem trusted_upload_is_complete:
  assumes "snd (UploadBackup sha encode random walked open_error io manifest_put spec) = sofar @ later"
    and "upload_prefix random spec = Inr pfx" "clean_key pfx" "stagedFiles walked = Inr files" "list_all clean_key files"
    and "before (Join [pfx, ManifestObjectName]) = None"
    and "VerifyArtifact printable sha decode (reader (bucket_after before sofar)) pfx exp = Inr m"
  shows "later = [] \<and>
    (\<exists>objects ks. upload_files sha io pfx files = (Inr objects, ks) \<and>
       sofar = ks @ [(Join [pfx, ManifestObjectName], encode (uploaded_manifest spec objects))] \<and>
       map mo_Key objects = map (\<lambda>rel. Join [''backup'', rel]) files) \<and>
    list_all (\<lambda>rel. \<exists>h. fi_hashed (io rel) = Inr h \<and> snd (fi_put (io rel)) = None \<and> fi_stat (io rel) = Inr (int (length h))) files"
proof -
  let ?mk = "Join [pfx, ManifestObjectName]"
  obtain r where up: "(r, sofar @ later) = UploadBackup sha encode random walked open_error io manifest_put spec"
    using assms(1) by (metis prod.collapse)
  have "bucket_after before sofar ?mk \<noteq> None"
    using assms(7) by (auto simp: VerifyArtifact_def reader_def split: option.splits)
  then have here: "?mk \<in> fst ` set sofar"
    using assms(6) by (auto simp: bucket_after_lookup split: option.splits dest!: map_of_SomeD intro: rev_image_eqI)
  then obtain r' ks where ks: "upload_files sha io pfx files = (r', ks)" "sofar @ later = ks \<or> (\<exists>objects. r' = Inr objects \<and>
      sofar @ later = ks @ [(?mk, encode (uploaded_manifest spec objects))])"
    using UploadBackup_kept [OF assms(2,4) up] by auto
  have no: "?mk \<notin> fst ` set ks" using manifest_not_among_files [OF ks(1) assms(3,5)] .
  then obtain objects where objects: "r' = Inr objects"
      "sofar @ later = ks @ [(?mk, encode (uploaded_manifest spec objects))]"
    using ks(2) here by (metis UnCI image_Un set_append)
  have "later = []"
  proof (rule ccontr)
    assume "later \<noteq> []"
    then have "sofar @ butlast later = ks" using objects(2) by (metis butlast_append butlast_snoc)
    then show False using no here by auto
  qed
  then show ?thesis using objects ks(1) upload_files_Inr [of sha io pfx files objects ks] by (auto simp: list_all_iff)
qed

definition demo_spec :: UploadSpec where
  "demo_spec = \<lparr>sp_StagingDir = ''/s'', sp_Bucket = ''b'', sp_Prefix = ''p'', sp_Manifest = demo_manifest, sp_Seed = False\<rparr>"

definition demo_prefix :: string where
  "demo_prefix = ''p/attempt-00''"

definition demo_io :: "string \<Rightarrow> file_io" where
  "demo_io rel = \<lparr>fi_hashed = Inr ''xy'', fi_sent = Inr ''xy'', fi_put = (True, None), fi_stat = Inr 2\<rparr>"

definition demo_json :: "BackupManifest \<Rightarrow> string" where
  "demo_json m = (if m = demo_manifest then ''json'' else ''other'')"

definition demo_unjson :: "string \<Rightarrow> string + BackupManifest" where
  "demo_unjson d = (if d = ''json'' then Inr demo_manifest else Inl ''bad'')"

definition demo_kept :: "(string \<times> string) list" where
  "demo_kept = [(''p/attempt-00/backup/f'', ''xy''), (''p/attempt-00/manifest.json'', ''json'')]"

lemma demo_upload:
  "UploadBackup id demo_json (Inr [0]) (Inr [(''f'', Regular)]) None demo_io (True, None) demo_spec =
     (Inr \<lparr>ur_ManifestURI = ''s3://b/p/attempt-00/manifest.json'', ur_ManifestDigest = ''json'', ur_SizeBytes = 2\<rparr>, demo_kept)"
  "upload_prefix (Inr [0]) demo_spec = Inr demo_prefix" "clean_key demo_prefix" "stagedFiles (Inr [(''f'', Regular)]) = Inr [''f'']"
  "clean_key ''f''"
  by code_simp+

theorem trusted_upload_is_complete_witness:
  "\<exists>objects ks. upload_files id demo_io demo_prefix [''f''] = (Inr objects, ks) \<and>
     demo_kept = ks @ [(Join [demo_prefix, ManifestObjectName], demo_json (uploaded_manifest demo_spec objects))] \<and>
     map mo_Key objects = [Join [''backup'', ''f'']]"
proof -
  have "VerifyArtifact (\<lambda>_. False) id demo_unjson (reader (bucket_after (\<lambda>_. None) demo_kept)) demo_prefix
          (restoreExpectation demo_restore_request ''11.4'') = Inr demo_manifest" by code_simp
  from trusted_upload_is_complete [of id demo_json "Inr [0]" "Inr [(''f'', Regular)]" None demo_io "(True, None)" demo_spec
    demo_kept "[]", OF _ demo_upload(2-4) _ _ this] demo_upload show ?thesis by simp
qed

subsection \<open>A completed upload is trusted\<close>

lemma clean_key_object:
  assumes "clean_key rel" "CHR 0x00 \<notin> set rel" "CHR 0x5C \<notin> set rel"
  shows "Join [''backup'', rel] = ''backup/'' @ rel" "key_error printable (Join [''backup'', rel]) = None"
proof -
  obtain es where es: "es \<noteq> []" "list_all plain_element es" "rel = join [slash] es" using assms(1) by (rule clean_key_elements)
  have j: "Join [''backup'', rel] = join [slash] (''backup'' # es)"
    using Join_rel_paths [of "[''backup'']" es] es backup_plain(1) by simp
  also have "\<dots> = ''backup/'' @ rel" unfolding es(3) using es(1) by (cases es) simp_all
  finally show k: "Join [''backup'', rel] = ''backup/'' @ rel" .
  have c: "clean_key (''backup/'' @ rel)" using clean_keyI [of "''backup'' # es"] es backup_plain(1) j k by simp
  have "cut_prefix (''backup/'' @ rel) (objectKeyRoot @ [slash]) = (rel, True)"
    by (simp add: cut_prefix_def has_prefix_def objectKeyRoot_def)
  moreover have "rel \<noteq> []" using assms(1) by (simp add: clean_key_def)
  ultimately show "key_error printable (Join [''backup'', rel]) = None"
    using c assms(2,3) unfolding k key_error_def clean_key_def by (auto simp: list_all_iff)
qed

lemma validate_keys_ok:
  "distinct keys \<Longrightarrow> set keys \<inter> set seen = {} \<Longrightarrow> \<forall>k \<in> set keys. key_error printable k = None \<Longrightarrow> validate_keys printable seen keys = None"
  by (induction keys arbitrary: seen) auto

lemma uploaded_lookup:
  assumes "clean_key pfx" "list_all clean_key files" "distinct files" "rel \<in> set files"
  shows "bucket_after before (map (\<lambda>rel. (Join [pfx, ''backup'', rel], content rel)) files @ [(Join [pfx, ManifestObjectName], d)])
           (Join [pfx, Join [''backup'', rel]]) = Some (content rel)"
proof -
  have clean: "clean_key rel'" if "rel' \<in> set files" for rel' using that assms(2) by (simp add: list_all_iff)
  have key: "Join [pfx, Join [''backup'', rel]] = Join [pfx, ''backup'', rel]" "Join [pfx, ''backup'', rel] \<noteq> Join [pfx, ManifestObjectName]"
    using object_key [OF assms(1) clean [OF assms(4)]] by simp_all
  let ?kvs = "map (\<lambda>rel. (Join [pfx, ''backup'', rel], content rel)) files"
  have "inj_on (\<lambda>rel. Join [pfx, ''backup'', rel]) (set files)"
    using object_key(3) [OF assms(1)] clean by (meson inj_onI)
  then have "distinct (map fst ?kvs)" using assms(3) by (simp add: comp_def distinct_map)
  then have "map_of (rev ?kvs) (Join [pfx, ''backup'', rel]) = Some (content rel)"
    using assms(4) by (intro map_of_is_SomeI) (auto simp: rev_map [symmetric] distinct_rev simp flip: rev_map)
  then show ?thesis unfolding key(1) bucket_after_lookup using key(2) by simp
qed

lemma TotalSize_sum: "TotalSize m = wrap64 (sum_list (map mo_SizeBytes (bm_Objects m)))"
proof -
  have "foldl (\<lambda>n x. wrap64 (n + mo_SizeBytes x)) (wrap64 a) xs = wrap64 (a + sum_list (map mo_SizeBytes xs))" for a xs
    by (induction xs arbitrary: a) (simp_all add: wrap64_add add.assoc)
  from this [of 0] show ?thesis by (simp add: TotalSize_def wrap64_id is_int64_def)
qed

text \<open>A completed upload is trusted: when the store keeps what it is sent, the files do not change between the two
  readings, the manifest can be read back from its encoding and the backup's own description fits the restore,
  the location of an upload that succeeded is accepted, and each object reads as the file it was made of.\<close>

lemma completed_upload_is_trusted:
  assumes up: "UploadBackup sha encode random walked open_error io manifest_put spec = (Inr result, kept)"
    and pfx: "upload_prefix random spec = Inr pfx" "clean_key pfx"
    and files: "stagedFiles walked = Inr files" "distinct files"
      "list_all (\<lambda>rel. clean_key rel \<and> CHR 0x00 \<notin> set rel \<and> CHR 0x5C \<notin> set rel) files"
    and store: "list_all (\<lambda>rel. fst (fi_put (io rel)) \<and> fi_sent (io rel) = fi_hashed (io rel)) files" "fst manifest_put"
    and loop: "upload_files sha io pfx files = (Inr objects, ks)"
    and json: "decode (encode (uploaded_manifest spec objects)) = Inr (uploaded_manifest spec objects)"
    and fits: "rr_SeedFromMaster req = []" "bm_Database (sp_Manifest spec) = rr_Database req" "bm_Level (sp_Manifest spec) = 0"
      "EngineSeries (bm_CubridVersion (sp_Manifest spec)) = EngineSeries engine" "EngineSeries engine \<noteq> []"
  shows "VerifyArtifact printable sha decode (reader (bucket_after before kept)) pfx (restoreExpectation req engine) =
      Inr (uploaded_manifest spec objects) \<and>
    map mo_Key objects = map (\<lambda>rel. ''backup/'' @ rel) files \<and> ur_SizeBytes result = wrap64 (sum_list (map mo_SizeBytes objects)) \<and>
    (\<forall>rel \<in> set files. reader (bucket_after before kept) (Join [pfx, ''backup/'' @ rel]) = Inr (projr (fi_hashed (io rel))))"
proof -
  have ks: "files \<noteq> []"
      "kept = ks @ [(Join [pfx, ManifestObjectName], encode (uploaded_manifest spec objects))]"
      "ur_SizeBytes result = TotalSize (uploaded_manifest spec objects)"
    using up pfx(1) files(1) store(2) loop unfolding UploadBackup_def
    by (auto simp: Let_def split: if_splits option.splits prod.splits sum.splits)
  let ?c = "\<lambda>rel. projr (fi_hashed (io rel))"
  note loop' = upload_files_Inr [OF loop]
  have clean: "list_all clean_key files" using files(3) by (rule list.pred_mono_strong) simp
  have kept: "kept = map (\<lambda>rel. (Join [pfx, ''backup'', rel], ?c rel)) files @
                      [(Join [pfx, ManifestObjectName], encode (uploaded_manifest spec objects))]"
    using loop' store(1) ks(2) by (auto simp: list_all_iff)
  have objects: "objects = map (\<lambda>rel. \<lparr>mo_Key = Join [''backup'', rel], mo_SizeBytes = int (length (?c rel)), mo_SHA256 = sha (?c rel)\<rparr>) files"
    using loop' by simp
  have key: "Join [''backup'', rel] = ''backup/'' @ rel" "key_error printable (''backup/'' @ rel) = None" if "rel \<in> set files" for rel
    using clean_key_object(1) [of rel] clean_key_object(2) [of rel printable] that files(3) by (auto simp: list_all_iff)
  have keys: "map mo_Key objects = map (\<lambda>rel. ''backup/'' @ rel) files" unfolding objects using key(1) by simp
  have "distinct (map (\<lambda>rel. ''backup/'' @ rel) files)" using files(2) by (simp add: distinct_map inj_on_def)
  then have valid: "ValidateObjectKeys printable (uploaded_manifest spec objects) = None"
    unfolding ValidateObjectKeys_def using keys key(2) by (auto simp: uploaded_manifest_def intro!: validate_keys_ok)
  have whole: "verify_objects sha (reader (bucket_after before kept)) pfx objects = None"
    unfolding verify_objects_None objects
    using uploaded_lookup [OF pfx(2) clean files(2)] kept by (auto simp: reader_def)
  have there: "reader (bucket_after before kept) (Join [pfx, ManifestObjectName]) = Inr (encode (uploaded_manifest spec objects))"
    unfolding kept bucket_after_lookup reader_def by simp
  have engine: "engine \<noteq> []" using fits(5) EngineSeries_nil by auto
  have "Verify printable (uploaded_manifest spec objects) (restoreExpectation req engine) = None"
    using fits ks(1) engine objects by (simp add: Verify_def uploaded_manifest_def restoreExpectation_def)
  then have "VerifyArtifact printable sha decode (reader (bucket_after before kept)) pfx (restoreExpectation req engine) =
      Inr (uploaded_manifest spec objects)"
    using there valid whole json unfolding VerifyArtifact_def ParseManifest_def by (simp add: uploaded_manifest_def)
  moreover have "reader (bucket_after before kept) (Join [pfx, ''backup/'' @ rel]) = Inr (?c rel)" if "rel \<in> set files" for rel
    using uploaded_lookup [OF pfx(2) clean files(2) that] key(1) [OF that] kept by (simp add: reader_def)
  ultimately show ?thesis using keys ks(3) TotalSize_sum by (simp add: uploaded_manifest_def)
qed

end
