(* ===== verification/Runs.thy ===== *)
theory Runs
  imports Prelude
begin

section \<open>Labelled runs and refinement\<close>

text \<open>
  The components whose goroutines interleave are labelled step relations. A run is the list of its
  labels, the last step last. The locale \<open>refinement\<close> is the contract between such a component and an
  abstract machine that says what it promises: an abstraction function under which every step of the
  component is a step of the machine or leaves its state as it is.
\<close>

inductive runs :: "('s \<Rightarrow> 'l \<Rightarrow> 's \<Rightarrow> bool) \<Rightarrow> 's \<Rightarrow> 'l list \<Rightarrow> 's \<Rightarrow> bool"
  for step :: "'s \<Rightarrow> 'l \<Rightarrow> 's \<Rightarrow> bool" and s :: 's
where
  runs_nil: "runs step s [] s"
| runs_snoc: "runs step s ls t \<Longrightarrow> step t l u \<Longrightarrow> runs step s (ls @ [l]) u"

inductive_cases runs_snocE: "runs step s (ls @ [l]) u"

lemma runs_append: "runs step s (ls @ ms) u \<Longrightarrow> \<exists>t. runs step s ls t \<and> runs step t ms u"
proof (induction ms arbitrary: u rule: rev_induct)
  case Nil
  then show ?case by (auto intro: runs_nil)
next
  case (snoc m ms)
  from snoc.prems obtain t where "runs step s (ls @ ms) t" "step t m u"
    unfolding append_assoc [symmetric] by (rule runs_snocE)
  then show ?case using snoc.IH runs_snoc by metis
qed

lemma runs_cons:
  assumes "step s l t" "runs step t ls u"
  shows "runs step s (l # ls) u"
  using assms(2,1)
proof (induction rule: runs.induct)
  case runs_nil
  then show ?case using runs.runs_snoc [OF runs.runs_nil] by force
next
  case (runs_snoc ls t' l' u)
  then show ?case using runs.runs_snoc [of step s "l # ls"] by simp
qed

lemma runs_stable:
  assumes "runs step s ls t" "P s" "\<And>s l t. P s \<Longrightarrow> step s l t \<Longrightarrow> P t \<and> Q l"
  shows "P t \<and> list_all Q ls"
  using assms by (induction rule: runs.induct) auto

locale refinement =
  fixes init :: "'s \<Rightarrow> bool"
    and step :: "'s \<Rightarrow> 'l \<Rightarrow> 's \<Rightarrow> bool"
    and inv :: "'s \<Rightarrow> bool"
    and abs :: "'s \<Rightarrow> 'a"
    and abs_init :: "'a \<Rightarrow> bool"
    and abs_step :: "'a \<Rightarrow> 'a \<Rightarrow> bool"
  assumes init_refines: "init s \<Longrightarrow> inv s \<and> abs_init (abs s)"
    and step_keeps: "inv s \<Longrightarrow> step s l t \<Longrightarrow> inv t"
    and step_refines: "inv s \<Longrightarrow> step s l t \<Longrightarrow> abs_step (abs s) (abs t) \<or> abs t = abs s"
begin

lemma runs_inv: "runs step s ls t \<Longrightarrow> init s \<Longrightarrow> inv t"
  by (induction rule: runs.induct) (auto dest: init_refines intro: step_keeps)

lemma runs_refines: "runs step s ls t \<Longrightarrow> init s \<Longrightarrow> reach abs_init abs_step (abs t)"
proof (induction rule: runs.induct)
  case runs_nil
  then show ?case using init_refines reach.start by metis
next
  case (runs_snoc ls t l u)
  then show ?case using step_refines [OF runs_inv] reach.move by metis
qed

end

end
