(* ===== verification/Lifecycle.thy ===== *)
theory Lifecycle
  imports ImApi Runs
begin

section \<open>Starting and stopping CUBRID on a member\<close>

text \<open>
  \<^verbatim>\<open>internal/instancemanager/operations.go\<close>: the ordered stop of a member, the admission of the
  operations that may start CUBRID, and the command \<^verbatim>\<open>instance-manager shutdown\<close>, which records the
  stop in a file before it asks the manager and stops CUBRID itself when nobody listens.

  The sections that the code runs under \<^verbatim>\<open>lifeMu\<close> are functions on the record \<open>life\<close>. Around them the
  goroutines of a manager and the shutdown commands of its container run as one labelled step relation,
  \<open>step\<close>: an operation, a call of \<^verbatim>\<open>Stop\<close>, the start of the manager and each command have a program
  counter, and a step is one atomic section of one of them, so that every interleaving is a run.
  Time-outs, failing commands and failing writes of the stop file are choices of the steps. A
  recorded stop is honoured in one step. Left out: what the operations do besides starting CUBRID, and what the commands print. A command's request is
  taken to fail for one of two reasons: nobody listens, or its deadline is over, in which case the
  commands of its own shutdown are not run either.
\<close>

text \<open>\<^verbatim>\<open>strings.Contains(s, part)\<close>.\<close>

definition contains :: "string \<Rightarrow> string \<Rightarrow> bool" where
  "contains part s \<longleftrightarrow> list_ex (\<lambda>i. take (length part) (drop i s) = part) [0..<Suc (length s)]"

subsection \<open>The shared state and the sections under the lock\<close>

record life =
  lf_stopRequested :: bool
  lf_stopping :: bool
  lf_starting :: bool
  lf_opsEnded :: bool
  lf_stopped :: bool
  lf_ops :: nat
  lf_disruptive :: int
  lf_stopFile :: string

definition StopFile :: string where
  "StopFile = ''/tmp/instance-manager-stop-requested''"

datatype life_error = errStopping | errStarting

fun life_error_text :: "life_error \<Rightarrow> string" where
  "life_error_text errStopping = ''the member is stopping''"
| "life_error_text errStarting = ''the manager is starting''"

definition admit :: "life \<Rightarrow> life_error option \<times> life" where
  "admit s =
     (if lf_stopping s then (Some errStopping, s)
      else if lf_starting s then (Some errStarting, s)
      else (None, s\<lparr>lf_ops := Suc (lf_ops s)\<rparr>))"

definition admitResume :: "life \<Rightarrow> life_error option \<times> life" where
  "admitResume s = (if lf_stopping s then (Some errStopping, s) else (None, s\<lparr>lf_ops := Suc (lf_ops s)\<rparr>))"

definition admitDisruptive :: "life \<Rightarrow> life_error option \<times> life" where
  "admitDisruptive s =
     (case admit s of
        (Some e, s') \<Rightarrow> (Some e, s')
      | (None, s') \<Rightarrow> (None, s'\<lparr>lf_disruptive := lf_disruptive s' + 1\<rparr>))"

definition ops_done :: "life \<Rightarrow> life" where
  "ops_done s = s\<lparr>lf_ops := lf_ops s - 1\<rparr>"

definition endDisruptive :: "life \<Rightarrow> life" where
  "endDisruptive s = ops_done (s\<lparr>lf_disruptive := lf_disruptive s - 1\<rparr>)"

definition StopIntended :: "life \<Rightarrow> bool" where
  "StopIntended s \<longleftrightarrow> lf_stopRequested s \<or> lf_disruptive s > 0"

text \<open>What \<^verbatim>\<open>os.Lstat\<close> says of the stop file.\<close>

datatype lstat_answer = NotExist | Exists | LstatError

definition mark_stopping :: "life \<Rightarrow> life" where
  "mark_stopping s = s\<lparr>lf_stopRequested := True, lf_stopping := True, lf_opsEnded := True\<rparr>"

definition honorRecordedStop :: "lstat_answer \<Rightarrow> life \<Rightarrow> bool \<times> life" where
  "honorRecordedStop file s =
     (if lf_stopFile s = [] then (False, s)
      else if file = NotExist then (False, s)
      else (True, mark_stopping s))"

definition stoppingReason :: "life \<Rightarrow> string \<Rightarrow> string" where
  "stoppingReason s reason =
     (if \<not> lf_opsEnded s \<or> contains (life_error_text errStopping) reason then reason
      else life_error_text errStopping @ '': '' @ reason)"

subsection \<open>The commands\<close>

text \<open>A command gives its output and, when it fails, an error.\<close>

type_synonym cli = "string list \<Rightarrow> string \<times> string option"

definition haNotConfigured :: string where
  "haNotConfigured = ''not configured for HA''"

definition join_errors :: "string list \<Rightarrow> string option" where
  "join_errors errs = (if errs = [] then None else Some (join [CHR 0x0A] errs))"

definition Shutdown :: "cli \<Rightarrow> string \<Rightarrow> string option \<times> string list list" where
  "Shutdown cli database =
     (let hb = [''cubrid'', ''heartbeat'', ''stop''];
          sv = [''cubrid'', ''server'', ''stop'', database];
          e1 = (case cli hb of
                  (out, Some err) \<Rightarrow>
                    if contains haNotConfigured out then [] else [''heartbeat stop failed: '' @ err @ '': '' @ out]
                | (out, None) \<Rightarrow> []);
          e2 = (case cli sv of
                  (out, Some err) \<Rightarrow> [''server stop failed: '' @ err @ '': '' @ out]
                | (out, None) \<Rightarrow> [])
      in if database \<noteq> [] then (join_errors (e1 @ e2), [hb, sv]) else (join_errors e1, [hb]))"

definition Backup :: "cli \<Rightarrow> BackupRequest \<Rightarrow> (string + string) \<times> string list list" where
  "Backup cli req =
     (if br_Database req = [] \<or> br_Destination req = [] then (Inl ''database and destination are required'', [])
      else let args = [''cubrid'', ''backupdb'', ''-D'', br_Destination req, ''-C'', ''-l'', itoa (br_Level req),
                       br_Database req @ ''@localhost'']
           in case cli args of
                (out, Some err) \<Rightarrow> (Inl (''backupdb failed: '' @ err @ '': '' @ out), [args])
              | (out, None) \<Rightarrow> (Inr out, [args]))"

definition shutdownReserve :: time where
  "shutdownReserve = 30 * 1000000000"

text \<open>The deadline of the wait for running operations, for a stop that has one.\<close>

definition wait_deadline :: "time \<Rightarrow> time \<Rightarrow> time" where
  "wait_deadline now deadline =
     (let left = deadline - now; half = (if left < 0 then - (- left div 2) else left div 2)
      in deadline - min shutdownReserve half)"

text \<open>The answer to the request of \<^verbatim>\<open>instance-manager shutdown\<close>: none, or a status and a body.\<close>

definition RequestShutdown :: "cli \<Rightarrow> string \<Rightarrow> (int \<times> string) option \<Rightarrow> string option \<times> string list list" where
  "RequestShutdown cli database answer =
     (case answer of
        None \<Rightarrow> Shutdown cli database
      | Some (status, body) \<Rightarrow>
          if status \<noteq> 200
          then (Some (''the manager answered the shutdown with status '' @ itoa status @ '': '' @ trim_space (take 2048 body)), [])
          else (None, []))"

subsection \<open>The goroutines and commands of a container\<close>

datatype op_kind = KPlain | KDisruptive | KResume

datatype op_pc = OIdle | OAdmitted op_kind | OExamined op_kind | OCleared op_kind | OStarting op_kind | OOver

datatype stop_pc =
    SIdle | SRequested | SMarked | SCancelled | SLocked | SWaited bool | SShutting bool | SShut bool bool | SReturned bool

datatype boot_pc = BIdle | BStarting | BListening | BExamined | BResuming nat | BLeaving | BServing | BFailed

text \<open>A command remembers whether it could record the stop, and returns with that and with its success.\<close>

datatype cmd_pc = CIdle | CRecorded bool | CAsking bool nat | CShutting bool | CReturned bool bool

record manager =
  mg_life :: life
  mg_ops :: "nat \<Rightarrow> op_pc"
  mg_stops :: "nat \<Rightarrow> stop_pc"
  mg_locked :: bool
  mg_boot :: boot_pc
  mg_listening :: bool
  mg_recorded :: bool
  mg_cmds :: "nat \<Rightarrow> cmd_pc"

definition manager_init :: manager where
  "manager_init =
     \<lparr>mg_life = \<lparr>lf_stopRequested = False, lf_stopping = False, lf_starting = False, lf_opsEnded = False, lf_stopped = False,
                 lf_ops = 0, lf_disruptive = 0, lf_stopFile = StopFile\<rparr>,
      mg_ops = (\<lambda>_. OIdle), mg_stops = (\<lambda>_. SIdle), mg_locked = False, mg_boot = BIdle, mg_listening = False,
      mg_recorded = False, mg_cmds = (\<lambda>_. CIdle)\<rparr>"

text \<open>A recorded stop is never reported as missing.\<close>

definition lstat_ok :: "bool \<Rightarrow> lstat_answer \<Rightarrow> bool" where
  "lstat_ok recorded file \<longleftrightarrow> recorded \<longrightarrow> file \<noteq> NotExist"

definition admit_kind :: "op_kind \<Rightarrow> life \<Rightarrow> life_error option \<times> life" where
  "admit_kind k = (case k of KPlain \<Rightarrow> admit | KDisruptive \<Rightarrow> admitDisruptive | KResume \<Rightarrow> admitResume)"

definition end_kind :: "op_kind \<Rightarrow> life \<Rightarrow> life" where
  "end_kind k = (if k = KDisruptive then endDisruptive else ops_done)"

datatype agent = Stopper nat | Command nat

datatype label = StartBegins nat | StartEnds nat | ShutdownBegins agent | Internal

inductive step :: "manager \<Rightarrow> label \<Rightarrow> manager \<Rightarrow> bool" where
  op_admit: "mg_ops m n = OIdle \<Longrightarrow> mg_listening m \<Longrightarrow> k \<noteq> KResume \<Longrightarrow> admit_kind k (mg_life m) = (None, l) \<Longrightarrow>
    step m Internal (m\<lparr>mg_life := l, mg_ops := (mg_ops m)(n := OAdmitted k)\<rparr>)"
| op_examine: "mg_ops m n = OAdmitted k \<Longrightarrow> lstat_ok (mg_recorded m) file \<Longrightarrow> honorRecordedStop file (mg_life m) = (b, l) \<Longrightarrow>
    step m Internal (m\<lparr>mg_life := l, mg_ops := (mg_ops m)(n := if b then OAdmitted k else OExamined k)\<rparr>)"
| op_look: "mg_ops m n = OExamined k \<Longrightarrow>
    step m Internal (m\<lparr>mg_ops := (mg_ops m)(n := if lf_stopping (mg_life m) then OAdmitted k else OCleared k)\<rparr>)"
| op_start: "mg_ops m n = OCleared k \<Longrightarrow> step m (StartBegins n) (m\<lparr>mg_ops := (mg_ops m)(n := OStarting k)\<rparr>)"
| op_started: "mg_ops m n = OStarting k \<Longrightarrow> step m (StartEnds n) (m\<lparr>mg_ops := (mg_ops m)(n := OAdmitted k)\<rparr>)"
| op_end: "mg_ops m n = OAdmitted k \<Longrightarrow>
    step m Internal (m\<lparr>mg_life := end_kind k (mg_life m), mg_ops := (mg_ops m)(n := OOver)\<rparr>)"
| stop_request: "mg_stops m n = SIdle \<Longrightarrow> mg_listening m \<Longrightarrow>
    step m Internal (m\<lparr>mg_life := (mg_life m)\<lparr>lf_stopRequested := True\<rparr>, mg_stops := (mg_stops m)(n := SRequested)\<rparr>)"
| stop_mark: "mg_stops m n = SRequested \<Longrightarrow>
    step m Internal (m\<lparr>mg_life := (mg_life m)\<lparr>lf_stopping := True\<rparr>, mg_stops := (mg_stops m)(n := SMarked)\<rparr>)"
| stop_cancel: "mg_stops m n = SMarked \<Longrightarrow>
    step m Internal (m\<lparr>mg_life := (mg_life m)\<lparr>lf_opsEnded := True\<rparr>, mg_stops := (mg_stops m)(n := SCancelled)\<rparr>)"
| stop_lock: "mg_stops m n = SCancelled \<Longrightarrow> \<not> mg_locked m \<Longrightarrow>
    step m Internal (m\<lparr>mg_locked := True, mg_stops := (mg_stops m)(n := SLocked)\<rparr>)"
| stop_again: "mg_stops m n = SLocked \<Longrightarrow> lf_stopped (mg_life m) \<Longrightarrow>
    step m Internal (m\<lparr>mg_locked := False, mg_stops := (mg_stops m)(n := SReturned True)\<rparr>)"
| stop_waited: "mg_stops m n = SLocked \<Longrightarrow> \<not> lf_stopped (mg_life m) \<Longrightarrow> lf_ops (mg_life m) = 0 \<Longrightarrow>
    step m Internal (m\<lparr>mg_stops := (mg_stops m)(n := SWaited True)\<rparr>)"
| stop_timeout: "mg_stops m n = SLocked \<Longrightarrow> \<not> lf_stopped (mg_life m) \<Longrightarrow>
    step m Internal (m\<lparr>mg_stops := (mg_stops m)(n := SWaited False)\<rparr>)"
| stop_shut: "mg_stops m n = SWaited w \<Longrightarrow>
    step m (ShutdownBegins (Stopper n)) (m\<lparr>mg_stops := (mg_stops m)(n := SShutting w)\<rparr>)"
| stop_shut_end: "mg_stops m n = SShutting w \<Longrightarrow> step m Internal (m\<lparr>mg_stops := (mg_stops m)(n := SShut w ok)\<rparr>)"
| stop_return: "mg_stops m n = SShut w ok \<Longrightarrow>
    step m Internal (m\<lparr>mg_life := (mg_life m)\<lparr>lf_stopped := lf_stopped (mg_life m) \<or> w \<and> ok\<rparr>, mg_locked := False,
                      mg_stops := (mg_stops m)(n := SReturned (w \<and> ok))\<rparr>)"
| boot_start: "mg_boot m = BIdle \<Longrightarrow>
    step m Internal (m\<lparr>mg_life := (mg_life m)\<lparr>lf_starting := True\<rparr>, mg_boot := BStarting\<rparr>)"
| boot_listen: "mg_boot m = BStarting \<Longrightarrow> step m Internal (m\<lparr>mg_listening := True, mg_boot := BListening\<rparr>)"
| boot_fail: "mg_boot m = BStarting \<Longrightarrow>
    step m Internal (m\<lparr>mg_life := (mg_life m)\<lparr>lf_starting := False\<rparr>, mg_boot := BFailed\<rparr>)"
| boot_look: "mg_boot m = BListening \<Longrightarrow> lstat_ok (mg_recorded m) file \<Longrightarrow> honorRecordedStop file (mg_life m) = (b, l) \<Longrightarrow>
    step m Internal (m\<lparr>mg_life := l, mg_boot := if b then BLeaving else BExamined\<rparr>)"
| boot_resume: "mg_boot m = BExamined \<Longrightarrow> mg_ops m n = OIdle \<Longrightarrow> admit_kind KResume (mg_life m) = (None, l) \<Longrightarrow>
    step m Internal (m\<lparr>mg_life := l, mg_ops := (mg_ops m)(n := OAdmitted KResume), mg_boot := BResuming n\<rparr>)"
| boot_skip: "mg_boot m = BExamined \<Longrightarrow> step m Internal (m\<lparr>mg_boot := BLeaving\<rparr>)"
| boot_resumed: "mg_boot m = BResuming n \<Longrightarrow> mg_ops m n = OOver \<Longrightarrow> step m Internal (m\<lparr>mg_boot := BLeaving\<rparr>)"
| boot_leave: "mg_boot m = BLeaving \<Longrightarrow>
    step m Internal (m\<lparr>mg_life := (mg_life m)\<lparr>lf_starting := False\<rparr>, mg_boot := BServing\<rparr>)"
| cmd_record: "mg_cmds m c = CIdle \<Longrightarrow>
    step m Internal (m\<lparr>mg_recorded := mg_recorded m \<or> ok, mg_cmds := (mg_cmds m)(c := CRecorded ok)\<rparr>)"
| cmd_ask: "mg_cmds m c = CRecorded ok \<Longrightarrow> mg_listening m \<Longrightarrow> mg_stops m n = SIdle \<Longrightarrow>
    step m Internal (m\<lparr>mg_cmds := (mg_cmds m)(c := CAsking ok n)\<rparr>)"
| cmd_answered: "mg_cmds m c = CAsking ok n \<Longrightarrow> mg_stops m n = SReturned r \<Longrightarrow>
    step m Internal (m\<lparr>mg_cmds := (mg_cmds m)(c := CReturned ok r)\<rparr>)"
| cmd_unanswered: "mg_cmds m c = CAsking ok n \<Longrightarrow> step m Internal (m\<lparr>mg_cmds := (mg_cmds m)(c := CReturned ok False)\<rparr>)"
| cmd_shut: "mg_cmds m c = CRecorded ok \<Longrightarrow> \<not> mg_listening m \<Longrightarrow>
    step m (ShutdownBegins (Command c)) (m\<lparr>mg_cmds := (mg_cmds m)(c := CShutting ok)\<rparr>)"
| cmd_shut_end: "mg_cmds m c = CShutting ok \<Longrightarrow> step m Internal (m\<lparr>mg_cmds := (mg_cmds m)(c := CReturned ok r)\<rparr>)"

inductive_cases stepE: "step m l m'"

subsection \<open>Invariants\<close>

definition live_of :: "(nat \<Rightarrow> op_pc) \<Rightarrow> nat set" where
  "live_of ops = {n. ops n \<noteq> OIdle \<and> ops n \<noteq> OOver}"

definition starts_of :: "(nat \<Rightarrow> op_pc) \<Rightarrow> nat set" where
  "starts_of ops = {n. \<exists>k. ops n = OStarting k}"

abbreviation live_ops :: "manager \<Rightarrow> nat set" where
  "live_ops m \<equiv> live_of (mg_ops m)"

abbreviation starts :: "manager \<Rightarrow> nat set" where
  "starts m \<equiv> starts_of (mg_ops m)"

text \<open>No operation lives and none will be admitted: the member is stopping, or the manager has yet to
  look for the stop that is recorded.\<close>

definition closed :: "manager \<Rightarrow> bool" where
  "closed m \<longleftrightarrow> live_ops m = {} \<and>
     (lf_stopping (mg_life m) \<or> mg_recorded m \<and> mg_boot m \<in> {BIdle, BStarting, BListening, BFailed})"

definition inv_count :: "manager \<Rightarrow> bool" where
  "inv_count m \<longleftrightarrow> finite (live_ops m) \<and> lf_ops (mg_life m) = card (live_ops m)"

definition inv_boot :: "manager \<Rightarrow> bool" where
  "inv_boot m \<longleftrightarrow> lf_stopFile (mg_life m) = StopFile \<and>
     (mg_listening m \<longleftrightarrow> mg_boot m \<notin> {BIdle, BStarting, BFailed}) \<and> (mg_listening m \<or> live_ops m = {}) \<and>
     (lf_starting (mg_life m) \<longleftrightarrow> mg_boot m \<notin> {BIdle, BServing, BFailed}) \<and>
     (\<forall>c. mg_cmds m c = CRecorded True \<longrightarrow> mg_recorded m)"

definition inv_stops :: "manager \<Rightarrow> bool" where
  "inv_stops m \<longleftrightarrow> (\<forall>n. mg_stops m n \<in> {SIdle, SRequested} \<or> lf_stopping (mg_life m))"

definition succeeded :: "manager \<Rightarrow> bool" where
  "succeeded m \<longleftrightarrow> lf_stopped (mg_life m) \<or> (\<exists>n. mg_stops m n = SReturned True) \<or> (\<exists>c. mg_cmds m c = CReturned True True)"

text \<open>The phases of a stop and of a command in which nothing may start any more.\<close>

fun stop_sealed :: "stop_pc \<Rightarrow> bool" where
  "stop_sealed (SWaited w) = w"
| "stop_sealed (SShutting w) = w"
| "stop_sealed (SShut w ok) = w"
| "stop_sealed (SReturned r) = r"
| "stop_sealed _ = False"

fun cmd_sealed :: "cmd_pc \<Rightarrow> bool" where
  "cmd_sealed (CShutting ok) = ok"
| "cmd_sealed (CReturned ok r) = (ok \<and> r)"
| "cmd_sealed _ = False"

definition sealed :: "manager \<Rightarrow> bool" where
  "sealed m \<longleftrightarrow> lf_stopped (mg_life m) \<or> (\<exists>n. stop_sealed (mg_stops m n)) \<or> (\<exists>c. cmd_sealed (mg_cmds m c))"

definition inv_closed :: "manager \<Rightarrow> bool" where
  "inv_closed m \<longleftrightarrow> (sealed m \<longrightarrow> closed m)"

definition inv :: "manager \<Rightarrow> bool" where
  "inv m \<longleftrightarrow> inv_count m \<and> inv_boot m \<and> inv_stops m \<and> inv_closed m"

lemma live_upd: "live_of (ops(n := pc)) = (if pc = OIdle \<or> pc = OOver then live_of ops - {n} else insert n (live_of ops))"
  by (auto simp: live_of_def)

lemma starts_upd: "starts_of (ops(n := pc)) = (if \<exists>k. pc = OStarting k then insert n (starts_of ops) else starts_of ops - {n})"
  by (auto simp: starts_of_def)

lemma live_in: "ops n = OAdmitted k \<Longrightarrow> n \<in> live_of ops" "ops n = OExamined k \<Longrightarrow> n \<in> live_of ops"
  "ops n = OCleared k \<Longrightarrow> n \<in> live_of ops" "ops n = OStarting k \<Longrightarrow> n \<in> live_of ops" "ops n = OIdle \<Longrightarrow> n \<notin> live_of ops"
  by (simp_all add: live_of_def)

lemma admit_kind_None:
  assumes "admit_kind k l = (None, l')"
  shows "\<not> lf_stopping l" "k \<noteq> KResume \<Longrightarrow> \<not> lf_starting l" "lf_ops l' = Suc (lf_ops l)"
    "lf_stopFile l' = lf_stopFile l" "lf_starting l' = lf_starting l" "lf_stopping l' = lf_stopping l" "lf_stopped l' = lf_stopped l"
  using assms by (auto simp: admit_kind_def admit_def admitResume_def admitDisruptive_def split: op_kind.splits if_splits)

lemma end_kind_simps [simp]:
  "lf_ops (end_kind k l) = lf_ops l - 1" "lf_stopping (end_kind k l) = lf_stopping l" "lf_starting (end_kind k l) = lf_starting l"
  "lf_stopFile (end_kind k l) = lf_stopFile l" "lf_stopped (end_kind k l) = lf_stopped l"
  by (simp_all add: end_kind_def endDisruptive_def ops_done_def)

lemma honor_cases:
  assumes "honorRecordedStop file l = (b, l')"
  shows "lf_ops l' = lf_ops l" "lf_starting l' = lf_starting l" "lf_stopFile l' = lf_stopFile l" "lf_stopped l' = lf_stopped l"
    "lf_stopping l' = (lf_stopping l \<or> b)" "lf_stopFile l \<noteq> [] \<Longrightarrow> file \<noteq> NotExist \<Longrightarrow> b"
  using assms by (auto simp: honorRecordedStop_def mark_stopping_def split: if_splits)

lemma StopFile_nonempty [simp]: "StopFile \<noteq> []"
  by (simp add: StopFile_def)

lemma inv_count_step: "inv_count m \<Longrightarrow> step m l m' \<Longrightarrow> inv_count m'"
  by (erule stepE)
    (auto simp: inv_count_def live_upd live_in admit_kind_None honor_cases card_insert_if card_Diff_singleton insert_absorb)

lemma stop_file_step: "step m l m' \<Longrightarrow> lf_stopFile (mg_life m') = lf_stopFile (mg_life m)"
  by (erule stepE) (simp_all add: admit_kind_None honor_cases)

lemma listening_step:
  "(mg_listening m \<longleftrightarrow> mg_boot m \<notin> {BIdle, BStarting, BFailed}) \<Longrightarrow> step m l m' \<Longrightarrow>
     (mg_listening m' \<longleftrightarrow> mg_boot m' \<notin> {BIdle, BStarting, BFailed})"
  by (erule stepE) simp_all

lemma listening_live_step:
  "(mg_listening m \<longleftrightarrow> mg_boot m \<notin> {BIdle, BStarting, BFailed}) \<Longrightarrow> mg_listening m \<or> live_ops m = {} \<Longrightarrow> step m l m' \<Longrightarrow>
     mg_listening m' \<or> live_ops m' = {}"
  by (erule stepE) (auto simp: live_upd dest: live_in)

lemma starting_step:
  "(lf_starting (mg_life m) \<longleftrightarrow> mg_boot m \<notin> {BIdle, BServing, BFailed}) \<Longrightarrow> step m l m' \<Longrightarrow>
     (lf_starting (mg_life m') \<longleftrightarrow> mg_boot m' \<notin> {BIdle, BServing, BFailed})"
  by (erule stepE) (simp_all add: admit_kind_None(5) honor_cases(2))

lemma recorded_step:
  "\<forall>c. mg_cmds m c = CRecorded True \<longrightarrow> mg_recorded m \<Longrightarrow> step m l m' \<Longrightarrow> \<forall>c. mg_cmds m' c = CRecorded True \<longrightarrow> mg_recorded m'"
  by (erule stepE) auto

lemma inv_boot_step:
  assumes "inv_boot m" "step m l m'"
  shows "inv_boot m'"
proof -
  note i = assms(1) [unfolded inv_boot_def]
  show ?thesis
    unfolding inv_boot_def stop_file_step [OF assms(2)]
    using i listening_step [OF _ assms(2)] listening_live_step [OF _ _ assms(2)] starting_step [OF _ assms(2)]
      recorded_step [OF _ assms(2)] by (intro conjI) blast+
qed

lemma stopping_step: "lf_stopping (mg_life m) \<Longrightarrow> step m l m' \<Longrightarrow> lf_stopping (mg_life m')"
  by (erule stepE) (simp_all add: admit_kind_None(6) honor_cases(5))

lemma inv_stops_step:
  assumes "inv_stops m" "step m l m'"
  shows "inv_stops m'"
proof (cases "lf_stopping (mg_life m)")
  case True
  then show ?thesis using stopping_step assms(2) by (simp add: inv_stops_def)
next
  case False
  then have none: "mg_stops m n = SIdle \<or> mg_stops m n = SRequested" for n using assms(1) by (auto simp: inv_stops_def)
  have no: "mg_stops m n \<noteq> SMarked" "mg_stops m n \<noteq> SCancelled" "mg_stops m n \<noteq> SLocked" "mg_stops m n \<noteq> SWaited w"
    "mg_stops m n \<noteq> SShutting w" "mg_stops m n \<noteq> SShut w ok" for n w ok
    using none [of n] by auto
  from assms(2) show ?thesis by (cases rule: step.cases) (use none in \<open>auto simp: no inv_stops_def\<close>)
qed

lemma closed_starts: "closed m \<Longrightarrow> starts m = {}"
  using live_in(4) unfolding closed_def starts_of_def by blast

lemma closed_step:
  assumes "inv_boot m" "closed m" "step m l m'"
  shows "closed m' \<and> (\<forall>n. l \<noteq> StartBegins n \<and> l \<noteq> StartEnds n)"
proof -
  have none: "mg_ops m n = OIdle \<or> mg_ops m n = OOver" for n using assms(2) by (auto simp: closed_def live_of_def)
  have no: "mg_ops m n \<noteq> OAdmitted k" "mg_ops m n \<noteq> OExamined k" "mg_ops m n \<noteq> OCleared k" "mg_ops m n \<noteq> OStarting k" for n k
    using none [of n] by auto
  have no_admit: "admit_kind k (mg_life m) \<noteq> (None, x)" if "mg_listening m" "k \<noteq> KResume" for k x
    using assms(1,2) that admit_kind_None(1,2) [of k "mg_life m" x] by (auto simp: closed_def inv_boot_def)
  have no_resume: "admit_kind KResume (mg_life m) \<noteq> (None, x)" if "mg_boot m = BExamined" for x
    using assms(2) that admit_kind_None(1) [of KResume "mg_life m" x] by (auto simp: closed_def)
  from assms(3) show ?thesis
  proof (cases rule: step.cases)
    case (boot_look f b life)
    then show ?thesis
      using assms(1,2) honor_cases(5,6) [of f "mg_life m" b life] by (auto simp: closed_def inv_boot_def lstat_ok_def)
  qed (use assms(2) no_admit no_resume in \<open>auto simp: no closed_def\<close>)
qed

text \<open>What makes a member closed: the wait of a stop that has seen every operation end, and a command that
  finds nobody listening after it has recorded the stop.\<close>

lemma sealed_step:
  assumes "step m l m'" "\<not> sealed m" "\<And>n. mg_stops m n = SLocked \<Longrightarrow> lf_ops (mg_life m) \<noteq> 0"
    "\<And>c. mg_cmds m c = CRecorded True \<Longrightarrow> mg_listening m"
  shows "\<not> sealed m'"
proof -
  have life: "\<not> lf_stopped (mg_life m)" and ns: "\<not> stop_sealed (mg_stops m n)" and nc: "\<not> cmd_sealed (mg_cmds m c)" for n c
    using assms(2) by (auto simp: sealed_def)
  have s: "mg_stops m n = SWaited w \<Longrightarrow> \<not> w" "mg_stops m n = SShutting w \<Longrightarrow> \<not> w" "mg_stops m n = SShut w ok \<Longrightarrow> \<not> w"
    "mg_stops m n = SReturned w \<Longrightarrow> \<not> w" for n w ok
    using ns [of n] by simp_all
  have c: "mg_cmds m c = CShutting ok \<Longrightarrow> \<not> ok" for c ok using nc [of c] by simp
  have keep: "\<not> sealed m'" if "lf_stopped (mg_life m') = lf_stopped (mg_life m)" "\<And>n. \<not> stop_sealed (mg_stops m' n)"
      "\<And>c. \<not> cmd_sealed (mg_cmds m' c)"
    using that life by (simp add: sealed_def)
  from assms(1) show ?thesis
    by (cases rule: step.cases;
      intro keep; use life ns nc in \<open>simp add: admit_kind_None(7) honor_cases(4)\<close>; auto dest: s c assms(3,4))
qed

lemma inv_closed_step:
  assumes "inv_count m" "inv_boot m" "inv_stops m" "inv_closed m" "step m l m'"
  shows "inv_closed m'"
  unfolding inv_closed_def
proof
  assume "sealed m'"
  then consider "sealed m" | n where "mg_stops m n = SLocked" "lf_ops (mg_life m) = 0"
    | c where "mg_cmds m c = CRecorded True" "\<not> mg_listening m"
    using sealed_step [OF assms(5)] by blast
  then have "closed m"
  proof cases
    case 1
    then show ?thesis using assms(4) by (simp add: inv_closed_def)
  next
    case 2
    moreover have "lf_stopping (mg_life m)"
      using 2(1) assms(3) [unfolded inv_stops_def, THEN spec, of n] by simp
    ultimately show ?thesis using assms(1) by (auto simp: inv_count_def closed_def)
  next
    case 3
    then show ?thesis using assms(2) by (auto simp: inv_boot_def closed_def)
  qed
  then show "closed m'" using closed_step [OF assms(2) _ assms(5)] by blast
qed

lemma life_inv_init: "inv manager_init"
  by (simp add: inv_def inv_count_def inv_boot_def inv_stops_def inv_closed_def sealed_def manager_init_def live_of_def)

lemma life_inv_step: "inv m \<Longrightarrow> step m l m' \<Longrightarrow> inv m'"
  unfolding inv_def using inv_count_step inv_boot_step inv_stops_step inv_closed_step by metis

subsection \<open>Nothing starts after a stop\<close>

text \<open>The starts that run at the end of a list of labels.\<close>

fun track :: "nat set \<Rightarrow> label \<Rightarrow> nat set" where
  "track ns (StartBegins n) = insert n ns"
| "track ns (StartEnds n) = ns - {n}"
| "track ns _ = ns"

definition running_starts :: "label list \<Rightarrow> nat set" where
  "running_starts ls = foldl track {} ls"

fun is_start :: "label \<Rightarrow> bool" where
  "is_start (StartBegins n) = True"
| "is_start (StartEnds n) = True"
| "is_start _ = False"

lemma starts_step: "step m l m' \<Longrightarrow> starts m' = track (starts m) l"
  by (erule stepE) (auto simp: starts_of_def split: if_splits)

lemma runs_running: "runs step m ls m' \<Longrightarrow> starts m = {} \<Longrightarrow> running_starts ls = starts m'"
  by (induction rule: runs.induct) (simp_all add: running_starts_def starts_step)

lemma life_runs_inv: "runs step m ls m' \<Longrightarrow> inv m \<Longrightarrow> inv m'"
  by (induction rule: runs.induct) (auto intro: life_inv_step)

lemma closed_step_no_start:
  assumes "inv m" "closed m" "step m l m'"
  shows "inv m'" "closed m'" "\<not> is_start l"
proof -
  have "inv_boot m" using assms(1) by (simp add: inv_def)
  from closed_step [OF this assms(2,3)] show "closed m'" "\<not> is_start l" by (simp_all, cases l) simp_all
  show "inv m'" using life_inv_step assms(1,3) .
qed

lemma closed_runs:
  assumes "runs step m ls m'" "inv m" "closed m"
  shows "closed m' \<and> list_all (\<lambda>l. \<not> is_start l) ls"
proof -
  have "(inv u \<and> closed u) \<and> \<not> is_start l" if "inv t \<and> closed t" "step t l u" for t l u
    using that closed_step_no_start [of t l u] by simp
  from runs_stable [OF assms(1), of "\<lambda>t. inv t \<and> closed t" "\<lambda>l. \<not> is_start l", OF _ this] assms(2,3) show ?thesis by simp
qed

text \<open>The point of a run at which a stop or a command began the shutdown that made it succeed.\<close>

definition sealed_at :: "label list \<Rightarrow> bool" where
  "sealed_at ls \<longleftrightarrow>
     (\<exists>a before after. ls = before @ ShutdownBegins a # after \<and> running_starts before = {} \<and> list_all (\<lambda>l. \<not> is_start l) after)"

definition shut_phase :: "manager \<Rightarrow> bool" where
  "shut_phase m \<longleftrightarrow> lf_stopped (mg_life m) \<or> (\<exists>n. stop_sealed (mg_stops m n) \<and> mg_stops m n \<noteq> SWaited True) \<or> (\<exists>c. cmd_sealed (mg_cmds m c))"

lemma shut_phase_sealed: "shut_phase m \<Longrightarrow> sealed m"
  unfolding shut_phase_def sealed_def by blast

lemma succeeded_shut_phase:
  assumes "succeeded m"
  shows "shut_phase m"
proof -
  consider "lf_stopped (mg_life m)" | n where "mg_stops m n = SReturned True" | c where "mg_cmds m c = CReturned True True"
    using assms unfolding succeeded_def by blast
  then show ?thesis
  proof cases
    case 2
    then have "stop_sealed (mg_stops m n) \<and> mg_stops m n \<noteq> SWaited True" by simp
    then show ?thesis unfolding shut_phase_def by blast
  next
    case 3
    then have "cmd_sealed (mg_cmds m c)" by simp
    then show ?thesis unfolding shut_phase_def by blast
  qed (simp add: shut_phase_def)
qed

lemma shut_phase_step:
  assumes "step m l m'" "\<not> shut_phase m" "\<And>a. l \<noteq> ShutdownBegins a"
  shows "\<not> shut_phase m'"
proof -
  have life: "\<not> lf_stopped (mg_life m)" and ns: "mg_stops m n = SWaited True \<or> \<not> stop_sealed (mg_stops m n)"
    and nc: "\<not> cmd_sealed (mg_cmds m c)" for n c
    using assms(2) by (auto simp: shut_phase_def)
  have s: "mg_stops m n = SShutting w \<Longrightarrow> \<not> w" "mg_stops m n = SShut w ok \<Longrightarrow> \<not> w" "mg_stops m n = SReturned w \<Longrightarrow> \<not> w" for n w ok
    using ns [of n] by simp_all
  have c: "mg_cmds m c = CShutting ok \<Longrightarrow> \<not> ok" for c ok using nc [of c] by simp
  have keep: "\<not> shut_phase m'" if "lf_stopped (mg_life m') = lf_stopped (mg_life m)"
      "\<And>n. mg_stops m' n = SWaited True \<or> \<not> stop_sealed (mg_stops m' n)" "\<And>c. \<not> cmd_sealed (mg_cmds m' c)"
    using that life by (auto simp: shut_phase_def)
  from assms(1,3) show ?thesis
    by (cases rule: step.cases;
      intro keep; use life ns nc in \<open>simp add: admit_kind_None(7) honor_cases(4)\<close>; auto dest: s c)
qed

lemma shut_phase_runs:
  assumes "runs step m ls m'" "m = manager_init" "shut_phase m'"
  shows "sealed_at ls"
  using assms
proof (induction rule: runs.induct)
  case runs_nil
  then show ?case by (simp add: shut_phase_def manager_init_def)
next
  case (runs_snoc ls t l u)
  have inv_t: "inv t" using life_runs_inv [OF runs_snoc.hyps(1)] runs_snoc.prems(1) life_inv_init by simp
  have start: "starts m = {}" using runs_snoc.prems(1) by (simp add: manager_init_def starts_of_def)
  show ?case
  proof (cases "shut_phase t")
    case True
    then have "closed t" using inv_t shut_phase_sealed [OF True] by (simp add: inv_def inv_closed_def)
    then have "\<not> is_start l" using closed_step_no_start(3) [OF inv_t _ runs_snoc.hyps(2)] by simp
    moreover obtain a b v where "ls = b @ ShutdownBegins a # v" "running_starts b = {}" "list_all (\<lambda>l. \<not> is_start l) v"
      using runs_snoc.IH [OF runs_snoc.prems(1) True] unfolding sealed_at_def by blast
    ultimately show ?thesis unfolding sealed_at_def by (intro exI [of _ a] exI [of _ b] exI [of _ "v @ [l]"]) simp
  next
    case False
    then obtain a where a: "l = ShutdownBegins a" using shut_phase_step [OF runs_snoc.hyps(2)] runs_snoc.prems(2) by blast
    have "sealed u" using shut_phase_sealed [OF runs_snoc.prems(2)] .
    then have "closed u" using life_inv_step [OF inv_t runs_snoc.hyps(2)] by (simp add: inv_def inv_closed_def)
    then have "starts u = {}" by (rule closed_starts)
    then have "running_starts ls = {}"
      using runs_running [OF runs_snoc.hyps(1) start] starts_step [OF runs_snoc.hyps(2)] a by simp
    then show ?thesis unfolding sealed_at_def a by (intro exI [of _ a] exI [of _ ls] exI [of _ "[]"]) simp
  qed
qed

text \<open>A run in which the manager starts, an operation starts CUBRID, and a command stops the member.\<close>

definition demo_labels :: "label list" where
  "demo_labels =
     [Internal, Internal, Internal, Internal, Internal, Internal, Internal, Internal,
      StartBegins 7, StartEnds 7, Internal, Internal, Internal, Internal,
      Internal, Internal, Internal, Internal, ShutdownBegins (Stopper 0), Internal, Internal, Internal]"

lemmas demo_simps = manager_init_def admit_kind_def admit_def honorRecordedStop_def lstat_ok_def end_kind_def ops_done_def

lemma runs_step: "step s l t \<Longrightarrow> t = t' \<Longrightarrow> runs step t' ls u \<Longrightarrow> runs step s (l # ls) u"
  using runs_cons by metis

lemma demo_run: "\<exists>m. runs step manager_init demo_labels m \<and> succeeded m"
  unfolding demo_labels_def
  apply (intro exI conjI)
   apply (rule runs_step, rule boot_start, simp add: demo_simps, simp add: demo_simps)
   apply (rule runs_step, rule boot_listen, simp add: demo_simps, simp add: demo_simps)
   apply (rule runs_step, rule boot_look [of _ NotExist False], simp add: demo_simps, simp add: demo_simps, simp add: demo_simps, simp add: demo_simps)
   apply (rule runs_step, rule boot_skip, simp add: demo_simps, simp add: demo_simps)
   apply (rule runs_step, rule boot_leave, simp add: demo_simps, simp add: demo_simps)
   apply (rule runs_step, rule op_admit [of _ 7 KPlain], simp add: demo_simps, simp add: demo_simps, simp, simp add: demo_simps, simp add: demo_simps)
   apply (rule runs_step, rule op_examine [of _ 7 KPlain NotExist False], simp add: demo_simps, simp add: demo_simps, simp add: demo_simps, simp add: demo_simps)
   apply (rule runs_step, rule op_look [of _ 7 KPlain], simp add: demo_simps, simp add: demo_simps)
   apply (rule runs_step, rule op_start [of _ _ KPlain], simp add: demo_simps, simp add: demo_simps)
   apply (rule runs_step, rule op_started [of _ _ KPlain], simp add: demo_simps, simp add: demo_simps)
   apply (rule runs_step, rule op_end [of _ 7 KPlain], simp add: demo_simps, simp add: demo_simps)
   apply (rule runs_step, rule cmd_record [of _ 3 True], simp add: demo_simps, simp add: demo_simps)
   apply (rule runs_step, rule cmd_ask [of _ 3 True 0], simp add: demo_simps, simp add: demo_simps, simp add: demo_simps, simp add: demo_simps)
   apply (rule runs_step, rule stop_request [of _ 0], simp add: demo_simps, simp add: demo_simps, simp add: demo_simps)
   apply (rule runs_step, rule stop_mark [of _ 0], simp add: demo_simps, simp add: demo_simps)
   apply (rule runs_step, rule stop_cancel [of _ 0], simp add: demo_simps, simp add: demo_simps)
   apply (rule runs_step, rule stop_lock [of _ 0], simp add: demo_simps, simp add: demo_simps, simp add: demo_simps)
   apply (rule runs_step, rule stop_waited [of _ 0], simp add: demo_simps, simp add: demo_simps, simp add: demo_simps, simp add: demo_simps)
   apply (rule runs_step, rule stop_shut [of _ 0 True], simp add: demo_simps, simp add: demo_simps)
   apply (rule runs_step, rule stop_shut_end [of _ 0 True True], simp add: demo_simps, simp add: demo_simps)
   apply (rule runs_step, rule stop_return [of _ 0 True True], simp add: demo_simps, simp add: demo_simps)
   apply (rule runs_step, rule cmd_answered [of _ 3 True 0 True], simp add: demo_simps, simp add: demo_simps, simp add: demo_simps)
   apply (rule runs_nil)
  apply (simp add: succeeded_def)
  done

text \<open>
  C23. Nothing starts CUBRID after a stop. However the operations, the stops, the start of the manager
  and the shutdown commands interleave: once a stop of the manager has returned success, or a shutdown
  command that recorded the stop has, the shutdown that succeeded had begun at a moment at which every
  start begun before was over, and from that moment on no start begins, now or at any time later.
\<close>

theorem no_start_after_a_successful_stop:
  assumes "runs step manager_init ls m" "succeeded m" "runs step m later m'"
  shows "\<exists>a before after. ls = before @ ShutdownBegins a # after \<and> running_starts before = {} \<and>
    list_all (\<lambda>l. \<not> is_start l) (after @ later)"
proof -
  have inv_m: "inv m" using life_runs_inv [OF assms(1) life_inv_init] .
  have "sealed_at ls" using shut_phase_runs [OF assms(1) refl] succeeded_shut_phase [OF assms(2)] .
  moreover have "sealed m" using shut_phase_sealed succeeded_shut_phase [OF assms(2)] .
  then have "list_all (\<lambda>l. \<not> is_start l) later"
    using closed_runs [OF assms(3) inv_m] inv_m by (simp add: inv_def inv_closed_def)
  ultimately show ?thesis unfolding sealed_at_def by fastforce
qed

theorem no_start_after_a_successful_stop_witness:
  "\<exists>a before after. demo_labels = before @ ShutdownBegins a # after \<and> running_starts before = {} \<and> list_all (\<lambda>l. \<not> is_start l) after"
proof -
  obtain m where "runs step manager_init demo_labels m" "succeeded m" using demo_run by blast
  from no_start_after_a_successful_stop [OF this runs_nil] show ?thesis by simp
qed

text \<open>What a member promises, as an abstract machine: starts run one beside the other while a gate is open;
  the gate is shut only when none runs, and for good.\<close>

record gate =
  gt_starts :: "nat set"
  gt_shut :: bool

definition gate_init :: "gate \<Rightarrow> bool" where
  "gate_init g \<longleftrightarrow> gt_starts g = {} \<and> \<not> gt_shut g"

inductive gate_step :: "gate \<Rightarrow> gate \<Rightarrow> bool" where
  gate_begin: "\<not> gt_shut g \<Longrightarrow> gate_step g (g\<lparr>gt_starts := insert n (gt_starts g)\<rparr>)"
| gate_end: "n \<in> gt_starts g \<Longrightarrow> gate_step g (g\<lparr>gt_starts := gt_starts g - {n}\<rparr>)"
| gate_shut: "gt_starts g = {} \<Longrightarrow> gate_step g (g\<lparr>gt_shut := True\<rparr>)"

definition gate_of :: "manager \<Rightarrow> gate" where
  "gate_of m = \<lparr>gt_starts = starts m, gt_shut = closed m\<rparr>"

lemma started_in: "step m (StartEnds n) m' \<Longrightarrow> n \<in> starts m"
  by (erule stepE) (auto simp: starts_of_def)

lemma start_label_closed: "step m l m' \<Longrightarrow> is_start l \<Longrightarrow> closed m' \<Longrightarrow> closed m \<or> l = Internal"
  by (erule stepE) (auto simp: closed_def live_upd)

lemma gate_refines:
  assumes "inv m" "step m l m'"
  shows "gate_step (gate_of m) (gate_of m') \<or> gate_of m' = gate_of m"
proof (cases l)
  case (StartBegins n)
  have "\<not> closed m" using closed_step_no_start(3) [OF assms(1) _ assms(2)] StartBegins by auto
  moreover have "\<not> closed m'" using start_label_closed [OF assms(2)] calculation StartBegins by auto
  ultimately show ?thesis
    using gate_begin [of "gate_of m" n] starts_step [OF assms(2)] StartBegins by (simp add: gate_of_def)
next
  case (StartEnds n)
  have "\<not> closed m" using closed_step_no_start(3) [OF assms(1) _ assms(2)] StartEnds by auto
  moreover have "\<not> closed m'" using start_label_closed [OF assms(2)] calculation StartEnds by auto
  ultimately show ?thesis
    using gate_end [of n "gate_of m"] started_in [OF assms(2) [unfolded StartEnds]] starts_step [OF assms(2)] StartEnds
    by (simp add: gate_of_def)
qed (use starts_step [OF assms(2)] closed_step_no_start(2) [OF assms(1) _ assms(2)] closed_starts [of m'] gate_shut [of "gate_of m"]
  in \<open>auto simp: gate_of_def\<close>)

interpretation member: refinement "\<lambda>m. m = manager_init" step inv gate_of gate_init gate_step
proof
  show "inv m \<and> gate_init (gate_of m)" if "m = manager_init" for m
    using that life_inv_init by (simp add: gate_init_def gate_of_def manager_init_def starts_of_def closed_def)
qed (use life_inv_step gate_refines in blast)+



end
