(* ===== verification/Watchdog.thy ===== *)
theory Watchdog
  imports Prelude
begin

section \<open>The process watch of the Instance Manager\<close>

text \<open>
  \<^verbatim>\<open>internal/instancemanager/watchdog.go\<close>: the watch that ends the manager, and with it the container,
  when a CUBRID process that the member needs is gone and nobody asked for that. One look gets the
  time, the names of the processes that run (or that they could not be read) and whether their absence
  is intended; the zero time of the Go struct is \<open>None\<close>. \<open>Run\<close> is the loop over the ticks. The reading of
  \<^verbatim>\<open>/proc\<close> and the log are left out.
\<close>

record Watchdog =
  wd_Required :: "string list"
  wd_Grace :: time
  wd_armed :: bool
  wd_missingSince :: "time option"

record look =
  lk_now :: time
  lk_running :: "string list option"
  lk_busy :: bool

definition missing :: "string list \<Rightarrow> string list \<Rightarrow> string option" where
  "missing required running = find (\<lambda>name. name \<notin> set running) required"

definition check :: "look \<Rightarrow> Watchdog \<Rightarrow> bool \<times> Watchdog" where
  "check l w =
     (case lk_running l of
        None \<Rightarrow> (False, w)
      | Some running \<Rightarrow>
          (case missing (wd_Required w) running of
             None \<Rightarrow> (False, w\<lparr>wd_armed := True, wd_missingSince := None\<rparr>)
           | Some name \<Rightarrow>
               if \<not> wd_armed w then (False, w)
               else if lk_busy l then (False, w\<lparr>wd_missingSince := None\<rparr>)
               else case wd_missingSince w of
                      None \<Rightarrow> (False, w\<lparr>wd_missingSince := Some (lk_now l)\<rparr>)
                    | Some since \<Rightarrow> (sub (lk_now l) since > wd_Grace w, w)))"

text \<open>The ticks until the context ends: whether the loop has returned \<^verbatim>\<open>ErrProcessGone\<close>, at which tick, and the watch.\<close>

fun Run :: "nat \<Rightarrow> look list \<Rightarrow> Watchdog \<Rightarrow> nat option \<times> Watchdog" where
  "Run k [] w = (None, w)"
| "Run k (l # ls) w = (case check l w of (True, w') \<Rightarrow> (Some k, w') | (False, w') \<Rightarrow> Run (Suc k) ls w')"

text \<open>A look that shows a needed process gone without anybody having asked for it.\<close>

definition gone :: "string list \<Rightarrow> look \<Rightarrow> bool" where
  "gone required l \<longleftrightarrow> (\<exists>running. lk_running l = Some running \<and> \<not> set required \<subseteq> set running) \<and> \<not> lk_busy l"

definition whole :: "string list \<Rightarrow> look \<Rightarrow> bool" where
  "whole required l \<longleftrightarrow> (\<exists>running. lk_running l = Some running \<and> set required \<subseteq> set running)"

definition unread :: "look \<Rightarrow> bool" where
  "unread l \<longleftrightarrow> lk_running l = None"

lemma missing_None: "missing required running = None \<longleftrightarrow> set required \<subseteq> set running"
  by (auto simp: missing_def find_None_iff)

lemma missing_Some: "missing required running = Some n \<Longrightarrow> \<not> set required \<subseteq> set running"
  using missing_None by (metis option.distinct(1))

text \<open>What the fields of the watch say about the looks so far: \<open>past\<close> is all of them, the last one last.\<close>

definition watch_inv :: "string list \<Rightarrow> time \<Rightarrow> look list \<Rightarrow> Watchdog \<Rightarrow> bool" where
  "watch_inv required grace past w \<longleftrightarrow> wd_Required w = required \<and> wd_Grace w = grace \<and>
     (wd_armed w \<longleftrightarrow> list_ex (whole required) past) \<and>
     (case wd_missingSince w of
        None \<Rightarrow> True
      | Some t \<Rightarrow> \<exists>before l after. past = before @ l # after \<and> list_ex (whole required) before \<and> gone required l \<and> lk_now l = t \<and>
                   list_all (\<lambda>x. unread x \<or> gone required x) after)"

lemma check_inv:
  assumes "watch_inv required grace past w" "check l w = (ended, w')"
  shows "watch_inv required grace (past @ [l]) w'"
    "ended \<Longrightarrow> gone required l \<and> (\<exists>t. wd_missingSince w = Some t \<and> sub (lk_now l) t > grace)"
proof -
  have req: "wd_Required w = required" "wd_Grace w = grace" and armed: "wd_armed w \<longleftrightarrow> list_ex (whole required) past"
    and since: "\<And>t. wd_missingSince w = Some t \<Longrightarrow> \<exists>before l after. past = before @ l # after \<and> list_ex (whole required) before \<and>
      gone required l \<and> lk_now l = t \<and> list_all (\<lambda>x. unread x \<or> gone required x) after"
    using assms(1) unfolding watch_inv_def by auto
  have extend: "\<exists>before m after. past @ [l] = before @ m # after \<and> list_ex (whole required) before \<and> gone required m \<and> lk_now m = t \<and>
      list_all (\<lambda>x. unread x \<or> gone required x) after"
    if t: "wd_missingSince w = Some t" and l: "unread l \<or> gone required l" for t
  proof -
    obtain b m v where "past = b @ m # v" "list_ex (whole required) b" "gone required m" "lk_now m = t"
      "list_all (\<lambda>x. unread x \<or> gone required x) v"
      using since [OF t] by blast
    then show ?thesis using l by (intro exI [of _ b] exI [of _ m] exI [of _ "v @ [l]"]) simp
  qed
  show "watch_inv required grace (past @ [l]) w'"
  proof (cases "lk_running l")
    case None
    then have "unread l" "\<not> whole required l" "w' = w" using assms(2) by (auto simp: unread_def whole_def check_def)
    then show ?thesis unfolding watch_inv_def using req armed extend by (auto split: option.splits)
  next
    case (Some running)
    show ?thesis
    proof (cases "set required \<subseteq> set running")
      case True
      then have "whole required l" "w' = w\<lparr>wd_armed := True, wd_missingSince := None\<rparr>"
        using Some assms(2) req missing_None [of required running] by (auto simp: whole_def check_def)
      then show ?thesis unfolding watch_inv_def using req by simp
    next
      case False
      then obtain n where n: "missing required running = Some n" using missing_None by (metis not_None_eq)
      have w': "\<not> whole required l" using Some False by (simp add: whole_def)
      have g: "gone required l" if "\<not> lk_busy l" using that Some False by (auto simp: gone_def)
      consider "\<not> wd_armed w" "w' = w" | "wd_armed w" "lk_busy l" "w' = w\<lparr>wd_missingSince := None\<rparr>"
        | "wd_armed w" "\<not> lk_busy l" "wd_missingSince w = None" "w' = w\<lparr>wd_missingSince := Some (lk_now l)\<rparr>"
        | t where "wd_armed w" "\<not> lk_busy l" "wd_missingSince w = Some t" "w' = w"
        using assms(2) Some n req(1) by (auto simp: check_def split: if_splits option.splits)
      then show ?thesis
      proof cases
        case 1
        then have "wd_missingSince w = None" using since armed by (cases "wd_missingSince w") fastforce+
        then show ?thesis unfolding watch_inv_def using req armed 1 w' by simp
      next
        case 2
        then show ?thesis unfolding watch_inv_def using req armed w' by simp
      next
        case 3
        then have "\<exists>before m after. past @ [l] = before @ m # after \<and> list_ex (whole required) before \<and> gone required m \<and>
            lk_now m = lk_now l \<and> list_all (\<lambda>x. unread x \<or> gone required x) after"
          using g armed by (intro exI [of _ past] exI [of _ l] exI [of _ "[]"]) simp
        then show ?thesis unfolding watch_inv_def using req armed w' 3 by simp
      next
        case 4
        then show ?thesis unfolding watch_inv_def using req armed w' extend g by simp
      qed
    qed
  qed
  show "gone required l \<and> (\<exists>t. wd_missingSince w = Some t \<and> sub (lk_now l) t > grace)" if ended
    using that assms(2) req missing_Some
    by (auto simp: check_def gone_def split: option.splits if_splits)
qed

lemma Run_append:
  "Run k (xs @ ys) w = (case Run k xs w of (Some i, w') \<Rightarrow> (Some i, w') | (None, w') \<Rightarrow> Run (k + length xs) ys w')"
  by (induction xs arbitrary: k w) (auto split: prod.splits bool.splits option.splits)

lemma Run_inv:
  "Run k ls w = (None, w') \<Longrightarrow> watch_inv required grace past w \<Longrightarrow> watch_inv required grace (past @ ls) w'"
proof (induction ls arbitrary: k w past)
  case (Cons l ls)
  then obtain v where v: "check l w = (False, v)" "Run (Suc k) ls v = (None, w')" by (auto split: prod.splits bool.splits)
  from Cons.IH [OF v(2) check_inv(1) [OF Cons.prems(2) v(1)]] show ?case by simp
qed simp

lemma Run_ended:
  "Run k ls w = (Some i, w') \<Longrightarrow> \<exists>xs l ys v. ls = xs @ l # ys \<and> i = k + length xs \<and> Run k xs w = (None, v) \<and> check l v = (True, w')"
proof (induction ls arbitrary: k w)
  case (Cons l ls)
  show ?case
  proof (cases "check l w")
    case (Pair ended v)
    show ?thesis
    proof (cases ended)
      case True
      then show ?thesis using Cons.prems Pair by (intro exI [of _ "[]"] exI [of _ l] exI [of _ ls] exI [of _ w]) simp
    next
      case False
      then obtain xs m ys u where "ls = xs @ m # ys" "i = Suc k + length xs" "Run (Suc k) xs v = (None, u)" "check m u = (True, w')"
        using Cons.prems Pair Cons.IH [of "Suc k" v] by auto
      then show ?thesis using Pair False by (intro exI [of _ "l # xs"] exI [of _ m] exI [of _ ys] exI [of _ u]) simp
    qed
  qed
qed simp

text \<open>While a process stays gone, the time since which it is missing stays.\<close>

lemma Run_missing:
  assumes "Run k ls w = (None, w')" "list_all (\<lambda>x. unread x \<or> gone (wd_Required w) x) ls" "wd_armed w" "wd_missingSince w = Some t"
  shows "w' = w"
  using assms
proof (induction ls arbitrary: k)
  case (Cons l ls)
  obtain v where v: "check l w = (False, v)" "Run (Suc k) ls v = (None, w')" using Cons.prems(1) by (auto split: prod.splits bool.splits)
  have "v = w"
    using v(1) Cons.prems(2-4) missing_None [of "wd_Required w"]
    by (auto simp: check_def unread_def gone_def split: option.splits if_splits)
  then show ?case using Cons v(2) by simp
qed simp

lemma check_gone:
  assumes "gone (wd_Required w) l" "wd_armed w"
  shows "check l w = (case wd_missingSince w of None \<Rightarrow> (False, w\<lparr>wd_missingSince := Some (lk_now l)\<rparr>)
                      | Some t \<Rightarrow> (sub (lk_now l) t > wd_Grace w, w))"
  using assms missing_None [of "wd_Required w"] by (auto simp: check_def gone_def split: option.splits)

lemma sub_mono: "s \<le> t \<Longrightarrow> sub now t \<le> sub now s"
  by (auto simp: sub_def)

text \<open>
  C33. The watch ends the manager exactly for a process that is gone: among looks whose times do not go
  back, there is one that shows a needed process missing, after one that showed them all, and a later
  one more than the grace period afterwards that shows one missing as well, while every look in
  between that could be made did so too and none found the absence intended. Looks that fail count for
  nothing, and a member that has never been whole is left alone.
\<close>

theorem watch_ends_iff_a_process_stays_gone:
  assumes "sorted (map lk_now ls)" "w = \<lparr>wd_Required = required, wd_Grace = grace, wd_armed = False, wd_missingSince = None\<rparr>"
  shows "fst (Run 0 ls w) \<noteq> None \<longleftrightarrow>
    (\<exists>as b cs d es. ls = as @ b # cs @ d # es \<and> list_ex (whole required) as \<and> gone required b \<and> gone required d \<and>
       list_all (\<lambda>x. unread x \<or> gone required x) cs \<and> sub (lk_now d) (lk_now b) > grace)" (is "?ended \<longleftrightarrow> ?gone")
proof
  have init: "watch_inv required grace [] w" using assms(2) by (simp add: watch_inv_def)
  {
    assume ?ended
    then obtain i w' where "Run 0 ls w = (Some i, w')" by (cases "Run 0 ls w") auto
    from Run_ended [OF this] obtain xs d ys v where split: "ls = xs @ d # ys" "Run 0 xs w = (None, v)" "check d v = (True, w')" by blast
    have inv: "watch_inv required grace xs v" using Run_inv [OF split(2) init] by simp
    obtain t where t: "gone required d" "wd_missingSince v = Some t" "sub (lk_now d) t > grace" using check_inv(2) [OF inv split(3)] by blast
    obtain as b cs where "xs = as @ b # cs" "list_ex (whole required) as" "gone required b" "lk_now b = t"
        "list_all (\<lambda>x. unread x \<or> gone required x) cs"
      using inv t(2) unfolding watch_inv_def by auto
    then show ?gone using t split(1) by (intro exI [of _ as] exI [of _ b] exI [of _ cs] exI [of _ d] exI [of _ ys]) simp
  next
    assume ?gone
    then obtain as b cs d es where ls: "ls = as @ b # cs @ d # es" "list_ex (whole required) as" "gone required b" "gone required d"
        "list_all (\<lambda>x. unread x \<or> gone required x) cs" "sub (lk_now d) (lk_now b) > grace" by blast
    show ?ended
    proof (rule ccontr)
      assume "\<not> ?ended"
      then obtain w1 w2 w3 w4 where r: "Run 0 as w = (None, w1)" "check b w1 = (False, w2)" "Run (Suc (length as)) cs w2 = (None, w3)"
          "check d w3 = (False, w4)"
        unfolding ls(1) by (auto simp: Run_append split: prod.splits option.splits bool.splits)
      have i1: "watch_inv required grace as w1" using Run_inv [OF r(1) init] by simp
      then have w1: "wd_armed w1" "wd_Required w1 = required" "wd_Grace w1 = grace" using ls(2) by (simp_all add: watch_inv_def)
      obtain t where t: "wd_missingSince w2 = Some t" "t \<le> lk_now b" "wd_armed w2" "wd_Required w2 = required" "wd_Grace w2 = grace"
      proof (cases "wd_missingSince w1")
        case None
        then show ?thesis using that [of "lk_now b"] check_gone [of w1 b] w1 ls(3) r(2) by auto
      next
        case (Some t)
        then obtain ys x zs where "as = ys @ x # zs" "lk_now x = t" using i1 unfolding watch_inv_def by auto
        then have "t \<le> lk_now b" using assms(1) unfolding ls(1) by (auto simp: sorted_append)
        then show ?thesis using that [of t] Some check_gone [of w1 b] w1 ls(3) r(2) by auto
      qed
      have "w3 = w2" using Run_missing [OF r(3)] ls(5) t by simp
      then show False using check_gone [of w3 d] t ls(4,6) r(4) sub_mono [OF t(2), of "lk_now d"] by auto
    qed
  }
qed

definition demo_look :: "time \<Rightarrow> string list \<Rightarrow> look" where
  "demo_look t ps = \<lparr>lk_now = t, lk_running = Some ps, lk_busy = False\<rparr>"

theorem watch_ends_iff_a_process_stays_gone_witness:
  "fst (Run 0 [demo_look 0 [''cub_server''], demo_look 5 [], demo_look 40 []]
     \<lparr>wd_Required = [''cub_server''], wd_Grace = 30, wd_armed = False, wd_missingSince = None\<rparr>) \<noteq> None"
proof -
  let ?req = "[''cub_server'']"
  have "list_ex (whole ?req) [demo_look 0 ?req]" "gone ?req (demo_look 5 [])" "gone ?req (demo_look 40 [])"
    by (simp_all add: whole_def gone_def demo_look_def)
  moreover have "sub (lk_now (demo_look 40 [])) (lk_now (demo_look 5 [])) > 30" by code_simp
  ultimately have "\<exists>as b cs d es. [demo_look 0 ?req, demo_look 5 [], demo_look 40 []] = as @ b # cs @ d # es \<and> list_ex (whole ?req) as \<and>
      gone ?req b \<and> gone ?req d \<and> list_all (\<lambda>x. unread x \<or> gone ?req x) cs \<and> sub (lk_now d) (lk_now b) > 30"
    by (intro exI [of _ "[demo_look 0 ?req]"] exI [of _ "demo_look 5 []"] exI [of _ "[]"] exI [of _ "demo_look 40 []"]) simp
  moreover have "sorted (map lk_now [demo_look 0 ?req, demo_look 5 [], demo_look 40 []])" by (simp add: demo_look_def)
  ultimately show ?thesis using watch_ends_iff_a_process_stays_gone [OF _ refl] by blast
qed

end
