(* ===== verification/DbRegistry.thy ===== *)
theory DbRegistry
  imports Confine
begin

section \<open>The location file of the databases\<close>

text \<open>
  \<^verbatim>\<open>databases.txt\<close> in the database root, one line per database, as \<^verbatim>\<open>restore.go\<close> and \<^verbatim>\<open>ownership.go\<close> of
  the Instance Manager read and write it: \<open>registeredInDatabasesTxt\<close> looks a database up, \<open>add_entry\<close> is
  the content \<open>registerRestoreTarget\<close> writes, and \<open>unregister_content\<close> the one that
  \<^verbatim>\<open>unregisterDatabaseLocked\<close> does. What a client of the file relies on is the locale \<open>registry\<close>: a
  set of names with insertion and removal. The text is ASCII; a line longer than the buffer of
  \<^verbatim>\<open>bufio.Scanner\<close> is a read error, which is an argument where the file is read.
\<close>

subsection \<open>Lines and fields\<close>

abbreviation newline :: char where
  "newline \<equiv> CHR 0x0A"

definition drop_cr :: "string \<Rightarrow> string" where
  "drop_cr s = (if s \<noteq> [] \<and> last s = CHR 0x0D then butlast s else s)"

text \<open>The tokens of a \<^verbatim>\<open>bufio.Scanner\<close>: lines without their ends; an empty last one is none.\<close>

definition scan_lines :: "string \<Rightarrow> string list" where
  "scan_lines s = (let ps = split_on newline s in map drop_cr (if last ps = [] then butlast ps else ps))"

text \<open>\<^verbatim>\<open>strings.Fields\<close>.\<close>

function Fields :: "string \<Rightarrow> string list" where
  "Fields s =
     (case dropWhile is_space s of
        [] \<Rightarrow> []
      | c # cs \<Rightarrow> takeWhile (\<lambda>x. \<not> is_space x) (c # cs) # Fields (dropWhile (\<lambda>x. \<not> is_space x) (c # cs)))"
  by pat_completeness auto
termination
proof (relation "measure length")
  fix s c cs assume a: "dropWhile is_space s = c # cs"
  then have "\<not> is_space c" by (metis hd_dropWhile list.distinct(1) list.sel(1))
  then have "length (dropWhile (\<lambda>x. \<not> is_space x) (c # cs)) \<le> length cs" by (simp add: length_dropWhile_le)
  also have "length cs < length s" using a length_dropWhile_le [of is_space s] by simp
  finally show "(dropWhile (\<lambda>x. \<not> is_space x) (c # cs), s) \<in> measure length" by simp
qed simp

declare Fields.simps [simp del]

subsection \<open>The file\<close>

definition line_names :: "string \<Rightarrow> string \<Rightarrow> bool" where
  "line_names database raw =
     (let line = trim_space raw
      in if line = [] \<or> has_prefix line ''#'' then False
         else case Fields line of [] \<Rightarrow> False | f # _ \<Rightarrow> f = database)"

definition registered :: "string \<Rightarrow> string \<Rightarrow> bool" where
  "registered content database \<longleftrightarrow> list_ex (line_names database) (scan_lines content)"

definition registeredInDatabasesTxt :: "string + string option \<Rightarrow> string \<Rightarrow> string + bool" where
  "registeredInDatabasesTxt file_answer database =
     (case file_answer of
        Inl e \<Rightarrow> Inl (''read databases.txt: '' @ e)
      | Inr None \<Rightarrow> Inr False
      | Inr (Some content) \<Rightarrow> Inr (registered content database))"

definition entry :: "string \<Rightarrow> string \<Rightarrow> string \<Rightarrow> string" where
  "entry database dbDir host =
     database @ [CHR 0x09, CHR 0x09] @ dbDir @ [CHR 0x09] @ host @ [CHR 0x09] @ dbDir @ [CHR 0x09] @
     ''file:'' @ Join [dbDir, ''lob''] @ [newline]"

definition add_entry :: "string \<Rightarrow> string \<Rightarrow> string \<Rightarrow> string \<Rightarrow> string" where
  "add_entry before database dbDir host =
     (if before \<noteq> [] \<and> last before \<noteq> newline then before @ [newline] else before) @ entry database dbDir host"

definition line_is_of :: "string \<Rightarrow> string \<Rightarrow> bool" where
  "line_is_of database line = (case Fields line of [] \<Rightarrow> False | f # _ \<Rightarrow> f = database)"

definition kept_lines :: "string \<Rightarrow> string \<Rightarrow> string list" where
  "kept_lines content database = filter (\<lambda>line. \<not> line_is_of database line) (scan_lines content)"

definition unregister_content :: "string \<Rightarrow> string \<Rightarrow> string" where
  "unregister_content content database = concat (map (\<lambda>line. line @ [newline]) (kept_lines content database))"

subsection \<open>Lines\<close>

lemma scan_lines_ended: "scan_lines (s @ [newline]) = map drop_cr (split_on newline s)"
  using split_on_append [of newline s "[]"] by (simp add: scan_lines_def Let_def)

lemma scan_lines_line: "newline \<notin> set line \<Longrightarrow> scan_lines (line @ [newline]) = [drop_cr line]"
  by (simp add: scan_lines_ended split_on_none)

lemma scan_lines_append: "scan_lines (s @ newline # t) = scan_lines (s @ [newline]) @ scan_lines t"
proof -
  have "split_on newline (s @ newline # t) = split_on newline s @ split_on newline t" by (rule split_on_append)
  then show ?thesis unfolding scan_lines_ended by (simp add: scan_lines_def Let_def butlast_append)
qed

lemma scan_lines_unended:
  assumes "s \<noteq> []" "last s \<noteq> newline"
  shows "scan_lines (s @ [newline]) = scan_lines s"
proof -
  have "last (split_on newline s) \<noteq> []"
    using assms
  proof (induction s)
    case (Cons x xs)
    show ?case
    proof (cases "xs = []")
      case False
      then have "last (split_on newline xs) \<noteq> []" using Cons by simp
      then show ?thesis by (cases "split_on newline xs") (auto split: if_splits)
    qed (use Cons in auto)
  qed simp
  then show ?thesis by (simp add: scan_lines_ended) (simp add: scan_lines_def Let_def)
qed

lemma scan_lines_concat:
  "\<forall>l \<in> set ls. newline \<notin> set l \<Longrightarrow> scan_lines (concat (map (\<lambda>l. l @ [newline]) ls)) = map drop_cr ls"
proof (induction ls)
  case Nil
  then show ?case by (simp add: scan_lines_def)
next
  case (Cons l ls)
  then show ?case using scan_lines_append [of l "concat (map (\<lambda>l. l @ [newline]) ls)"] scan_lines_line [of l] by simp
qed

lemma scan_lines_no_newline: "l \<in> set (scan_lines s) \<Longrightarrow> newline \<notin> set l"
proof -
  assume "l \<in> set (scan_lines s)"
  then obtain p where "p \<in> set (split_on newline s)" "l = drop_cr p"
    by (auto simp: scan_lines_def Let_def dest: in_set_butlastD split: if_splits)
  then show ?thesis using split_on_elements by (auto simp: drop_cr_def dest: in_set_butlastD split: if_splits)
qed

subsection \<open>The first field of a line\<close>

definition first_field :: "string \<Rightarrow> string" where
  "first_field s = takeWhile (\<lambda>x. \<not> is_space x) (dropWhile is_space s)"

lemma Fields_first: "Fields s = (if first_field s = [] then [] else first_field s # tl (Fields s))"
proof (cases "dropWhile is_space s")
  case Nil
  have "Fields s = []" by (subst Fields.simps) (simp only: Nil list.case)
  moreover have "first_field s = []" unfolding first_field_def Nil by simp
  ultimately show ?thesis by simp
next
  case (Cons c cs)
  then have "\<not> is_space c" by (metis hd_dropWhile list.distinct(1) list.sel(1))
  then show ?thesis using Cons by (subst (1 2) Fields.simps) (simp add: first_field_def)
qed

lemma line_is_of_iff: "database \<noteq> [] \<Longrightarrow> line_is_of database line \<longleftrightarrow> first_field line = database"
  unfolding line_is_of_def by (subst Fields_first) auto

lemma first_field_spaces_after:
  assumes "list_all is_space t"
  shows "first_field (s @ t) = first_field s"
proof (cases "dropWhile is_space s = []")
  case True
  then have "dropWhile is_space (s @ t) = []" using assms unfolding dropWhile_eq_Nil_conv list_all_iff by auto
  then show ?thesis unfolding first_field_def using True by (simp only:)
next
  case False
  then have "dropWhile is_space (s @ t) = dropWhile is_space s @ t" by (metis dropWhile_append1 dropWhile_eq_Nil_conv)
  moreover have "takeWhile (\<lambda>x. \<not> is_space x) (u @ t) = takeWhile (\<lambda>x. \<not> is_space x) u" for u
    using assms by (induction u) (cases t, auto)
  ultimately show ?thesis by (simp add: first_field_def)
qed

lemma first_field_dropWhile: "first_field (dropWhile is_space s) = first_field s"
  by (simp add: first_field_def)

lemma trim_space_split: "\<exists>t. list_all is_space t \<and> dropWhile is_space s = trim_space s @ t"
proof -
  let ?u = "dropWhile is_space s"
  have "rev ?u = takeWhile is_space (rev ?u) @ dropWhile is_space (rev ?u)" by simp
  then have "?u = rev (dropWhile is_space (rev ?u)) @ rev (takeWhile is_space (rev ?u))" by (metis rev_append rev_rev_ident)
  moreover have "list_all is_space (rev (takeWhile is_space (rev ?u)))" by (auto simp: list_all_iff dest: set_takeWhileD)
  ultimately show ?thesis unfolding trim_space_def by blast
qed

lemma first_field_trim: "first_field (trim_space s) = first_field s"
  using trim_space_split [of s] first_field_spaces_after [of _ "trim_space s"] first_field_dropWhile [of s] by metis

lemma first_field_drop_cr: "first_field (drop_cr s) = first_field s"
proof (cases "s \<noteq> [] \<and> last s = CHR 0x0D")
  case True
  then have "s = drop_cr s @ [CHR 0x0D]" by (simp add: drop_cr_def) (metis append_butlast_last_id)
  then show ?thesis using first_field_spaces_after [of "[CHR 0x0D]" "drop_cr s"] by (simp add: is_space_def)
qed (auto simp: drop_cr_def)

text \<open>A database name is one field of its own and is no comment.\<close>

lemma database_name:
  assumes "databaseNamePattern d"
  shows "d \<noteq> []" "\<forall>c \<in> set d. \<not> is_space c" "hd d \<noteq> CHR ''#''" "newline \<notin> set d"
  using assms
  by (auto simp: databaseNamePattern_def list_all_iff is_alnum_def is_lower_def is_upper_def is_digit_def byte_def is_space_def
      split: list.splits)

lemma line_names_iff:
  assumes "databaseNamePattern d"
  shows "line_names d raw \<longleftrightarrow> first_field raw = d"
proof -
  have d: "d \<noteq> []" "hd d \<noteq> CHR ''#''" using database_name [OF assms] by simp_all
  let ?l = "trim_space raw"
  have hd: "hd (first_field ?l) = hd ?l" if "first_field ?l = d"
  proof -
    have "dropWhile is_space ?l = ?l"
    proof (cases ?l)
      case (Cons c cs)
      obtain t where t: "dropWhile is_space raw = ?l @ t" using trim_space_split by blast
      then have "\<not> is_space c" using Cons by (metis append_Cons hd_dropWhile list.distinct(1) list.sel(1))
      then show ?thesis using Cons by simp
    qed simp
    then show ?thesis using that d(1) by (cases ?l) (auto simp: first_field_def split: if_splits)
  qed
  have "first_field ?l = d \<Longrightarrow> ?l \<noteq> []" using d(1) by (auto simp: first_field_def)
  moreover have "has_prefix ?l ''#'' \<longleftrightarrow> ?l \<noteq> [] \<and> hd ?l = CHR ''#''" by (cases ?l) (auto simp: has_prefix_def)
  ultimately show ?thesis
    using hd d line_is_of_iff [OF d(1), of ?l] first_field_trim [of raw] by (auto simp: line_names_def line_is_of_def Let_def)
qed

lemma registered_iff: "databaseNamePattern d \<Longrightarrow> registered c d \<longleftrightarrow> d \<in> first_field ` set (scan_lines c)"
  by (auto simp: registered_def list_ex_iff line_names_iff)

subsection \<open>The contract of the file\<close>

locale registry =
  fixes mem :: "'c \<Rightarrow> 'k \<Rightarrow> bool"
    and add :: "'c \<Rightarrow> 'k \<Rightarrow> 'e \<Rightarrow> 'c"
    and remove :: "'c \<Rightarrow> 'k \<Rightarrow> 'c"
    and key_ok :: "'k \<Rightarrow> bool"
    and entry_ok :: "'e \<Rightarrow> bool"
  assumes mem_add: "key_ok k \<Longrightarrow> key_ok x \<Longrightarrow> entry_ok e \<Longrightarrow> mem (add c k e) x \<longleftrightarrow> x = k \<or> mem c x"
    and mem_remove: "key_ok k \<Longrightarrow> key_ok x \<Longrightarrow> mem (remove c k) x \<longleftrightarrow> x \<noteq> k \<and> mem c x"
begin

text \<open>Taking an entry back leaves what was registered, whatever else has been registered meanwhile.\<close>

lemma remove_add:
  assumes "key_ok k" "key_ok x" "entry_ok e" "\<not> mem c k"
  shows "mem (remove (add c k e) k) x \<longleftrightarrow> mem c x"
  using assms by (auto simp: mem_add mem_remove)

lemma remove_after_others:
  assumes "key_ok k" "key_ok x" "entry_ok e" "\<not> mem c k" "list_all (\<lambda>(j, f). key_ok j \<and> entry_ok f \<and> j \<noteq> k) others"
  shows "mem (remove (foldl (\<lambda>c (j, f). add c j f) (add c k e) others) k) x \<longleftrightarrow> mem c x \<or> x \<in> fst ` set others"
proof -
  have "mem (foldl (\<lambda>c (j, f). add c j f) d others) y \<longleftrightarrow> mem d y \<or> y \<in> fst ` set others" if "key_ok y" for d y
    using assms(5) that by (induction others arbitrary: d) (auto simp: mem_add)
  then show ?thesis using assms by (auto simp: mem_add mem_remove list_all_iff)
qed

end

lemma scan_lines_add:
  assumes "newline \<notin> set (butlast (entry d dir host))"
  shows "scan_lines (add_entry c d dir host) = scan_lines c @ [drop_cr (butlast (entry d dir host))]"
proof -
  let ?e = "butlast (entry d dir host)"
  have e: "entry d dir host = ?e @ [newline]" by (simp add: entry_def butlast_append)
  have line: "scan_lines (entry d dir host) = [drop_cr ?e]" using scan_lines_line [OF assms] e by simp
  consider "c = []" | c' where "c = c' @ [newline]" | "c \<noteq> []" "last c \<noteq> newline" by (metis append_butlast_last_id)
  then show ?thesis
  proof cases
    case 1
    then show ?thesis using line by (simp add: add_entry_def) (simp add: scan_lines_def)
  next
    case 2
    then show ?thesis using scan_lines_append [of c' "entry d dir host"] line by (simp add: add_entry_def)
  next
    case 3
    then show ?thesis using scan_lines_append [of c "entry d dir host"] scan_lines_unended [OF 3] line by (simp add: add_entry_def)
  qed
qed

definition one_line :: "string \<times> string \<Rightarrow> bool" where
  "one_line e \<longleftrightarrow> newline \<notin> set (fst e) \<and> newline \<notin> set (snd e)"

lemma registered_add:
  assumes "databaseNamePattern d" "databaseNamePattern x" "one_line (dir, host)"
  shows "registered (add_entry c d dir host) x \<longleftrightarrow> x = d \<or> registered c x"
proof -
  let ?e = "butlast (entry d dir host)"
  have "newline \<notin> set (Join [dir, ''lob''])" using assms(3) Join_chars [of "[dir, ''lob'']"] by (auto simp: one_line_def)
  then have nl: "newline \<notin> set ?e"
    using assms(3) database_name(4) [OF assms(1)] by (simp add: entry_def butlast_append one_line_def)
  have "first_field ?e = d"
    using database_name(1,2) [OF assms(1)]
    by (cases d) (auto simp: first_field_def entry_def butlast_append takeWhile_append2 is_space_def)
  then show ?thesis
    unfolding registered_iff [OF assms(2)] scan_lines_add [OF nl] using first_field_drop_cr [of ?e] by auto
qed

lemma registered_remove:
  assumes "databaseNamePattern d" "databaseNamePattern x"
  shows "registered (unregister_content c d) x \<longleftrightarrow> x \<noteq> d \<and> registered c x"
proof -
  have "\<forall>l \<in> set (kept_lines c d). newline \<notin> set l" using scan_lines_no_newline by (auto simp: kept_lines_def)
  then have "scan_lines (unregister_content c d) = map drop_cr (kept_lines c d)"
    unfolding unregister_content_def by (rule scan_lines_concat)
  then show ?thesis
    unfolding registered_iff [OF assms(2)] kept_lines_def
    by (auto simp: line_is_of_iff [OF database_name(1) [OF assms(1)]] first_field_drop_cr image_iff)
qed

interpretation databases_txt: registry registered "\<lambda>c d (dir, host). add_entry c d dir host" unregister_content databaseNamePattern one_line
  by unfold_locales (auto simp: registered_add registered_remove)

end
