(* ===== verification/Ownership.thy ===== *)
theory Ownership
  imports DbRegistry Heartbeat OpSystem
begin

section \<open>The databases of a member and who owns them\<close>

text \<open>
  \<^verbatim>\<open>internal/instancemanager/ownership.go\<close>, with \<^verbatim>\<open>registerRestoreTarget\<close> of \<^verbatim>\<open>restore.go\<close>: the marker in a
  database directory that names the operation creating it, the removal of what a failed operation left,
  and the registration of a restored database.

  The database root is the record \<open>dbroot\<close>: the directories by name, each a map from the entries in it to
  their content, and the text of \<^verbatim>\<open>databases.txt\<close>. A call returns its error, or none, and the changes it
  makes to the root, in order; so a process that dies in a call leaves the root after a prefix of them.
  A step that may fail has a name, and the argument \<open>faults\<close> says for each name whether the step fails,
  with its error and with whether its change was made all the same (a rename whose directory could not
  be synced). The removal of a tree removes some of the entries first, \<open>part\<close>, and may stop there.
  Left out: the temporary files of a replacement, which nothing reads, and the log.
\<close>

subsection \<open>The database root\<close>

type_synonym dbdir = "string \<Rightarrow> string option"

record dbroot =
  rt_dirs :: "string \<Rightarrow> dbdir option"
  rt_txt :: "string option"

datatype fs_action =
    MakeDir string
  | PutEntry string string string
  | RemoveEntries string "string list"
  | RemoveDir string
  | MoveDir string string
  | WriteTxt string
  | RemoveTxt

fun change :: "dbroot \<Rightarrow> fs_action \<Rightarrow> dbroot" where
  "change rt (MakeDir d) = rt\<lparr>rt_dirs := (rt_dirs rt)(d \<mapsto> Map.empty)\<rparr>"
| "change rt (PutEntry d e c) = rt\<lparr>rt_dirs := (rt_dirs rt)(d := map_option (\<lambda>m. m(e \<mapsto> c)) (rt_dirs rt d))\<rparr>"
| "change rt (RemoveEntries d es) =
     rt\<lparr>rt_dirs := (rt_dirs rt)(d := map_option (\<lambda>m x. if x \<in> set es then None else m x) (rt_dirs rt d))\<rparr>"
| "change rt (RemoveDir d) = rt\<lparr>rt_dirs := (rt_dirs rt)(d := None)\<rparr>"
| "change rt (MoveDir a b) = rt\<lparr>rt_dirs := (rt_dirs rt)(b := rt_dirs rt a, a := None)\<rparr>"
| "change rt (WriteTxt c) = rt\<lparr>rt_txt := Some c\<rparr>"
| "change rt RemoveTxt = rt\<lparr>rt_txt := None\<rparr>"

definition changes :: "dbroot \<Rightarrow> fs_action list \<Rightarrow> dbroot" where
  "changes rt acts = foldl change rt acts"

type_synonym faults = "string \<Rightarrow> (bool \<times> string) option"

definition attempt :: "faults \<Rightarrow> string \<Rightarrow> string \<Rightarrow> fs_action list \<Rightarrow> string option \<times> fs_action list" where
  "attempt faults name what acts =
     (case faults name of
        None \<Rightarrow> (None, acts)
      | Some (made, e) \<Rightarrow> (Some (what @ '': '' @ e), if made then acts else []))"

definition removeTree :: "faults \<Rightarrow> string \<Rightarrow> string \<Rightarrow> string list \<Rightarrow> string \<Rightarrow> string option \<times> fs_action list" where
  "removeTree faults name what part d =
     (case faults name of
        None \<Rightarrow> (None, [RemoveEntries d part, RemoveDir d])
      | Some (_, e) \<Rightarrow> (Some (what @ '': '' @ e), [RemoveEntries d part]))"

subsection \<open>The ownership marker\<close>

definition ownershipMarker :: string where
  "ownershipMarker = ''.im-operation''"

definition entrypointMarker :: string where
  "entrypointMarker = ''entrypoint-createdb''"

definition reclaimDir :: "string \<Rightarrow> string" where
  "reclaimDir database = ''.reclaim-'' @ database"

definition marker_of :: "dbroot \<Rightarrow> string \<Rightarrow> string option" where
  "marker_of rt database = Option.bind (rt_dirs rt database) (\<lambda>d. d ownershipMarker)"

definition markOwned :: "faults \<Rightarrow> string \<Rightarrow> string \<Rightarrow> string option \<times> fs_action list" where
  "markOwned faults database opID =
     (if opID = [] then (None, [])
      else let what = ''mark '' @ database @ '' as owned by '' @ opID
           in case attempt faults ''replace the marker'' what [PutEntry database ownershipMarker (opID @ [newline])] of
                (Some e, acts) \<Rightarrow> (Some e, acts)
              | (None, acts) \<Rightarrow> (fst (attempt faults ''sync the root of the marker'' what []), acts))"

definition clearOwned :: "faults \<Rightarrow> string \<Rightarrow> string option \<times> fs_action list" where
  "clearOwned faults database =
     (case faults ''open the root to clear'' of
        Some (_, e) \<Rightarrow> (Some e, [])
      | None \<Rightarrow>
          attempt faults ''remove the marker'' (''clear the ownership marker of '' @ database) [RemoveEntries database [ownershipMarker]])"

subsection \<open>Unregistering and registering\<close>

definition unregisterDatabaseLocked :: "faults \<Rightarrow> string option \<Rightarrow> string \<Rightarrow> bool \<Rightarrow> string option \<times> fs_action list" where
  "unregisterDatabaseLocked faults file_now database removeEmpty =
     (case faults ''read databases.txt to unregister'' of
        Some (_, e) \<Rightarrow> (Some (''read databases.txt: '' @ e), [])
      | None \<Rightarrow>
          (case file_now of
             None \<Rightarrow> (None, [])
           | Some content \<Rightarrow>
               let kept = unregister_content content database; what = ''unregister '' @ database @ '' from databases.txt''
               in if removeEmpty \<and> trim_space kept = [] then attempt faults ''remove databases.txt'' what [RemoveTxt]
                  else if \<not> list_ex (line_is_of database) (scan_lines content) then (None, [])
                  else attempt faults ''replace databases.txt to unregister'' what [WriteTxt kept]))"

text \<open>The undo of a registration removes the directory and then the entry; its errors are not reported.\<close>

definition undo_register :: "faults \<Rightarrow> string list \<Rightarrow> dbroot \<Rightarrow> string \<Rightarrow> bool \<Rightarrow> fs_action list" where
  "undo_register faults part rt database existed =
     snd (removeTree faults ''undo the directory'' [] part database) @
     snd (unregisterDatabaseLocked faults (rt_txt rt) database (\<not> existed))"

definition registerRestoreTarget ::
  "(rune \<Rightarrow> bool) \<Rightarrow> faults \<Rightarrow> string list \<Rightarrow> string \<Rightarrow> dbroot \<Rightarrow> string \<Rightarrow> string \<Rightarrow> string + string \<Rightarrow> string \<Rightarrow>
     string option \<times> fs_action list" where
  "registerRestoreTarget printable faults part targetDir rt database host hostname owner =
     (if \<not> databaseNamePattern database
      then (Some (''database name '' @ quote printable database @ '' is not a plain identifier''), [])
      else case (if host = [] then hostname else Inr host) of
             Inl e \<Rightarrow> (Some (''host name for databases.txt: '' @ e), [])
           | Inr host' \<Rightarrow>
               (case faults ''open the root'' of
                  Some (_, e) \<Rightarrow> (Some (''open '' @ targetDir @ '': '' @ e), [])
                | None \<Rightarrow>
                    (case faults ''read databases.txt'' of
                       Some (_, e) \<Rightarrow> (Some (''read databases.txt: '' @ e), [])
                     | None \<Rightarrow>
                         if faults ''make the directory'' \<noteq> None \<or> rt_dirs rt database \<noteq> None
                         then (Some (''create '' @ database @ '' in '' @ targetDir), [])
                         else
                           let made = [MakeDir database];
                               take_back = snd (removeTree faults ''take the directory back'' [] part database)
                           in case markOwned faults database owner of
                                (Some e, acts) \<Rightarrow> (Some e, made @ acts @ take_back)
                              | (None, acts) \<Rightarrow>
                                  (case attempt faults ''make the lob directory'' (''create '' @ database @ ''/lob in '' @ targetDir)
                                          [PutEntry database ''lob'' []] of
                                     (Some e, acts') \<Rightarrow> (Some e, made @ acts @ acts' @ take_back)
                                   | (None, acts') \<Rightarrow>
                                       (case faults ''sync the directory'' of
                                          Some (_, e) \<Rightarrow> (Some e, made @ acts @ acts' @ take_back)
                                        | None \<Rightarrow>
                                            let dbDir = Join [targetDir, database];
                                                content = add_entry (case rt_txt rt of None \<Rightarrow> [] | Some c \<Rightarrow> c) database dbDir host'
                                            in case attempt faults ''replace databases.txt'' (''register '' @ database @ '' in databases.txt'')
                                                      [WriteTxt content] of
                                                 (None, acts'') \<Rightarrow> (None, made @ acts @ acts' @ acts'')
                                               | (Some e, acts'') \<Rightarrow>
                                                   let sofar = made @ acts @ acts' @ acts''
                                                   in (Some e, sofar @ undo_register faults part (changes rt sofar) database (rt_txt rt \<noteq> None)))))))"

subsection \<open>Removing what a failed operation left\<close>

text \<open>The directory is unregistered while its marker still says whose it is, leaves its name in one rename,
  and is removed under the other name.\<close>

definition remove_unfinished :: "faults \<Rightarrow> string list \<Rightarrow> string \<Rightarrow> string \<Rightarrow> dbroot \<Rightarrow> string option \<times> fs_action list" where
  "remove_unfinished faults part where' database rt =
     (let tomb = reclaimDir database in
      case unregisterDatabaseLocked faults (rt_txt rt) database False of
        (Some e, acts) \<Rightarrow> (Some (''unregister the unfinished '' @ where' @ '': '' @ e), acts)
      | (None, acts) \<Rightarrow>
          (case attempt faults ''move aside'' (''move the unfinished '' @ where' @ '' aside'') [MoveDir database tomb] of
             (Some e, acts') \<Rightarrow> (Some e, acts @ acts')
           | (None, acts') \<Rightarrow>
               (case faults ''sync the root'' of
                  Some (_, e) \<Rightarrow> (Some (''move the unfinished '' @ where' @ '' aside: '' @ e), acts @ acts')
                | None \<Rightarrow>
                    (case removeTree faults ''remove what was moved'' (''remove the unfinished '' @ where') part tomb of
                       (e, acts'') \<Rightarrow> (e, acts @ acts' @ acts'')))))"

definition remove_leftover :: "faults \<Rightarrow> string list \<Rightarrow> string \<Rightarrow> string \<Rightarrow> dbroot \<Rightarrow> string option \<times> fs_action list" where
  "remove_leftover faults part target database rt =
     (let tomb = reclaimDir database in
      case faults ''look for the moved'' of
        Some (_, e) \<Rightarrow> (Some (''check '' @ Join [target, tomb] @ '': '' @ e), [])
      | None \<Rightarrow>
          if rt_dirs rt tomb = None then (None, [])
          else removeTree faults ''remove the moved'' (''remove '' @ Join [target, tomb]) part tomb)"

definition reclaimIncomplete ::
  "(rune \<Rightarrow> bool) \<Rightarrow> (store_error \<Rightarrow> string) \<Rightarrow> (OperationState \<Rightarrow> string) \<Rightarrow> io \<Rightarrow> faults \<Rightarrow> string list \<Rightarrow> string \<Rightarrow> dbroot option \<Rightarrow>
     string \<Rightarrow> store \<Rightarrow> string option \<times> fs_action list \<times> store" where
  "reclaimIncomplete printable store_text state_text env faults part target root database s =
     (if \<not> databaseNamePattern database
      then (Some (''database name '' @ quote printable database @ '' is not a plain identifier''), [], s)
      else case root of
             None \<Rightarrow> (None, [], s)
           | Some rt \<Rightarrow>
               (case faults ''open the root'' of
                  Some (_, e) \<Rightarrow> (Some (''open the database root: '' @ e), [], s)
                | None \<Rightarrow>
                    (case remove_leftover faults part target database rt of
                       (Some e, acts) \<Rightarrow> (Some e, acts, s)
                     | (None, acts) \<Rightarrow>
                         (case faults ''read the marker'' of
                            Some (_, e) \<Rightarrow> (Some (''read the ownership marker of '' @ database @ '': '' @ e), acts, s)
                          | None \<Rightarrow>
                              (case marker_of rt database of
                                 None \<Rightarrow> (None, acts, s)
                               | Some data \<Rightarrow>
                                   let i = trim_space data; where' = Join [target, database]
                                   in if \<not> isValidOperationID i
                                      then (Some (where' @ '' carries an unreadable ownership marker; refusing to touch it''), acts, s)
                                      else case Get env i s of
                                             (Inl e, s') \<Rightarrow>
                                               if is_not_found e
                                               then (Some (where' @ '' is marked by operation '' @ i @
                                                           '', which this manager does not know; refusing to touch it''), acts, s')
                                               else (Some (store_text e), acts, s')
                                           | (Inr op, s') \<Rightarrow>
                                               (case op_State op of
                                                  OpCompleted \<Rightarrow>
                                                    (case clearOwned faults database of (e, acts') \<Rightarrow> (e, acts @ acts', s'))
                                                | OpFailed \<Rightarrow>
                                                    if op_Restored op \<noteq> None
                                                    then (Some (where' @ '' holds the data operation '' @ i @
                                                                '' restored, which may have been started; refusing to remove it''), acts, s')
                                                    else (case remove_unfinished faults part where' database rt of
                                                            (e, acts') \<Rightarrow> (e, acts @ acts', s'))
                                                | st \<Rightarrow>
                                                    (Some (where' @ '' belongs to operation '' @ i @ '', which is '' @ state_text st @
                                                           ''; refusing to touch it''), acts, s')))))))"

subsection \<open>Taking restored data over\<close>

definition adoptRestored ::
  "(rune \<Rightarrow> bool) \<Rightarrow> (store_error \<Rightarrow> string) \<Rightarrow> io \<Rightarrow> faults \<Rightarrow> dbroot option \<Rightarrow> string \<Rightarrow> string \<Rightarrow> store \<Rightarrow>
     (string + OperationArtifact option) \<times> fs_action list \<times> store" where
  "adoptRestored printable store_text env faults root i database s =
     (if \<not> databaseNamePattern database
      then (Inl (''database name '' @ quote printable database @ '' is not a plain identifier''), [], s)
      else case root of
             None \<Rightarrow> (Inr None, [], s)
           | Some rt \<Rightarrow>
               (case faults ''open the root'' of
                  Some (_, e) \<Rightarrow> (Inl (''open the database root: '' @ e), [], s)
                | None \<Rightarrow>
                    (case faults ''read the marker'' of
                       Some (_, e) \<Rightarrow> (Inl (''read the ownership marker of '' @ database @ '': '' @ e), [], s)
                     | None \<Rightarrow>
                         (case marker_of rt database of
                            None \<Rightarrow> (Inr None, [], s)
                          | Some data \<Rightarrow>
                              (case Get env (trim_space data) s of
                                 (Inl e, s1) \<Rightarrow> if is_not_found e then (Inr None, [], s1) else (Inl (store_text e), [], s1)
                               | (Inr previous, s1) \<Rightarrow>
                                   (case Get env i s1 of
                                      (Inl e, s2) \<Rightarrow> (Inl (store_text e), [], s2)
                                    | (Inr current, s2) \<Rightarrow>
                                        (case op_Restored previous of
                                           None \<Rightarrow> (Inr None, [], s2)
                                         | Some restored \<Rightarrow>
                                             if op_Kind previous \<noteq> OpRestore \<or> op_State previous \<noteq> OpFailed \<or>
                                                op_RequestHash previous \<noteq> op_RequestHash current
                                             then (Inr None, [], s2)
                                             else case Update env i (\<lambda>op. op\<lparr>op_Restored := Some restored\<rparr>) s2 of
                                                    (Inl e, s3) \<Rightarrow> (Inl (store_text e), [], s3)
                                                  | (Inr _, s3) \<Rightarrow>
                                                      (case markOwned faults database i of
                                                         (Some e, acts) \<Rightarrow> (Inl e, acts, s3)
                                                       | (None, acts) \<Rightarrow> (Inr (Some restored), acts, s3)))))))))"

subsection \<open>What the role answer says of an unfinished database\<close>

definition unfinished_waiting :: string where
  "unfinished_waiting = ''WaitingForOperation''"

definition unfinished_refused :: string where
  "unfinished_refused = ''Refused''"

definition unfinishedDatabase ::
  "(store_error \<Rightarrow> string) \<Rightarrow> io \<Rightarrow> faults \<Rightarrow> dbroot option \<Rightarrow> string \<Rightarrow> string \<Rightarrow> store option \<Rightarrow> UnfinishedDatabase option" where
  "unfinishedDatabase store_text env faults root standaloneDB replicationDB ops =
     (let database = (if standaloneDB = [] then replicationDB else standaloneDB);
          u = \<lparr>un_Database = database, un_Operation = [], un_State = unfinished_refused, un_Reason = []\<rparr>
      in if \<not> databaseNamePattern database then None
         else case root of
                None \<Rightarrow> None
              | Some rt \<Rightarrow>
                  (case faults ''open the root'' of
                     Some (_, e) \<Rightarrow>
                       Some (u\<lparr>un_Reason := ''the database root could not be opened, so the database cannot be judged now: '' @ e\<rparr>)
                   | None \<Rightarrow>
                       (case faults ''read the marker'' of
                          Some (_, e) \<Rightarrow>
                            Some (u\<lparr>un_Reason := ''the ownership marker could not be read, so the database cannot be judged now: '' @ e\<rparr>)
                        | None \<Rightarrow>
                            (case marker_of rt database of
                               None \<Rightarrow> None
                             | Some data \<Rightarrow>
                                 let i = trim_space data; v = u\<lparr>un_Operation := i\<rparr>
                                 in if i = entrypointMarker
                                    then Some (u\<lparr>un_Reason := ''the image's entrypoint did not complete its createdb; no operation of the Instance Manager removes it''\<rparr>)
                                    else if \<not> isValidOperationID i
                                    then Some (u\<lparr>un_Reason := ''the ownership marker is unreadable: it names no operation''\<rparr>)
                                    else case ops of
                                           None \<Rightarrow>
                                             Some (v\<lparr>un_Reason := ''the marker names operation '' @ i @
                                                               '', which this manager does not know: it has no operation store''\<rparr>)
                                         | Some s \<Rightarrow>
                                             (case fst (Peek env i s) of
                                                Inl e \<Rightarrow>
                                                  Some (v\<lparr>un_Reason :=
                                                     if is_not_found e then ''the marker names operation '' @ i @ '', which this manager does not know''
                                                     else ''the record of operation '' @ i @ '' could not be read, so the database cannot be judged now: '' @
                                                          store_text e\<rparr>)
                                              | Inr op \<Rightarrow>
                                                  if \<not> op_terminal op then None
                                                  else if op_State op = OpCompleted
                                                  then Some (v\<lparr>un_State := unfinished_waiting, un_Reason := ''operation '' @ i @
                                                         '' completed and left its marker; the next restore or HA bootstrap of the database clears it''\<rparr>)
                                                  else if op_State op = OpFailed \<and> op_Restored op \<noteq> None
                                                  then Some (v\<lparr>un_Reason := ''operation '' @ i @ '' recorded its data as restored before it failed; '' @
                                                         ''only a restore of the same request takes it over, and no operation removes it''\<rparr>)
                                                  else Some (v\<lparr>un_State := unfinished_waiting, un_Reason := ''operation '' @ i @
                                                         '' failed; the next restore or HA bootstrap of the database removes what it left''\<rparr>))))))"

subsection \<open>Only unfinished work of this manager is removed\<close>

definition is_registered :: "dbroot \<Rightarrow> string \<Rightarrow> bool" where
  "is_registered rt x = (case rt_txt rt of None \<Rightarrow> False | Some c \<Rightarrow> registered c x)"

lemma changes_append: "changes rt (xs @ ys) = changes (changes rt xs) ys"
  by (simp add: changes_def)

lemma changes_simps [simp]: "changes rt [] = rt" "changes rt (a # as) = changes (change rt a) as"
  by (simp_all add: changes_def)

lemma reclaimDir_other: "databaseNamePattern x \<Longrightarrow> x \<noteq> reclaimDir d"
  by (auto simp: databaseNamePattern_def reclaimDir_def is_lower_def is_upper_def byte_def)

text \<open>Two roots that differ at most in a directory that was moved aside.\<close>

definition same_but :: "string \<Rightarrow> dbroot \<Rightarrow> dbroot \<Rightarrow> bool" where
  "same_but d rt rt' \<longleftrightarrow> rt_txt rt' = rt_txt rt \<and> (\<forall>x. x \<noteq> d \<longrightarrow> rt_dirs rt' x = rt_dirs rt x)"

lemma same_but_refl [simp]: "same_but d rt rt"
  by (simp add: same_but_def)

lemma same_but_removal:
  "same_but d rt rt' \<Longrightarrow> list_all (\<lambda>a. a = RemoveEntries d part \<or> a = RemoveDir d) acts \<Longrightarrow> same_but d rt (changes rt' acts)"
proof (induction acts arbitrary: rt')
  case (Cons a as)
  then have "same_but d rt (change rt' a)" by (auto simp: same_but_def)
  then show ?case using Cons by simp
qed simp

lemma removeTree_acts:
  "removeTree faults name what part d = (e, acts) \<Longrightarrow> list_all (\<lambda>a. a = RemoveEntries d part \<or> a = RemoveDir d) acts"
  by (auto simp: removeTree_def split: option.splits)

lemma remove_leftover_acts:
  "remove_leftover faults part target database rt = (e, acts) \<Longrightarrow>
     list_all (\<lambda>a. a = RemoveEntries (reclaimDir database) part \<or> a = RemoveDir (reclaimDir database)) acts"
  by (auto simp: remove_leftover_def Let_def dest: removeTree_acts split: option.splits if_splits)

lemma unregister_acts:
  assumes "unregisterDatabaseLocked faults txt d False = (e, acts)" "databaseNamePattern d"
  shows "acts = [] \<or> (\<exists>c. txt = Some c \<and> acts = [WriteTxt (unregister_content c d)])"
    "e = None \<Longrightarrow> acts = [] \<Longrightarrow> \<not> is_registered (rt\<lparr>rt_txt := txt\<rparr>) d"
  using assms
  by (auto simp: unregisterDatabaseLocked_def attempt_def Let_def is_registered_def registered_def list_ex_iff line_names_iff
      line_is_of_iff database_name(1) split: option.splits if_splits)

text \<open>What is shown of a root at any moment of a removal: other databases are as they were, and so is the
  database, or it is gone, directory and entry.\<close>

definition kept_or_gone :: "string \<Rightarrow> dbroot \<Rightarrow> dbroot \<Rightarrow> bool" where
  "kept_or_gone d rt rt' \<longleftrightarrow>
     (\<forall>x. x \<noteq> d \<and> x \<noteq> reclaimDir d \<longrightarrow> rt_dirs rt' x = rt_dirs rt x) \<and>
     (\<forall>x. databaseNamePattern x \<and> x \<noteq> d \<longrightarrow> is_registered rt' x = is_registered rt x) \<and>
     (rt_dirs rt' d = rt_dirs rt d \<or> rt_dirs rt' d = None \<and> \<not> is_registered rt' d)"

lemma same_but_kept: "databaseNamePattern d \<Longrightarrow> same_but (reclaimDir d) rt rt' \<Longrightarrow> kept_or_gone d rt rt'"
  using reclaimDir_other [of d d] by (auto simp: kept_or_gone_def same_but_def is_registered_def)

lemma after_unregister:
  assumes "unregisterDatabaseLocked faults (rt_txt rt) d False = (e, acts)" "databaseNamePattern d" "same_but (reclaimDir d) rt rt0"
  shows "kept_or_gone d rt (changes rt0 acts)" "rt_dirs (changes rt0 acts) = rt_dirs rt0"
    "e = None \<Longrightarrow> \<not> is_registered (changes rt0 acts) d"
proof -
  note acts = unregister_acts [OF assms(1,2)]
  have same_txt: "rt_txt rt0 = rt_txt rt" using assms(3) by (simp add: same_but_def)
  from acts(1) show "rt_dirs (changes rt0 acts) = rt_dirs rt0" by auto
  from acts(1) show "kept_or_gone d rt (changes rt0 acts)"
  proof
    assume "acts = []"
    then show ?thesis using same_but_kept [OF assms(2,3)] by simp
  next
    assume "\<exists>c. rt_txt rt = Some c \<and> acts = [WriteTxt (unregister_content c d)]"
    then show ?thesis
      using same_but_kept [OF assms(2,3)] registered_remove [OF assms(2)] registered_remove [OF assms(2,2)] assms(2)
      by (auto simp: kept_or_gone_def is_registered_def)
  qed
  show "\<not> is_registered (changes rt0 acts) d" if "e = None"
    using acts that same_txt registered_remove [OF assms(2,2)] by (auto simp: is_registered_def)
qed

lemma kept_or_gone_moved:
  assumes "kept_or_gone d rt rt1" "databaseNamePattern d" "\<not> is_registered rt1 d" "same_but (reclaimDir d) (change rt1 (MoveDir d (reclaimDir d))) rt2"
  shows "kept_or_gone d rt rt2"
  using assms reclaimDir_other [of d d] by (auto simp: kept_or_gone_def same_but_def is_registered_def)

lemma remove_unfinished_prefix:
  assumes "remove_unfinished faults part where' d rt = (e, acts)" "acts = sofar @ rest" "databaseNamePattern d"
    "same_but (reclaimDir d) rt rt0"
  shows "kept_or_gone d rt (changes rt0 sofar)"
proof -
  let ?t = "reclaimDir d"
  obtain e1 acts1 where u: "unregisterDatabaseLocked faults (rt_txt rt) d False = (e1, acts1)" by fastforce
  note after = after_unregister [OF u assms(3,4)]
  obtain acts2 where acts: "acts = acts1 @ acts2"
      "acts2 = [] \<or> e1 = None \<and> (\<exists>rm. acts2 = MoveDir d ?t # rm \<and> list_all (\<lambda>a. a = RemoveEntries ?t part \<or> a = RemoveDir ?t) rm)"
    using assms(1) u
    by (auto simp: remove_unfinished_def attempt_def Let_def dest: removeTree_acts split: option.splits prod.splits if_splits)
  from assms(2) acts(1) have "sofar @ rest = acts1 @ acts2" by simp
  then consider us where "sofar @ us = acts1" | us where "sofar = acts1 @ us" "us @ rest = acts2"
    by (auto simp: append_eq_append_conv2)
  then show ?thesis
  proof cases
    case 1
    then have "sofar = [] \<or> sofar = acts1" using unregister_acts(1) [OF u assms(3)] by (cases sofar) auto
    then show ?thesis using after(1) same_but_kept [OF assms(3,4)] by auto
  next
    case 2
    show ?thesis
    proof (cases us)
      case Nil
      then show ?thesis using after(1) 2(1) by simp
    next
      case (Cons a d3)
      then have d3: "e1 = None" "a = MoveDir d ?t" "list_all (\<lambda>a. a = RemoveEntries ?t part \<or> a = RemoveDir ?t) d3"
        using acts(2) 2(2) by auto
      have "same_but ?t (change (changes rt0 acts1) (MoveDir d ?t)) (changes (change (changes rt0 acts1) (MoveDir d ?t)) d3)"
        using same_but_removal [OF same_but_refl d3(3)] .
      from kept_or_gone_moved [OF after(1) assms(3) after(3) [OF d3(1)] this] show ?thesis
        unfolding 2(1) Cons d3(2) changes_append by simp
    qed
  qed
qed

text \<open>
  C34. What is removed is unfinished work of this manager and nothing else. Whatever fails, and wherever
  the process dies in \<open>reclaimIncomplete\<close>: every other database keeps its directory and its registration;
  the database's own directory is untouched, or it has only lost the marker, and then its operation is
  recorded as completed, or it has left its name as a whole and is not registered any more, and then its
  marker named an operation that the store answers as failed before it had restored any data. So no
  directory without a marker, of an unknown or running operation, or with data that may have been
  started is ever changed, and none is left half removed under the name of a database.
\<close>

theorem only_unfinished_work_is_reclaimed:
  assumes "reclaimIncomplete printable store_text state_text env faults part target (Some rt) database s = (result, acts, s')"
    and "acts = sofar @ rest" and "rt' = changes rt sofar"
  shows "(\<forall>x. x \<noteq> database \<and> x \<noteq> reclaimDir database \<longrightarrow> rt_dirs rt' x = rt_dirs rt x) \<and>
    (\<forall>x. databaseNamePattern x \<and> x \<noteq> database \<longrightarrow> is_registered rt' x = is_registered rt x) \<and>
    (rt_dirs rt' database = rt_dirs rt database \<or>
     (\<exists>d data op. rt_dirs rt database = Some d \<and> d ownershipMarker = Some data \<and> fst (Get env (trim_space data) s) = Inr op \<and>
       (op_State op = OpCompleted \<and> rt_dirs rt' database = Some (d(ownershipMarker := None)) \<or>
        op_State op = OpFailed \<and> op_Restored op = None \<and> rt_dirs rt' database = None \<and> \<not> is_registered rt' database)))"
proof (cases "databaseNamePattern database")
  case False
  then show ?thesis using assms by (auto simp: reclaimIncomplete_def)
next
  case True
  let ?t = "reclaimDir database"
  obtain e1 acts1 where left: "remove_leftover faults part target database rt = (e1, acts1)" by fastforce
  note tomb = remove_leftover_acts [OF left]
  have same: "same_but ?t rt (changes rt acts1)" using same_but_removal [OF same_but_refl tomb] .
  consider "acts = [] \<or> acts = acts1"
    | d data op e acts2 where "rt_dirs rt database = Some d" "d ownershipMarker = Some data" "fst (Get env (trim_space data) s) = Inr op"
        "op_State op = OpCompleted" "clearOwned faults database = (e, acts2)" "acts = acts1 @ acts2"
    | d data op e acts2 where "rt_dirs rt database = Some d" "d ownershipMarker = Some data" "fst (Get env (trim_space data) s) = Inr op"
        "op_State op = OpFailed" "op_Restored op = None" "remove_unfinished faults part (Join [target, database]) database rt = (e, acts2)"
        "acts = acts1 @ acts2"
    using assms(1) left True
    by (auto simp: reclaimIncomplete_def marker_of_def bind_eq_Some_conv Let_def split: option.splits prod.splits sum.splits if_splits OperationState.splits)
  then consider "list_all (\<lambda>a. a = RemoveEntries ?t part \<or> a = RemoveDir ?t) sofar"
    | d data op e acts2 us where "rt_dirs rt database = Some d" "d ownershipMarker = Some data" "fst (Get env (trim_space data) s) = Inr op"
        "op_State op = OpCompleted" "clearOwned faults database = (e, acts2)" "sofar = acts1 @ us" "us @ rest = acts2"
    | d data op e acts2 us where "rt_dirs rt database = Some d" "d ownershipMarker = Some data" "fst (Get env (trim_space data) s) = Inr op"
        "op_State op = OpFailed" "op_Restored op = None" "remove_unfinished faults part (Join [target, database]) database rt = (e, acts2)"
        "sofar = acts1 @ us" "us @ rest = acts2"
    using tomb assms(2) by cases (auto simp: append_eq_append_conv2)
  then show ?thesis
  proof cases
    case 1
    from same_but_removal [OF same_but_refl this] show ?thesis
      using assms(3) reclaimDir_other [OF True, of database] by (auto simp: same_but_def is_registered_def)
  next
    case 2
    have "us = [] \<or> us = [RemoveEntries database [ownershipMarker]]"
      using 2(5,7) by (cases us) (auto simp: clearOwned_def attempt_def split: option.splits if_splits)
    moreover have "rt_dirs (changes rt acts1) database = Some d" using same 2(1) reclaimDir_other [OF True, of database] by (simp add: same_but_def)
    moreover have "(\<lambda>x. if x = ownershipMarker then None else d x) = d(ownershipMarker := None)" by auto
    ultimately show ?thesis
      unfolding assms(3) 2(6) changes_append using 2(1-4) same by (auto simp: same_but_def is_registered_def)
  next
    case 3
    from remove_unfinished_prefix [OF 3(6) 3(8) [symmetric] True same]
    have "kept_or_gone database rt rt'" unfolding assms(3) 3(7) changes_append .
    then show ?thesis using 3(1-5) unfolding kept_or_gone_def by blast
  qed
qed

definition demo_failed :: Operation where
  "demo_failed = demo_op 0 OpRestore ''k'' ''h'' OpFailed"

definition demo_failed_store :: store where
  "demo_failed_store = empty_memory [(record_name (op_ID demo_failed), RecordFile (JsonRecord demo_failed))] 0"

definition demo_dbroot :: "Operation \<Rightarrow> dbroot" where
  "demo_dbroot op = \<lparr>rt_dirs = [''db'' \<mapsto> [ownershipMarker \<mapsto> op_ID op, ''vol'' \<mapsto> []]], rt_txt = None\<rparr>"

theorem only_unfinished_work_is_reclaimed_witness:
  "let r = reclaimIncomplete (\<lambda>_. True) (\<lambda>_. []) (\<lambda>_. []) (demo_env 0) (\<lambda>_. None) [''vol''] ''/t'' (Some (demo_dbroot demo_failed)) ''db'' demo_failed_store;
       rt' = changes (demo_dbroot demo_failed) [MoveDir ''db'' (reclaimDir ''db'')]
   in fst (snd r) = [MoveDir ''db'' (reclaimDir ''db''), RemoveEntries (reclaimDir ''db'') [''vol''], RemoveDir (reclaimDir ''db'')] \<and>
      rt_dirs rt' ''db'' = None \<and> \<not> is_registered rt' ''db''"
proof -
  let ?r = "reclaimIncomplete (\<lambda>_. True) (\<lambda>_. []) (\<lambda>_. []) (demo_env 0) (\<lambda>_. None) [''vol''] ''/t'' (Some (demo_dbroot demo_failed)) ''db'' demo_failed_store"
  let ?rt = "changes (demo_dbroot demo_failed) [MoveDir ''db'' (reclaimDir ''db'')]"
  have acts: "fst (snd ?r) = [MoveDir ''db'' (reclaimDir ''db''), RemoveEntries (reclaimDir ''db'') [''vol''], RemoveDir (reclaimDir ''db'')]"
    by code_simp
  then have r: "?r = (fst ?r, [MoveDir ''db'' (reclaimDir ''db'')] @ [RemoveEntries (reclaimDir ''db'') [''vol''], RemoveDir (reclaimDir ''db'')], snd (snd ?r))"
    by (metis append_Cons append_Nil prod.collapse)
  have "rt_dirs ?rt ''db'' = None" by (simp add: demo_dbroot_def reclaimDir_def)
  moreover have "rt_dirs (demo_dbroot demo_failed) ''db'' \<noteq> None" by (simp add: demo_dbroot_def)
  ultimately have "\<not> is_registered ?rt ''db''"
    using only_unfinished_work_is_reclaimed [OF r refl refl] by auto
  then show ?thesis using acts \<open>rt_dirs ?rt ''db'' = None\<close> by (simp add: Let_def)
qed

subsection \<open>The report agrees with the removal\<close>

lemma Peek_Get_same:
  assumes "manager_reach Y" "fst (Peek env i (sy_store Y)) = Inr op" "Get env' i (sy_store Y) = (Inr op', s')"
  shows "op_State op' = op_State op" "op_Restored op' = op_Restored op"
proof -
  have inv: "sys_inv Y" by (rule reach_sys_inv [OF assms(1)])
  have kept: "kept_end (sy_store Y) i \<noteq> None \<Longrightarrow> \<not> interrupted (sy_store Y) i"
    using sys_invD(4) [OF inv, of i] by (simp add: tracked_def)
  obtain s1 where "Peek env i (sy_store Y) = (Inr op, s1)" using assms(2) by (metis prod.collapse)
  then obtain t where "op'\<lparr>op_UpdatedAt := t\<rparr> = op\<lparr>op_UpdatedAt := t\<rparr>"
    using Get_exact [OF assms(3) sys_invD(1) [OF inv] kept] Peek_exact [of env i "sy_store Y" op s1]
    by (auto split: option.splits if_splits)
  then have "op_State (op'\<lparr>op_UpdatedAt := t\<rparr>) = op_State (op\<lparr>op_UpdatedAt := t\<rparr>)"
    "op_Restored (op'\<lparr>op_UpdatedAt := t\<rparr>) = op_Restored (op\<lparr>op_UpdatedAt := t\<rparr>)" by simp_all
  then show "op_State op' = op_State op" "op_Restored op' = op_Restored op" by simp_all
qed

lemma no_faults:
  "fst (clearOwned (\<lambda>_. None) d) = None" "fst (remove_unfinished (\<lambda>_. None) part w d rt) = None"
  by (auto simp: clearOwned_def attempt_def remove_unfinished_def unregisterDatabaseLocked_def removeTree_def Let_def
      split: option.splits)



end
