(* ===== verification/Staging.thy ===== *)
theory Staging
  imports Confine OpSystem ImApi Heartbeat
begin

section \<open>Backup staging\<close>

text \<open>
  \<^verbatim>\<open>internal/instancemanager/staging.go\<close>: an operation stages its backup in a directory of its own, named
  after it, below the destination of its request; what a live operation owns is never removed, and what
  ended operations left is removed by the next request or when the manager starts.

  The staging root is a map from the destinations to the entries in them, in the order in which a
  directory is read; a destination may also be a file. As in \<open>Ownership\<close>, a call returns the changes it
  makes, in order, and \<open>faults\<close> names the steps that fail. \<open>held\<close> says of an entry which processes hold a
  file in it, or that this cannot be told: it is \<open>stagingHeld\<close> of \<^verbatim>\<open>stagingwriter.go\<close> on the path of the entry,
  whose scan of the process list is \<open>stagingHolders\<close>. The lookup of an operation is the argument \<open>get\<close>, so that what staging
  relies on can be said of it (locale \<open>owner_lookup\<close>); the manager's is \<open>Get\<close>. Directories that cannot be
  removed are left behind, as in the code, and the log is left out.
\<close>

subsection \<open>Who holds a file\<close>

text \<open>The open files of a process: their names, or why they cannot be read. A link that cannot be read is
  \<open>None\<close>; a process that is gone is \<open>Gone\<close>.\<close>

datatype fd_list = Gone | Unreadable string | OpenFiles "string option list"

definition below :: "string \<Rightarrow> string \<Rightarrow> bool" where
  "below dir target \<longleftrightarrow> target = dir \<or> has_prefix target (dir @ [slash])"

text \<open>The names that \<^verbatim>\<open>strconv.Atoi\<close> reads as a number of 64 bits.\<close>

definition unsigned :: "string \<Rightarrow> string" where
  "unsigned name = (case name of c # cs \<Rightarrow> if c = CHR ''+'' \<or> c = CHR ''-'' then cs else name | [] \<Rightarrow> [])"

definition is_pid :: "string \<Rightarrow> bool" where
  "is_pid name \<longleftrightarrow>
     unsigned name \<noteq> [] \<and> list_all is_digit (unsigned name) \<and>
     int (digits_value (unsigned name)) \<le> (if take 1 name = ''-'' then max_int64 + 1 else max_int64)"

fun holders_of :: "(string \<Rightarrow> string) \<Rightarrow> string \<Rightarrow> (string \<times> fd_list) list \<Rightarrow> string list \<times> string list" where
  "holders_of comm dir [] = ([], [])"
| "holders_of comm dir ((pid, files) # ps) =
     (case holders_of comm dir ps of
        (holders, errs) \<Rightarrow>
          if \<not> is_pid pid then (holders, errs)
          else case files of
                 Gone \<Rightarrow> (holders, errs)
               | Unreadable e \<Rightarrow>
                   if has_prefix (comm pid) ''cub''
                   then (holders, (''read the open files of '' @ pid @ '' '' @ comm pid @ '': '' @ e) # errs) else (holders, errs)
               | OpenFiles fds \<Rightarrow>
                   (case find (\<lambda>fd. fd \<noteq> None \<and> below dir (the fd)) fds of
                      Some (Some target) \<Rightarrow> ((pid @ '' '' @ comm pid @ '' '' @ target) # holders, errs)
                    | _ \<Rightarrow> (holders, errs)))"

definition stagingHolders :: "string + (string \<times> fd_list) list \<Rightarrow> (string \<Rightarrow> string) \<Rightarrow> string \<Rightarrow> string list \<times> string option" where
  "stagingHolders procs comm dir =
     (case procs of
        Inl e \<Rightarrow> ([], Some (''read the process list: '' @ e))
      | Inr ps \<Rightarrow>
          (case holders_of comm (Clean dir) ps of
             (holders, errs) \<Rightarrow> (holders, if errs = [] then None else Some (join [CHR 0x0A] errs))))"

subsection \<open>Owners\<close>

type_synonym lookup = "string \<Rightarrow> store \<Rightarrow> (store_error + Operation) \<times> store"

type_synonym holders = "string \<Rightarrow> string \<Rightarrow> string list \<times> string option"

text \<open>The owner of an entry whose record cannot be read, or that a process holds, is known by its name only.\<close>

definition named_only :: "string \<Rightarrow> Operation" where
  "named_only name =
     \<lparr>op_ID = name, op_Kind = KindOther [], op_IdempotencyKey = [], op_RequestHash = [], op_Database = [], op_State = StateOther [],
      op_FailureReason = [], op_Artifact = None, op_Restored = None, op_StagingDir = [], op_CreatedAt = 0, op_UpdatedAt = 0\<rparr>"

definition stagingRecordLive :: "lookup \<Rightarrow> string \<Rightarrow> store \<Rightarrow> Operation option \<times> store" where
  "stagingRecordLive get name s =
     (if \<not> isValidOperationID name then (None, s)
      else case get name s of
             (Inl e, s') \<Rightarrow> (if is_not_found e then None else Some (named_only name), s')
           | (Inr op, s') \<Rightarrow> (if op_terminal op then None else Some op, s'))"

definition stagingOwnerLive :: "lookup \<Rightarrow> holders \<Rightarrow> string \<Rightarrow> string \<Rightarrow> store \<Rightarrow> Operation option \<times> store" where
  "stagingOwnerLive get held destination name s =
     (case stagingRecordLive get name s of
        (Some op, s') \<Rightarrow> (Some op, s')
      | (None, s') \<Rightarrow>
          (case held destination name of
             (hs, err) \<Rightarrow> (if err \<noteq> None \<or> hs \<noteq> [] then Some (named_only name) else None, s')))"

fun live_owners :: "lookup \<Rightarrow> holders \<Rightarrow> string \<Rightarrow> string list \<Rightarrow> store \<Rightarrow> Operation list \<times> store" where
  "live_owners get held destination [] s = ([], s)"
| "live_owners get held destination (e # es) s =
     (case stagingOwnerLive get held destination e s of
        (owner, s') \<Rightarrow>
          (case live_owners get held destination es s' of
             (ops, s'') \<Rightarrow> (case owner of None \<Rightarrow> ops | Some op \<Rightarrow> op # ops, s'')))"

datatype destination = Entries "string list" | NotADirectory

type_synonym staging = "string \<Rightarrow> destination option"

type_synonym faults = "string \<Rightarrow> string option"

definition openStagingRoot :: "faults \<Rightarrow> string option" where
  "openStagingRoot faults =
     (case faults ''mkdir the staging root'' of
        Some e \<Rightarrow> Some (''create the backup staging root: '' @ e)
      | None \<Rightarrow> map_option (\<lambda>e. ''open the backup staging root: '' @ e) (faults ''open the staging root''))"

definition entries_of :: "staging \<Rightarrow> string \<Rightarrow> string list" where
  "entries_of st name = (case st name of Some (Entries es) \<Rightarrow> es | _ \<Rightarrow> [])"

definition liveStagingOwners ::
  "lookup \<Rightarrow> holders \<Rightarrow> faults \<Rightarrow> staging \<Rightarrow> string \<Rightarrow> store \<Rightarrow> (string + Operation list \<times> string list) \<times> store" where
  "liveStagingOwners get held faults st name s =
     (case st name of
        None \<Rightarrow> (Inr ([], []), s)
      | Some d \<Rightarrow>
          (case faults (''open '' @ name) of
             Some e \<Rightarrow> (Inl (''open the backup staging destination: '' @ e), s)
           | None \<Rightarrow>
               (case (faults (''read '' @ name), d) of
                  (None, Entries es) \<Rightarrow>
                    (case live_owners get held name es s of (ops, s') \<Rightarrow> (Inr (ops, es), s'))
                | _ \<Rightarrow> (Inl ''read the backup staging destination'', s))))"

subsection \<open>Claiming and reclaiming\<close>

datatype staging_action =
    MakeDestination string
  | MakeEntry string string
  | RemoveEntry string string
  | RemoveDestination string

fun removes :: "string \<Rightarrow> staging_action \<Rightarrow> bool" where
  "removes name (RemoveEntry d e) \<longleftrightarrow> d = name"
| "removes name (RemoveDestination d) \<longleftrightarrow> d = name"
| "removes name _ \<longleftrightarrow> False"

text \<open>The entries of a destination that are removed; one whose removal fails stays.\<close>

definition reclaimDestination ::
  "lookup \<Rightarrow> holders \<Rightarrow> faults \<Rightarrow> staging \<Rightarrow> string \<Rightarrow> store \<Rightarrow> (string + bool) \<times> staging_action list \<times> store" where
  "reclaimDestination get held faults st name s =
     (case liveStagingOwners get held faults st name s of
        (Inl e, s') \<Rightarrow> (Inl e, [], s')
      | (Inr (lives, entries), s') \<Rightarrow>
          if lives \<noteq> [] then (Inr False, [], s')
          else (Inr True, map (RemoveEntry name) (filter (\<lambda>e. faults (''remove '' @ name @ [slash] @ e) = None) entries), s'))"

definition claimBackupStaging ::
  "lookup \<Rightarrow> holders \<Rightarrow> faults \<Rightarrow> string \<Rightarrow> staging \<Rightarrow> string \<Rightarrow> string \<Rightarrow> store \<Rightarrow> (manager_error + string) \<times> staging_action list \<times> store" where
  "claimBackupStaging get held faults stagingRoot st name i s =
     (case (if st name = None then faults (''mkdir '' @ name) else None) of
        Some e \<Rightarrow> (Inl (OtherError (''create the backup staging destination: '' @ e)), [], s)
      | None \<Rightarrow>
          let made = (if st name = None then [MakeDestination name] else []);
              st' = (if st name = None then st(name \<mapsto> Entries []) else st)
          in case faults (''lstat '' @ name) of
               Some e \<Rightarrow> (Inl (OtherError (''inspect the backup staging destination: '' @ e)), made, s)
             | None \<Rightarrow>
                 if st' name = Some NotADirectory
                 then (Inl (OtherError (''the backup staging destination '' @ name @ '' is not a directory'')), made, s)
                 else case reclaimDestination get held faults st' name s of
                        (Inl e, acts, s') \<Rightarrow> (Inl (OtherError e), made @ acts, s')
                      | (Inr free, acts, s') \<Rightarrow>
                          if \<not> free then (Inl ErrBackupStagingInUse, made @ acts, s')
                          else if faults (''mkdir '' @ name @ [slash] @ i) \<noteq> None \<or>
                                  (i \<in> set (entries_of st' name) \<and> RemoveEntry name i \<notin> set acts)
                          then (Inl (OtherError ''create the operation's backup staging directory''), made @ acts, s')
                          else (Inr (Join [stagingRoot, name, i]), made @ acts @ [MakeEntry name i], s'))"

fun refused_owner :: "lookup \<Rightarrow> string \<Rightarrow> Operation list \<Rightarrow> store \<Rightarrow> manager_error option \<times> store" where
  "refused_owner get key [] s = (None, s)"
| "refused_owner get key (owner # owners) s =
     (case (if op_Kind owner = KindOther [] then get (op_ID owner) s else (Inr owner, s)) of
        (a, s') \<Rightarrow>
          if (case a of Inl e \<Rightarrow> \<not> is_not_found e | Inr _ \<Rightarrow> False)
          then (Some (StoreError (ErrOperationRecordUnreadable 1 (projl a))), s')
          else if op_Kind owner \<noteq> OpBackup \<or> op_IdempotencyKey owner \<noteq> key then (Some ErrBackupStagingInUse, s')
          else refused_owner get key owners s')"

definition recordBackup ::
  "(manager_error \<Rightarrow> string) \<Rightarrow> (store_error \<Rightarrow> string) \<Rightarrow> io \<Rightarrow> holders \<Rightarrow> faults \<Rightarrow> string \<Rightarrow> staging \<Rightarrow> string \<Rightarrow> string \<Rightarrow> BackupRequest \<Rightarrow> store \<Rightarrow>
     (manager_error + Operation \<times> string) \<times> staging_action list \<times> store" where
  "recordBackup error_text store_text env held faults stagingRoot st key requestHash req s =
     (case openStagingRoot faults of
        Some e \<Rightarrow> (Inl (OtherError e), [], s)
      | None \<Rightarrow>
          let name = Base (br_Destination req) in
          case liveStagingOwners (Get env) held faults st name s of
            (Inl e, s1) \<Rightarrow> (Inl (OtherError e), [], s1)
          | (Inr (lives, _), s1) \<Rightarrow>
              (case refused_owner (Get env) key lives s1 of
                 (Some e, s2) \<Rightarrow> (Inl e, [], s2)
               | (None, s2) \<Rightarrow>
                   (case FindOrCreate env OpBackup key requestHash (br_Database req) s2 of
                      (Inl e, s3) \<Rightarrow> (Inl (StoreError e), [], s3)
                    | (Inr (op, True), s3) \<Rightarrow> (Inr (op, []), [], s3)
                    | (Inr (op, False), s3) \<Rightarrow>
                        (case claimBackupStaging (Get env) held faults stagingRoot st name (op_ID op) s3 of
                           (claimed, acts, s4) \<Rightarrow>
                             (case (case claimed of
                                      Inl e \<Rightarrow> (Inl (error_text e), s4)
                                    | Inr path \<Rightarrow>
                                        (case Update env (op_ID op) (\<lambda>o'. o'\<lparr>op_StagingDir := path\<rparr>) s4 of
                                           (Inl e, s5) \<Rightarrow> (Inl (store_text e), s5) | (Inr _, s5) \<Rightarrow> (Inr path, s5))) of
                                (Inr path, s5) \<Rightarrow> (Inr (op, path), acts, s5)
                              | (Inl why, s5) \<Rightarrow>
                                  let reason = ''claim the backup staging directory: '' @ why;
                                      acts' = acts @ (case claimed of Inl _ \<Rightarrow> [] | Inr _ \<Rightarrow> [RemoveEntry name (op_ID op)])
                                  in case Settle env (op_ID op) (\<lambda>o'. o'\<lparr>op_State := OpFailed, op_FailureReason := reason\<rparr>) s5 of
                                       (Some e, s6) \<Rightarrow> (Inl (OtherError (reason @ ''; recording that the operation failed: '' @ store_text e)), acts', s6)
                                     | (None, s6) \<Rightarrow>
                                         (case Get env (op_ID op) s6 of
                                            (Inl e, s7) \<Rightarrow> (Inl (StoreError e), acts', s7)
                                          | (Inr failed, s7) \<Rightarrow> (Inr (failed, []), acts', s7)))))))"

text \<open>The destinations below the staging root, with whether each is a directory, as they are listed.\<close>

fun reclaim_each ::
  "lookup \<Rightarrow> holders \<Rightarrow> faults \<Rightarrow> staging \<Rightarrow> string list \<Rightarrow> store \<Rightarrow> staging_action list \<times> store" where
  "reclaim_each get held faults st [] s = ([], s)"
| "reclaim_each get held faults st (name # names) s =
     (if st name = Some NotADirectory \<or> \<not> stagingNamePattern name then reclaim_each get held faults st names s
      else case reclaimDestination get held faults st name s of
             (r, acts, s') \<Rightarrow>
               (case reclaim_each get held faults st names s' of
                  (acts', s'') \<Rightarrow>
                    (acts @ (if r = Inr True \<and> length acts = length (entries_of st name) \<and> faults (''rmdir '' @ name) = None
                             then [RemoveDestination name] else []) @ acts', s'')))"

definition reclaimBackupStaging ::
  "lookup \<Rightarrow> holders \<Rightarrow> faults \<Rightarrow> string \<Rightarrow> staging \<Rightarrow> string + string list \<Rightarrow> store option \<Rightarrow> staging_action list \<times> store option" where
  "reclaimBackupStaging get held faults stagingRoot st read_root ops =
     (case ops of
        None \<Rightarrow> ([], None)
      | Some s \<Rightarrow>
          if stagingRoot = [] then ([], Some s)
          else case read_root of
                 Inl _ \<Rightarrow> ([], Some s)
               | Inr names \<Rightarrow>
                   if faults ''open the staging root'' \<noteq> None then ([], Some s)
                   else (case reclaim_each get held faults st names s of (acts, s') \<Rightarrow> (acts, Some s')))"

subsection \<open>Creating and removing the directory of one backup\<close>

definition IsLocal :: "string \<Rightarrow> bool" where
  "IsLocal path \<longleftrightarrow>
     path \<noteq> [] \<and> take 1 path \<noteq> [slash] \<and>
     (let p = (if ''.'' \<in> set (split_slash path) \<or> ''..'' \<in> set (split_slash path) then Clean path else path)
      in p \<noteq> ''..'' \<and> \<not> has_prefix p ''../'')"

definition stagingRel :: "string \<Rightarrow> string \<Rightarrow> string + string" where
  "stagingRel stagingRoot dir =
     (case Rel stagingRoot dir of
        Some rel \<Rightarrow> if IsLocal rel then Inr rel else Inl (dir @ '' is not below the backup staging root'')
      | None \<Rightarrow> Inl (dir @ '' is not below the backup staging root''))"

text \<open>Where the links of open files show what is below a staging directory. \<open>resolved\<close> is the staging root with its
  links followed, or none when that failed; \<open>is_link\<close> says which paths are links.\<close>

fun steps_below :: "string \<Rightarrow> string list \<Rightarrow> string list" where
  "steps_below at [] = []"
| "steps_below at (part # parts) = Join [at, part] # steps_below (Join [at, part]) parts"

definition stagingScanPath :: "string option \<Rightarrow> (string \<Rightarrow> bool) \<Rightarrow> string \<Rightarrow> string \<Rightarrow> string \<times> bool" where
  "stagingScanPath resolved is_link stagingRoot dir =
     (case stagingRel stagingRoot dir of
        Inl _ \<Rightarrow> (Clean dir, False)
      | Inr rel \<Rightarrow>
          let root = Clean stagingRoot
          in (Join [case resolved of Some r \<Rightarrow> r | None \<Rightarrow> root, rel], list_ex is_link (steps_below root (split_slash rel))))"

definition stagingHeld ::
  "string + (string \<times> fd_list) list \<Rightarrow> (string \<Rightarrow> string) \<Rightarrow> string option \<Rightarrow> (string \<Rightarrow> bool) \<Rightarrow> string \<Rightarrow> string \<Rightarrow> string list \<times> string option" where
  "stagingHeld procs comm resolved is_link stagingRoot dir =
     (case stagingScanPath resolved is_link stagingRoot dir of
        (path, link) \<Rightarrow> if link then ([], None) else stagingHolders procs comm path)"

datatype tree_action = MakeAll string | RemoveTree string | RemoveEmpty string

definition createBackupStaging :: "faults \<Rightarrow> string \<Rightarrow> string \<Rightarrow> string option \<times> tree_action list" where
  "createBackupStaging faults stagingRoot destination =
     (case stagingRel stagingRoot destination of
        Inl e \<Rightarrow> (Some e, [])
      | Inr rel \<Rightarrow>
          (case openStagingRoot faults of
             Some e \<Rightarrow> (Some e, [])
           | None \<Rightarrow>
               (case faults ''mkdir the backup staging directory'' of
                  Some e \<Rightarrow> (Some (''create the backup staging directory: '' @ e), [])
                | None \<Rightarrow> (None, [MakeAll rel]))))"

definition removeBackupStaging :: "faults \<Rightarrow> string \<Rightarrow> string \<Rightarrow> tree_action list" where
  "removeBackupStaging faults stagingRoot destination =
     (case stagingRel stagingRoot destination of
        Inl _ \<Rightarrow> []
      | Inr rel \<Rightarrow>
          if faults ''open the staging root'' \<noteq> None then []
          else RemoveTree rel # (if Dir rel \<noteq> ''.'' then [RemoveEmpty (Dir rel)] else []))"

subsection \<open>Waiting for the writers of a failed backup\<close>

definition stagingWriterBound :: time where
  "stagingWriterBound = 30 * 1000000000"

definition stagingWriterPoll :: time where
  "stagingWriterPoll = 200 * 1000000"

definition trim_prefix :: "string \<Rightarrow> string \<Rightarrow> string" where
  "trim_prefix s pre = (if has_prefix s pre then drop (length pre) s else s)"

definition describeHolders :: "string list \<Rightarrow> string option \<Rightarrow> string" where
  "describeHolders held err =
     (case err of
        None \<Rightarrow> join '', '' held
      | Some e \<Rightarrow> trim_prefix (join '', '' held @ ''; '' @ e) ''; '')"

text \<open>The loop of the wait. \<open>look k\<close> is the \<open>k\<close>-th look at the holders, the first before the loop, and \<open>since k\<close>
  the time since the start when the loop is entered for the \<open>k\<close>-th time; the answer is the last look and
  whether it found the staging closed.\<close>

partial_function (option) await_loop ::
  "(nat \<Rightarrow> time) \<Rightarrow> (nat \<Rightarrow> string list \<times> string option) \<Rightarrow> time \<Rightarrow> nat \<Rightarrow> (bool \<times> nat) option" where
  "await_loop since look bound k =
     (if since k < bound
      then if look (Suc k) = ([], None) then Some (True, Suc k) else await_loop since look bound (Suc k)
      else Some (False, k))"

definition awaitStagingWriters ::
  "(time \<Rightarrow> string) \<Rightarrow> time \<Rightarrow> (nat \<Rightarrow> time) \<Rightarrow> (nat \<Rightarrow> string list \<times> string option) \<Rightarrow> string \<Rightarrow> string option option" where
  "awaitStagingWriters duration_text bound0 since look dir =
     (let bound = (if bound0 \<le> 0 then stagingWriterBound else bound0) in
      if look 0 = ([], None) then Some None
      else case await_loop since look bound 0 of
             None \<Rightarrow> None
           | Some (True, _) \<Rightarrow> Some None
           | Some (False, k) \<Rightarrow>
               Some (Some (''the backup staging '' @ dir @ '' is kept and is not uploaded or reused: a process still held a file in it after ''
                 @ duration_text bound @ '' ('' @ describeHolders (fst (look k)) (snd (look k)) @ '')'')))"

subsection \<open>What staging relies on\<close>

text \<open>A lookup that keeps a property of the store, and with it every call that looks owners up.\<close>

locale store_lookup =
  fixes get :: lookup
    and K :: "store \<Rightarrow> bool"
  assumes get_keeps: "K s \<Longrightarrow> K (snd (get j s))"
begin

lemma owner_keeps: "K s \<Longrightarrow> K (snd (stagingOwnerLive get held d n s))"
  using get_keeps [of s n]
  by (auto simp: stagingOwnerLive_def stagingRecordLive_def split: prod.splits option.splits sum.splits)

lemma owners_keep: "K s \<Longrightarrow> K (snd (live_owners get held d es s))"
proof (induction es arbitrary: s)
  case (Cons e es)
  have "K (snd (stagingOwnerLive get held d e s))" by (rule owner_keeps [OF Cons.prems])
  from Cons.IH [OF this] show ?case by (auto split: prod.splits)
qed simp

lemma listing_keeps: "K s \<Longrightarrow> K (snd (liveStagingOwners get held faults st n s))"
  using owners_keep [of s held n "entries_of st n"]
  by (auto simp: liveStagingOwners_def entries_of_def split: prod.splits option.splits destination.splits)

lemma reclaim_keeps: "K s \<Longrightarrow> K (snd (snd (reclaimDestination get held faults st n s)))"
  using listing_keeps [of s held faults st n]
  by (auto simp: reclaimDestination_def split: prod.splits sum.splits)

lemma claim_keeps:
  assumes "K s"
  shows "K (snd (snd (claimBackupStaging get held faults root st n j s)))"
proof -
  obtain r acts s' where r: "reclaimDestination get held faults (if st n = None then st(n \<mapsto> Entries []) else st) n s = (r, acts, s')"
    by (metis prod_cases3)
  have "K s'" using reclaim_keeps [OF assms] by (metis r snd_conv)
  then show ?thesis unfolding claimBackupStaging_def Let_def r using assms by (simp split: option.split sum.split)
qed

lemma refused_keeps: "K s \<Longrightarrow> K (snd (refused_owner get key ops s))"
proof (induction ops arbitrary: s)
  case (Cons op ops)
  obtain a t where a: "(if op_Kind op = KindOther [] then get (op_ID op) s else (Inr op, s)) = (a, t)" by fastforce
  then have "K t" using get_keeps [OF Cons.prems, of "op_ID op"] Cons.prems by (auto split: if_splits)
  then show ?case using Cons.IH a by simp
qed simp

end

text \<open>A lookup that never answers a running operation as ended or unknown, and ends none.\<close>

locale owner_lookup =
  fixes get :: lookup
    and runs_op :: "store \<Rightarrow> string \<Rightarrow> bool"
  assumes lookup_keeps: "runs_op s i \<Longrightarrow> runs_op (snd (get j s)) i"
    and lookup_live: "runs_op s i \<Longrightarrow> (case fst (get i s) of Inl e \<Rightarrow> \<not> is_not_found e | Inr op \<Rightarrow> \<not> op_terminal op)"
    and named: "runs_op s i \<Longrightarrow> isValidOperationID i"

sublocale owner_lookup \<subseteq> kept: store_lookup get "\<lambda>s. runs_op s i" for i
  by unfold_locales (rule lookup_keeps)

context owner_lookup
begin

lemma owner_live: "runs_op s i \<Longrightarrow> fst (stagingOwnerLive get held d i s) \<noteq> None"
  using lookup_live [of s i] named [of s i]
  by (auto simp: stagingOwnerLive_def stagingRecordLive_def split: prod.splits option.splits sum.splits)

lemma owners_live: "runs_op s i \<Longrightarrow> i \<in> set es \<Longrightarrow> fst (live_owners get held d es s) \<noteq> []"
proof (induction es arbitrary: s)
  case (Cons e es)
  obtain w s' where w: "stagingOwnerLive get held d e s = (w, s')" by (cases "stagingOwnerLive get held d e s")
  have "runs_op s' i" using kept.owner_keeps [OF Cons.prems(1), of held d e] w by simp
  then show ?case
    using Cons.IH [of s'] Cons.prems(2) owner_live [OF Cons.prems(1), of held d] w
    by (auto split: prod.splits option.splits)
qed simp

lemma reclaim_spares:
  assumes "runs_op s i" "i \<in> set (entries_of st n)"
  shows "fst (reclaimDestination get held faults st n s) \<noteq> Inr True \<and> fst (snd (reclaimDestination get held faults st n s)) = []"
  using assms(2) owners_live [OF assms, of held n]
  by (auto simp: reclaimDestination_def liveStagingOwners_def entries_of_def split: prod.splits sum.splits option.splits destination.splits)

lemma claim_spares:
  assumes "runs_op s i" "i \<in> set (entries_of st n)" "claimBackupStaging get held faults root st n j s = (c, acts, s')"
  shows "\<not> list_ex (removes n) acts \<and> isl c"
proof -
  have st: "st n \<noteq> None" using assms(2) by (cases "st n") (auto simp: entries_of_def)
  show ?thesis
    using assms(3) reclaim_spares [OF assms(1,2), of held faults] st
    by (auto simp: claimBackupStaging_def Let_def split: option.splits prod.splits sum.splits if_splits)
qed

lemma each_spares:
  assumes "i \<in> set (entries_of st n)" "runs_op s i" "a \<in> set (fst (reclaim_each get held faults st ns s))"
  shows "\<not> removes n a"
  using assms(2,3)
proof (induction ns arbitrary: s)
  case (Cons m ns)
  let ?r = "reclaimDestination get held faults st m s"
  have keep: "runs_op (snd (snd ?r)) i" by (rule kept.reclaim_keeps [OF Cons.prems(1)])
  show ?case
  proof (cases "m = n")
    case True
    then have "fst ?r \<noteq> Inr True" "fst (snd ?r) = []"
      using reclaim_spares [OF Cons.prems(1) assms(1)] by auto
    then show ?thesis using Cons.IH [OF Cons.prems(1)] Cons.IH [OF keep] Cons.prems(2) 
      by (auto split: prod.splits if_splits)
  next
    case False
    have "\<not> removes n a" if "a \<in> set (fst (snd ?r))" using that False
      by (auto simp: reclaimDestination_def split: prod.splits sum.splits if_splits)
    then show ?thesis using Cons.IH [OF Cons.prems(1)] Cons.IH [OF keep] Cons.prems(2) False
      by (auto split: prod.splits if_splits)
  qed
qed simp

end

subsection \<open>The store's lookup\<close>

text \<open>An operation that the store records as not ended, and of which it keeps neither an end that was not
  written nor that a restart interrupted it.\<close>

definition runs_op :: "store \<Rightarrow> string \<Rightarrow> bool" where
  "runs_op s i \<longleftrightarrow> store_ok s \<and> live s i \<and> kept_end s i = None \<and> \<not> interrupted s i"

lemma runs_op_quiet:
  assumes "quiet s s'" "runs_op s i"
  shows "runs_op s' i"
proof -
  have "file_at s' (record_name i) = file_at s (record_name i)"
    using quiet_changed [OF assms(1), of "record_name i"] assms(2) by (auto simp: runs_op_def)
  then have "live s' i" using assms(2) by (simp add: runs_op_def live_def)
  then show ?thesis
    using assms(2) store_ok_quiet [OF _ assms(1)] quiet_kept_end [OF assms(1), of i] quiet_interrupted [OF assms(1), of i]
    by (auto simp: runs_op_def)
qed

lemma runs_op_named: "runs_op s i \<Longrightarrow> isValidOperationID i"
  by (auto simp: runs_op_def live_def record_ok_def dest: store_ok_record)

lemma Get_running:
  assumes "runs_op s i" "Get env i s = (g, s')"
  shows "case g of Inl e \<Rightarrow> \<not> is_not_found e | Inr op \<Rightarrow> \<not> op_terminal op"
proof -
  have ok: "store_ok s" and unkept: "map_of (st_unsettled s) i = None"
    using assms(1) by (auto simp: runs_op_def kept_end_def)
  have valid: "isValidOperationID i" by (rule runs_op_named [OF assms(1)])
  have read: "readLocked env i s = (g, s')"
    using assms(2) valid unkept by (auto simp: Get_def settleLocked_def)
  have live: "live s' i" using runs_op_quiet [OF Get_quiet [OF assms(2) ok] assms(1)] by (simp add: runs_op_def)
  show ?thesis
  proof (cases g)
    case (Inl e)
    then show ?thesis using readLocked_post [OF read] valid live by (auto simp: read_post_def live_def)
  next
    case (Inr op)
    then have "recorded s' i op" using Get_answer [of env i s op s'] assms(2) ok by simp
    then show ?thesis using live Inr by (auto simp: live_def)
  qed
qed

interpretation op_lookup: owner_lookup "Get env" runs_op for env
proof
  fix s i j
  assume r: "runs_op s i"
  show "runs_op (snd (Get env j s)) i"
    using runs_op_quiet [OF Get_quiet r] r by (cases "Get env j s") (auto simp: runs_op_def)
  show "case fst (Get env i s) of Inl e \<Rightarrow> \<not> is_not_found e | Inr op \<Rightarrow> \<not> op_terminal op"
    using Get_running [OF r] by (cases "Get env i s") auto
  show "isValidOperationID i" by (rule runs_op_named [OF r])
qed

lemma fresh_ids_quiet: "quiet s s' \<Longrightarrow> fresh_ids env s \<Longrightarrow> fresh_ids env s'"
  by (simp add: fresh_ids_def quiet_keys)

interpretation new_lookup: owner_lookup "Get env" "\<lambda>s i. runs_op s i \<and> fresh_ids env s" for env
proof
  fix s i j
  assume r: "runs_op s i \<and> fresh_ids env s"
  then have "quiet s (snd (Get env j s))" using Get_quiet [of env j s] by (cases "Get env j s") (auto simp: runs_op_def)
  then show "runs_op (snd (Get env j s)) i \<and> fresh_ids env (snd (Get env j s))"
    using r runs_op_quiet fresh_ids_quiet by blast
qed (use op_lookup.lookup_live runs_op_named in blast)+

lemma store_ok_added:
  assumes "store_ok s" "added op s s'" "pending_op kind key hash db op" "kind \<noteq> KindOther []" "key \<noteq> []"
  shows "store_ok s'"
  using assms added_file(1,2) [OF assms(2)]
  by (auto simp: store_ok_def record_ok_def pending_op_def added_def split: if_splits)

lemma runs_op_added:
  assumes "runs_op s i" "added op s s'" "store_ok s'"
  shows "runs_op s' i"
  using assms added_file [OF assms(2)] by (auto simp: runs_op_def live_def)

interpretation quiet_lookup: store_lookup "Get env" "\<lambda>s. store_ok s \<and> quiet s0 s" for env s0
proof
  fix s j assume "store_ok s \<and> quiet s0 s"
  then show "store_ok (snd (Get env j s)) \<and> quiet s0 (snd (Get env j s))"
    using Get_quiet [of env j s] store_ok_quiet quiet_trans by (metis prod.collapse)
qed

lemma refused_owner_quiet: "store_ok s \<Longrightarrow> refused_owner (Get env) key ops s = (r, s') \<Longrightarrow> quiet s s'"
  using quiet_lookup.refused_keeps [of s s env key ops] by simp

lemma reclaim_acts: "a \<in> set (fst (snd (reclaimDestination get held faults st n s))) \<Longrightarrow> removes m a \<Longrightarrow> m = n"
  by (auto simp: reclaimDestination_def split: prod.splits sum.splits if_splits)

lemma claim_acts:
  assumes "claimBackupStaging get held faults root st n j s = (c, acts, s')" "a \<in> set acts" "removes m a"
  shows "m = n"
proof -
  have "a \<in> set (fst (snd (reclaimDestination get held faults st n s))) \<or>
      a \<in> set (fst (snd (reclaimDestination get held faults (st(n \<mapsto> Entries [])) n s)))"
    using assms by (auto simp: claimBackupStaging_def Let_def split: option.splits prod.splits sum.splits if_splits)
  then show ?thesis using reclaim_acts assms(3) by blast
qed

lemma recordBackup_acts:
  assumes "a \<in> set (fst (snd (recordBackup et sx env held faults root st key hash req s)))"
  obtains lives es s1 s2 op s3 c acts s4 where
    "liveStagingOwners (Get env) held faults st (Base (br_Destination req)) s = (Inr (lives, es), s1)"
    "refused_owner (Get env) key lives s1 = (None, s2)"
    "FindOrCreate env OpBackup key hash (br_Database req) s2 = (Inr (op, False), s3)"
    "claimBackupStaging (Get env) held faults root st (Base (br_Destination req)) (op_ID op) s3 = (c, acts, s4)"
    "a \<in> set acts \<or> \<not> isl c \<and> a = RemoveEntry (Base (br_Destination req)) (op_ID op)"
  using assms
  by (auto simp: recordBackup_def Let_def split: option.splits prod.splits sum.splits bool.splits)

lemma record_spares:
  assumes "runs_op s i" "i \<in> set (entries_of st name)" "fresh_ids env s" "key \<noteq> []"
    and "a \<in> set (fst (snd (recordBackup et sx env held faults root st key hash req s)))"
  shows "\<not> removes name a"
  using assms(5)
proof (rule recordBackup_acts)
  fix lives es s1 s2 op s3 c acts s4
  assume l: "liveStagingOwners (Get env) held faults st (Base (br_Destination req)) s = (Inr (lives, es), s1)"
    and r: "refused_owner (Get env) key lives s1 = (None, s2)"
    and f: "FindOrCreate env OpBackup key hash (br_Database req) s2 = (Inr (op, False), s3)"
    and c: "claimBackupStaging (Get env) held faults root st (Base (br_Destination req)) (op_ID op) s3 = (c, acts, s4)"
    and a: "a \<in> set acts \<or> \<not> isl c \<and> a = RemoveEntry (Base (br_Destination req)) (op_ID op)"
  have s1: "runs_op s1 i" "fresh_ids env s1"
    using new_lookup.kept.listing_keeps [of s i env held faults st "Base (br_Destination req)"] assms(1,3) l by auto
  have q: "quiet s1 s2" using refused_owner_quiet [OF _ r] s1 by (simp add: runs_op_def)
  have s2: "runs_op s2 i" "fresh_ids env s2" using runs_op_quiet [OF q] fresh_ids_quiet [OF q] s1 by auto
  have ok: "store_ok s2" using s2(1) by (simp add: runs_op_def)
  have "runs_op s3 i"
  proof (cases rule: FindOrCreate_cases [OF f ok s2(2)])
    case (4 op' t)
    have t: "runs_op t i" using runs_op_quiet [OF 4(2) s2(1)] .
    have "store_ok s3" using store_ok_added [OF _ 4(7,6)] t assms(4) by (simp add: runs_op_def)
    then show ?thesis using runs_op_added [OF t 4(7)] by simp
  qed auto
  then show "\<not> removes name a"
    using op_lookup.claim_spares [OF _ assms(2), of s3 env held faults root "op_ID op"] claim_acts [OF c] c a
    by (cases "name = Base (br_Destination req)") (auto simp: list_ex_iff)
qed

lemma owners_free: "fst (live_owners get held d es s) = [] \<Longrightarrow> e \<in> set es \<Longrightarrow> held d e = ([], None)"
proof (induction es arbitrary: s)
  case (Cons a es)
  obtain w t where w: "stagingOwnerLive get held d a s = (w, t)" by fastforce
  then have "w = None" "fst (live_owners get held d es t) = []"
    using Cons.prems(1) by (auto split: prod.splits option.splits)
  moreover from this have "held d a = ([], None)"
    using w by (auto simp: stagingOwnerLive_def split: prod.splits option.splits if_splits)
  ultimately show ?case using Cons.IH [of t] Cons.prems(2) by auto
qed simp

text \<open>
  C36. While an operation runs, nothing in the staging destination that holds its directory is removed:
  neither by the clean-up when the manager starts nor by a later request, to that destination or to
  another, whatever the disk and the record of other operations answer.
\<close>

theorem a_running_operation_keeps_its_staging:
  assumes "runs_op s i" "i \<in> set (entries_of st name)" "fresh_ids env s" "key \<noteq> []"
  shows "\<not> list_ex (removes name) (fst (reclaimBackupStaging (Get env) held faults root st names (Some s))) \<and>
    \<not> list_ex (removes name) (fst (snd (recordBackup et sx env held faults root st key hash req s)))"
proof
  show "\<not> list_ex (removes name) (fst (reclaimBackupStaging (Get env) held faults root st names (Some s)))"
  proof -
    have "\<not> removes name a" if "reclaim_each (Get env) held faults st ns s = (acts, t)" "a \<in> set acts" for ns acts t a
      using op_lookup.each_spares [OF assms(2,1)] that by (metis fst_conv)
    then show ?thesis by (auto simp: reclaimBackupStaging_def list_ex_iff split: sum.splits prod.splits)
  qed
  show "\<not> list_ex (removes name) (fst (snd (recordBackup et sx env held faults root st key hash req s)))"
    using record_spares [OF assms] by (auto simp: list_ex_iff)
qed

lemma demo_running: "runs_op (snd demo_first) (operationID_of (\<lambda>i. i))"
proof -
  have "store_ok (snd demo_first)" using sys_invD(1) [OF reach_sys_inv [OF demo_reach2]] by (simp add: demo_store)
  moreover have "recorded (snd demo_first) (operationID_of (\<lambda>i. i)) (demo_op 0 OpBackup ''k1'' ''h1'' OpPending)"
    by code_simp
  moreover have "Option.is_none (kept_end (snd demo_first) (operationID_of (\<lambda>i. i)))"
    "\<not> interrupted (snd demo_first) (operationID_of (\<lambda>i. i))" by code_simp+
  ultimately show ?thesis by (auto simp: runs_op_def live_def demo_op_def Option.is_none_def)
qed

definition demo_request :: BackupRequest where
  "demo_request = \<lparr>br_Database = ''other'', br_Destination = ''/var/lib/cubrid/backup/d'', br_Level = 0, br_Upload = None\<rparr>"

definition demo_staging :: staging where
  "demo_staging = [''d'' \<mapsto> Entries [operationID_of (\<lambda>i. i)]]"

theorem a_running_operation_keeps_its_staging_witness:
  "\<not> list_ex (removes ''d'') (fst (reclaimBackupStaging (Get (demo_env 1)) (\<lambda>_ _. ([], None)) (\<lambda>_. None)
       ''/var/lib/cubrid/backup'' demo_staging (Inr [''d'']) (Some (snd demo_first)))) \<and>
   \<not> list_ex (removes ''d'') (fst (snd (recordBackup (\<lambda>_. []) (\<lambda>_. []) (demo_env 1) (\<lambda>_ _. ([], None)) (\<lambda>_. None)
       ''/var/lib/cubrid/backup'' demo_staging ''k9'' ''h9'' demo_request (snd demo_first))))"
proof (rule a_running_operation_keeps_its_staging [OF demo_running])
  show "fresh_ids (demo_env 1) (snd demo_first)"
    using demo_ids(1) demo_first_facts(2) by (intro demo_fresh) (metis (no_types) list.set(1,2) list.set_map record_name_inject singletonD)
qed (simp_all add: demo_staging_def entries_of_def)

lemma claim_path:
  assumes "claimBackupStaging get held faults root st n i s = (Inr path, acts, s')"
  shows "path = Join [root, n, i] \<and> last acts = MakeEntry n i \<and> (\<forall>e \<in> set (entries_of st n). held n e = ([], None))"
proof -
  let ?st = "if st n = None then st(n \<mapsto> Entries []) else st"
  obtain r acts' t where r: "reclaimDestination get held faults ?st n s = (r, acts', t)" by (metis prod_cases3)
  have p: "path = Join [root, n, i]" "last acts = MakeEntry n i" "r = Inr True"
    using assms r by (auto simp: claimBackupStaging_def Let_def split: option.splits sum.splits if_splits)
  have "held n e = ([], None)" if "e \<in> set (entries_of st n)" for e
  proof -
    have "st n \<noteq> None" using that by (cases "st n") (auto simp: entries_of_def)
    then have "fst (live_owners get held n (entries_of st n) s) = []"
      using r p(3) by (auto simp: reclaimDestination_def liveStagingOwners_def entries_of_def split: option.splits prod.splits sum.splits if_splits destination.splits)
    then show ?thesis using owners_free that by metis
  qed
  then show ?thesis using p by simp
qed

lemma Update_recorded:
  assumes "Update env i f s = (Inr op', s')" "\<And>op. op_ID (f op) = op_ID op"
  shows "\<exists>op t. op' = (f op)\<lparr>op_UpdatedAt := t\<rparr> \<and> recorded s' i op'"
proof -
  obtain r s1 where r: "readLocked env i s = (r, s1)" by fastforce
  obtain op where op: "r = Inr op" using assms(1) r by (cases r) (auto simp: Update_def updateLocked_def)
  let ?op = "(f op)\<lparr>op_UpdatedAt := io_now (outcome env s1)\<rparr>"
  obtain w s2 where w: "writeLocked env ?op s1 = (w, s2)" by fastforce
  have "op_ID op = i" using readLocked_post [OF r] op by (simp add: read_post_def)
  moreover have "w = None" "s' = s2" "op' = ?op"
    using assms(1) r op w by (auto simp: Update_def updateLocked_def Let_def split: option.splits)
  ultimately show ?thesis using writeLocked_file(2) [OF w] assms(2) by auto
qed


definition demo_claim :: "(manager_error + Operation \<times> string) \<times> staging_action list \<times> store" where
  "demo_claim = recordBackup (\<lambda>_. []) (\<lambda>_. []) (demo_env 0) (\<lambda>_ _. ([], None)) (\<lambda>_. None)
     ''/b'' [''d'' \<mapsto> Entries [''left'']] ''k1'' ''h1'' demo_request (snd demo_boot)"

lemma demo_claim_facts:
  "map_sum id (\<lambda>(op, path). (op_ID op, path)) (fst demo_claim) = Inr (operationID_of (\<lambda>i. i), ''/b/d/'' @ operationID_of (\<lambda>i. i))"
  by code_simp


subsection \<open>The wait ends\<close>

abbreviation closed_look :: "string list \<times> string option" where
  "closed_look \<equiv> ([], None)"

lemma await_loop_ends:
  assumes "bound \<le> since K" "k \<le> K"
  shows "\<exists>b j. await_loop since look bound k = Some (b, j) \<and>
    (b \<longleftrightarrow> (\<exists>m > k. look m = closed_look \<and> (\<forall>j. k \<le> j \<and> j < m \<longrightarrow> since j < bound)))"
  using assms(2)
proof (induction "K - k" arbitrary: k)
  case 0
  then have "\<not> since k < bound" using assms(1) by simp
  then show ?case by (subst await_loop.simps) auto
next
  case (Suc n)
  show ?case
  proof (cases "since k < bound \<and> look (Suc k) \<noteq> closed_look")
    case True
    have "n = K - Suc k" "Suc k \<le> K" using Suc.hyps(2) by auto
    from Suc.hyps(1) [OF this] obtain b j where bj: "await_loop since look bound (Suc k) = Some (b, j)"
      "b \<longleftrightarrow> (\<exists>m > Suc k. look m = closed_look \<and> (\<forall>j. Suc k \<le> j \<and> j < m \<longrightarrow> since j < bound))"
      by blast
    moreover have "b \<longleftrightarrow> (\<exists>m > k. look m = closed_look \<and> (\<forall>j. k \<le> j \<and> j < m \<longrightarrow> since j < bound))"
      unfolding bj(2)
    proof
      assume "\<exists>m > Suc k. look m = closed_look \<and> (\<forall>j. Suc k \<le> j \<and> j < m \<longrightarrow> since j < bound)"
      then show "\<exists>m > k. look m = closed_look \<and> (\<forall>j. k \<le> j \<and> j < m \<longrightarrow> since j < bound)"
        using True by (metis Suc_leI Suc_lessD le_neq_implies_less)
    next
      assume "\<exists>m > k. look m = closed_look \<and> (\<forall>j. k \<le> j \<and> j < m \<longrightarrow> since j < bound)"
      then show "\<exists>m > Suc k. look m = closed_look \<and> (\<forall>j. Suc k \<le> j \<and> j < m \<longrightarrow> since j < bound)"
        using True by (metis Suc_leD Suc_lessI)
    qed
    moreover have "await_loop since look bound k = Some (b, j)"
      using bj(1) True by (subst await_loop.simps) simp
    ultimately show ?thesis by blast
  next
    case False
    show ?thesis
    proof (cases "since k < bound")
      case True
      then have "\<exists>m > k. look m = closed_look \<and> (\<forall>j. k \<le> j \<and> j < m \<longrightarrow> since j < bound)"
        using False by (intro exI [of _ "Suc k"]) (auto simp: le_less_Suc_eq)
      then show ?thesis using True False by (subst await_loop.simps) auto
    next
      case late: False
      then have "\<not> (\<exists>m > k. look m = closed_look \<and> (\<forall>j. k \<le> j \<and> j < m \<longrightarrow> since j < bound))" by blast
      then show ?thesis using late by (subst await_loop.simps) auto
    qed
  qed
qed

lemma since_grows: "(\<And>k. since k + poll \<le> since (Suc k)) \<Longrightarrow> 0 \<le> since 0 \<Longrightarrow> int k * poll \<le> since k" for poll :: int
proof (induction k)
  case (Suc k)
  then have "int k * poll + poll \<le> since (Suc k)" by (smt (verit))
  then show ?case by (simp add: algebra_simps)
qed simp

text \<open>
  C38. The wait of a failed backup for its writers always ends, when its clock advances by the poll between
  two looks, and says exactly what it saw: the staging may be removed iff one of the looks that the bound
  allows, the first included, found that no process holds a file in it and nothing hid a holder.
\<close>

theorem awaitStagingWriters_ends_with_what_it_saw:
  assumes "0 < poll" "0 \<le> since 0" "\<And>k. since k + poll \<le> since (Suc k)"
  shows "\<exists>r. awaitStagingWriters dt bound0 since look dir = Some r \<and>
    (r = None \<longleftrightarrow> (\<exists>m. look m = ([], None) \<and>
       (\<forall>j < m. since j < (if bound0 \<le> 0 then stagingWriterBound else bound0))))"
proof -
  let ?b = "if bound0 \<le> 0 then stagingWriterBound else bound0"
  have "?b \<le> since (nat ?b)"
  proof (cases "?b \<le> 0")
    case True
    then show ?thesis using assms(2) by simp
  next
    case False
    then have "?b \<le> int (nat ?b) * poll" using assms(1) by (smt (verit) int_nat_eq mult_le_cancel_left1)
    then show ?thesis using since_grows [of since poll "nat ?b", OF assms(3,2)] by linarith
  qed
  then obtain b j where bj: "await_loop since look ?b 0 = Some (b, j)"
    "b \<longleftrightarrow> (\<exists>m > 0. look m = ([], None) \<and> (\<forall>j. 0 \<le> j \<and> j < m \<longrightarrow> since j < ?b))"
    using await_loop_ends [of ?b since _ 0 look] by blast
  show ?thesis
  proof (cases "look 0 = ([], None)")
    case True
    then show ?thesis by (auto simp: awaitStagingWriters_def intro!: exI [of _ 0])
  next
    case False
    then have "b \<longleftrightarrow> (\<exists>m. look m = ([], None) \<and> (\<forall>j < m. since j < ?b))" unfolding bj(2) by (metis bot_nat_0.not_eq_extremum zero_le)
    then show ?thesis using False bj(1) by (auto simp: awaitStagingWriters_def Let_def split: bool.splits)
  qed
qed

theorem awaitStagingWriters_ends_with_what_it_saw_witness:
  "\<exists>r. awaitStagingWriters (\<lambda>_. ''30s'') 0 (\<lambda>k. int k * stagingWriterPoll) (\<lambda>k. if k < 3 then ([''7 cub_server f''], None) else ([], None)) ''d'' = Some r \<and> r = None"
proof -
  let ?look = "\<lambda>k. if k < (3::nat) then ([''7 cub_server f''], None) else ([], None :: string option)"
  have "\<exists>m. ?look m = ([], None) \<and> (\<forall>j < m. int j * stagingWriterPoll < stagingWriterBound)"
    by (intro exI [of _ 3]) (auto simp: stagingWriterPoll_def stagingWriterBound_def)
  then show ?thesis
    using awaitStagingWriters_ends_with_what_it_saw [of stagingWriterPoll "\<lambda>k. int k * stagingWriterPoll" "\<lambda>_. ''30s''" 0 ?look "''d''"]
    by (simp add: stagingWriterPoll_def algebra_simps)
qed

end
