(* ===== verification/BackupRun.thy ===== *)
theory BackupRun
  imports Artifact Staging Lifecycle
begin

section \<open>Running a backup\<close>

text \<open>
  \<^verbatim>\<open>runBackup\<close> of \<^verbatim>\<open>internal/instancemanager/server.go\<close> with the checks it makes on the way: the goroutine that
  takes an operation recorded by \<open>recordBackup\<close> to its end. It puts together the operation store, the staging
  directories, \<^verbatim>\<open>cubrid backupdb\<close> and the upload. What is read from outside while it runs is one record,
  \<open>backup_world\<close>; what it does is the list of its events, in order, and the store it leaves.
\<close>

subsection \<open>Readings of the role\<close>

definition backupRoleBound :: time where
  "backupRoleBound = 30 * 1000000000"

definition backupRolePoll :: time where
  "backupRolePoll = 1000000000"

text \<open>\<^verbatim>\<open>Duration.Round(time.Millisecond)\<close> of a duration that is not negative.\<close>

definition round_ms :: "time \<Rightarrow> time" where
  "round_ms d = (let r = d mod 1000000 in if r + r < 1000000 then d - r else d + 1000000 - r)"

text \<open>The readings of a wait for a role: the \<open>k\<close>-th reading, the time since the start after the pause that
  follows it, and the error of the context then.\<close>

record role_wait =
  rw_reading :: "nat \<Rightarrow> HAStatus"
  rw_since :: "nat \<Rightarrow> time"
  rw_ended :: "nat \<Rightarrow> string option"

definition why_text :: "HAStatus \<Rightarrow> string" where
  "why_text st = (if hs_Reason st \<noteq> [] then '' ('' @ hs_Reason st @ '')'' else [])"

definition role_claims_nothing :: "CubridRole \<Rightarrow> bool" where
  "role_claims_nothing want \<longleftrightarrow> want = RoleOther [] \<or> want = RoleUnknown"

partial_function (option) role_loop ::
  "(time \<Rightarrow> string) \<Rightarrow> time \<Rightarrow> role_wait \<Rightarrow> CubridRole \<Rightarrow> nat \<Rightarrow> (CubridRole \<times> string option) option" where
  "role_loop duration_text bound w want k =
     (let st = rw_reading w k in
      if role_claims_nothing want \<or> hs_Role st = want then Some (hs_Role st, None)
      else let waited = round_ms (rw_since w k) in
           case rw_ended w k of
             Some e \<Rightarrow>
               Some (hs_Role st, Some (''the wait for that role ended after '' @ duration_text waited @ '' ('' @ e @ ''); it last reported '' @
                                       role_string (hs_Role st) @ why_text st))
           | None \<Rightarrow>
               if waited \<ge> bound
               then Some (hs_Role st, Some (''it reports '' @ role_string (hs_Role st) @ '' after '' @ duration_text waited @ why_text st))
               else role_loop duration_text bound w want (Suc k))"

definition backupSourceRole ::
  "(time \<Rightarrow> string) \<Rightarrow> time \<Rightarrow> role_wait \<Rightarrow> CubridRole \<Rightarrow> (CubridRole \<times> string option) option" where
  "backupSourceRole duration_text bound0 w want =
     role_loop duration_text (if bound0 \<le> 0 then backupRoleBound else bound0) w want 0"

definition requestedRole :: "BackupRequest \<Rightarrow> CubridRole" where
  "requestedRole req = (case br_Upload req of None \<Rightarrow> RoleOther [] | Some up \<Rightarrow> role_of_string (up_SourceRole up))"

subsection \<open>The engine\<close>

definition backupEngineVersion :: "(rune \<Rightarrow> bool) \<Rightarrow> string \<Rightarrow> BackupRequest \<Rightarrow> string + string" where
  "backupEngineVersion printable engine req =
     (if engine = [] then Inl ''the engine version of this member could not be read from cubrid_rel''
      else let declared = (case br_Upload req of None \<Rightarrow> [] | Some up \<Rightarrow> up_CubridVersion up);
               series = EngineSeries engine
           in if series = [] then Inl (''the engine version '' @ quote printable engine @ '' that cubrid_rel gives has no series'')
              else if series \<noteq> EngineSeries declared
              then Inl (''this member runs engine '' @ engine @ '', which is not of the declared version '' @ quote printable declared)
              else Inr engine)"

subsection \<open>The run\<close>

definition state_string :: "OperationState \<Rightarrow> string" where
  "state_string st =
     (case st of OpPending \<Rightarrow> ''Pending'' | OpRunningBackup \<Rightarrow> ''RunningBackup'' | OpUploading \<Rightarrow> ''Uploading''
      | OpDownloading \<Rightarrow> ''Downloading'' | OpRestoring \<Rightarrow> ''Restoring'' | OpCreating \<Rightarrow> ''Creating'' | OpStarting \<Rightarrow> ''Starting''
      | OpCompleted \<Rightarrow> ''Completed'' | OpCleaningUp \<Rightarrow> ''CleaningUp'' | OpFailed \<Rightarrow> ''Failed'' | StateOther s \<Rightarrow> s)"

definition notRecorded :: "OperationState \<Rightarrow> string \<Rightarrow> string" where
  "notRecorded state err = ''could not record the state '' @ state_string state @ '', so the operation went no further: '' @ err"

text \<open>What the upload of one backup meets.\<close>

record upload_io =
  ui_random :: "string + nat list"
  ui_walked :: "string + (string \<times> file_type) list"
  ui_open_error :: "string option"
  ui_files :: "string \<Rightarrow> file_io"
  ui_manifest_put :: "bool \<times> string option"

record backup_world =
  bw_engine :: string
  bw_role :: role_wait
  bw_role_after :: role_wait
  bw_faults :: faults
  bw_cli :: cli
  bw_objects :: bool
  bw_upload :: upload_io
  bw_since :: "nat \<Rightarrow> time"
  bw_look :: "nat \<Rightarrow> string list \<times> string option"
  bw_life :: life
  bw_now :: string

text \<open>What does not change: the texts of runes, durations and errors, the hash, the encoding of a manifest,
  the staging root and the bounds.\<close>

record backup_setting =
  bs_printable :: "rune \<Rightarrow> bool"
  bs_duration_text :: "time \<Rightarrow> string"
  bs_store_text :: "store_error \<Rightarrow> string"
  bs_sha :: "string \<Rightarrow> string"
  bs_encode :: "BackupManifest \<Rightarrow> string"
  bs_root :: string
  bs_roleBound :: time
  bs_writerBound :: time

datatype run_event =
    Tree tree_action
  | Ran "string list"
  | Kept string string
  | Ended OperationState

definition fail_backup ::
  "backup_setting \<Rightarrow> io \<Rightarrow> backup_world \<Rightarrow> string \<Rightarrow> BackupRequest \<Rightarrow> string \<Rightarrow> run_event list \<Rightarrow> store \<Rightarrow> (run_event list \<times> store) option" where
  "fail_backup B env W i req reason evs s =
     (case awaitStagingWriters (bs_duration_text B) (bs_writerBound B) (bw_since W) (bw_look W) (br_Destination req) of
        None \<Rightarrow> None
      | Some held \<Rightarrow>
          let reason' = stoppingReason (bw_life W) reason @ (case held of Some e \<Rightarrow> ''; '' @ e | None \<Rightarrow> []);
              removed = (case held of Some _ \<Rightarrow> [] | None \<Rightarrow> map Tree (removeBackupStaging (bw_faults W) (bs_root B) (br_Destination req)))
          in Some (evs @ removed @ [Ended OpFailed],
                   snd (Settle env i (\<lambda>op. op\<lparr>op_State := OpFailed, op_FailureReason := reason'\<rparr>) s)))"

definition backup_manifest :: "backup_world \<Rightarrow> string \<Rightarrow> BackupRequest \<Rightarrow> BackupUpload \<Rightarrow> string \<Rightarrow> CubridRole \<Rightarrow> BackupManifest" where
  "backup_manifest W i req up engine role =
     \<lparr>bm_ManifestVersion = 0, bm_Database = br_Database req, bm_ClusterUID = up_ClusterUID up, bm_CubridVersion = engine,
      bm_Level = br_Level req, bm_SourceInstance = up_SourceInstance up, bm_SourceRole = role_string role,
      bm_CreatedAt = bw_now W, bm_OperationID = i, bm_Objects = []\<rparr>"

definition upload_spec :: "backup_world \<Rightarrow> string \<Rightarrow> BackupRequest \<Rightarrow> BackupUpload \<Rightarrow> string \<Rightarrow> CubridRole \<Rightarrow> UploadSpec" where
  "upload_spec W i req up engine role =
     \<lparr>sp_StagingDir = br_Destination req, sp_Bucket = up_Bucket up, sp_Prefix = up_Prefix up,
      sp_Manifest = backup_manifest W i req up engine role, sp_Seed = up_Seed up\<rparr>"

definition do_upload :: "backup_setting \<Rightarrow> backup_world \<Rightarrow> UploadSpec \<Rightarrow> (string + UploadResult) \<times> (string \<times> string) list" where
  "do_upload B W spec =
     UploadBackup (bs_sha B) (bs_encode B) (ui_random (bw_upload W)) (ui_walked (bw_upload W)) (ui_open_error (bw_upload W))
       (ui_files (bw_upload W)) (ui_manifest_put (bw_upload W)) spec"

text \<open>The second reading of the role: why the backup is not uploaded.\<close>

definition role_after :: "backup_setting \<Rightarrow> backup_world \<Rightarrow> BackupUpload \<Rightarrow> CubridRole \<Rightarrow> string option option" where
  "role_after B W up role =
     (if role = RoleMaster \<or> up_Seed up
      then (case backupSourceRole (bs_duration_text B) (bs_roleBound B) (bw_role_after W) role of
              None \<Rightarrow> None
            | Some (_, None) \<Rightarrow> Some None
            | Some (after, Some e) \<Rightarrow>
                Some (Some (''backup not uploaded: this member was observed '' @ role_string role @ '' at start, '' @
                            role_string after @ '' after backupdb; '' @ e)))
      else Some None)"

definition upload_and_end ::
  "backup_setting \<Rightarrow> io \<Rightarrow> backup_world \<Rightarrow> string \<Rightarrow> BackupRequest \<Rightarrow> BackupUpload \<Rightarrow> string \<Rightarrow> CubridRole \<Rightarrow> run_event list \<Rightarrow> store \<Rightarrow>
     (run_event list \<times> store) option" where
  "upload_and_end B env W i req up engine role evs s =
     (case Update env i (\<lambda>op. op\<lparr>op_State := OpUploading\<rparr>) s of
        (Inl e, s') \<Rightarrow> fail_backup B env W i req (notRecorded OpUploading (bs_store_text B e)) evs s'
      | (Inr _, s') \<Rightarrow>
          (case do_upload B W (upload_spec W i req up engine role) of
             (Inl e, kept) \<Rightarrow> fail_backup B env W i req (''upload failed: '' @ e) (evs @ map (\<lambda>(k, c). Kept k c) kept) s'
           | (Inr res, kept) \<Rightarrow>
               Some (evs @ map (\<lambda>(k, c). Kept k c) kept @
                     map Tree (removeBackupStaging (bw_faults W) (bs_root B) (br_Destination req)) @ [Ended OpCompleted],
                     snd (Settle env i
                            (\<lambda>op. op\<lparr>op_State := OpCompleted,
                                     op_Artifact := Some \<lparr>art_ManifestURI = ur_ManifestURI res, art_ManifestDigest = ur_ManifestDigest res,
                                       art_SizeBytes = ur_SizeBytes res, art_Database = br_Database req, art_CubridVersion = engine,
                                       art_Level = br_Level req\<rparr>\<rparr>) s'))))"

definition runBackup ::
  "backup_setting \<Rightarrow> io \<Rightarrow> backup_world \<Rightarrow> string \<Rightarrow> BackupRequest \<Rightarrow> store \<Rightarrow> (run_event list \<times> store) option" where
  "runBackup B env W i req s =
     (case Update env i (\<lambda>op. op\<lparr>op_State := OpRunningBackup\<rparr>) s of
        (Inl e, s') \<Rightarrow> fail_backup B env W i req (notRecorded OpRunningBackup (bs_store_text B e)) [] s'
      | (Inr _, s') \<Rightarrow>
          (case backupEngineVersion (bs_printable B) (bw_engine W) req of
             Inl e \<Rightarrow> fail_backup B env W i req (''backup refused: '' @ e) [] s'
           | Inr engine \<Rightarrow>
               let want = requestedRole req in
               case backupSourceRole (bs_duration_text B) (bs_roleBound B) (bw_role W) want of
                 None \<Rightarrow> None
               | Some (role, Some e) \<Rightarrow>
                   fail_backup B env W i req
                     (''backup refused: the request names this member as '' @ role_string want @ '', but '' @ e) [] s'
               | Some (role, None) \<Rightarrow>
                   (case createBackupStaging (bw_faults W) (bs_root B) (br_Destination req) of
                      (Some e, acts) \<Rightarrow> fail_backup B env W i req e (map Tree acts) s'
                    | (None, acts) \<Rightarrow>
                        (case Backup (bw_cli W) req of
                           (Inl e, cmds) \<Rightarrow>
                             fail_backup B env W i req (''backupdb failed: '' @ e) (map Tree acts @ map Ran cmds) s'
                         | (Inr _, cmds) \<Rightarrow>
                             let evs = map Tree acts @ map Ran cmds in
                             (case (if bw_objects W then br_Upload req else None) of
                                None \<Rightarrow>
                                  fail_backup B env W i req ''backupdb succeeded but no object-storage destination is configured'' evs s'
                              | Some up \<Rightarrow>
                                  (case role_after B W up role of
                                     None \<Rightarrow> None
                                   | Some (Some e) \<Rightarrow> fail_backup B env W i req e evs s'
                                   | Some None \<Rightarrow> upload_and_end B env W i req up engine role evs s'))))))"

subsection \<open>Progress and end of a running operation\<close>

text \<open>A change that ends no operation.\<close>

definition keeps_running :: "(Operation \<Rightarrow> Operation) \<Rightarrow> bool" where
  "keeps_running m \<longleftrightarrow> (\<forall>op. same_identity op (m op) \<and> (\<not> op_terminal op \<longrightarrow> \<not> op_terminal (m op)))"

lemma Update_runs:
  assumes run: "runs_op s i" and m: "keeps_running m" and u: "Update env i m s = (r, s')"
  shows "runs_op s' i"
proof -
  obtain a s1 where a: "readLocked env i s = (a, s1)" by fastforce
  have post: "read_post i s a s1" by (rule readLocked_post [OF a])
  then have run1: "runs_op s1 i" using runs_op_quiet [OF _ run] by (simp add: read_post_def)
  show ?thesis
  proof (cases a)
    case (Inl e)
    then show ?thesis using u a run1 by (simp add: Update_def updateLocked_def)
  next
    case (Inr op)
    let ?op = "(m op)\<lparr>op_UpdatedAt := io_now (outcome env s1)\<rparr>"
    obtain w s2 where w: "writeLocked env ?op s1 = (w, s2)" by fastforce
    have s': "s' = s2" using u a Inr w by (auto simp: Update_def updateLocked_def Let_def split: option.splits)
    have rec: "recorded s1 i op" "op_ID op = i" using post Inr by (auto simp: read_post_def)
    have live: "\<not> op_terminal op" using run1 rec by (auto simp: runs_op_def live_def)
    have op': "op_ID ?op = i" "op_evolves op ?op" "\<not> op_terminal ?op"
      using m rec live by (auto simp: keeps_running_def op_evolves_def same_identity_def)
    have ev: "evolves s1 s2" using writeLocked_evolves [OF w, of op] rec op' by simp
    have mem: "kept_end s2 = kept_end s1" "interrupted s2 = interrupted s1"
      using same_memory_simps [OF writeLocked_effect(1) [OF w]] by auto
    have "store_ok s2" using store_ok_evolves [OF _ ev] run1 mem by (auto simp: runs_op_def store_ok_def)
    moreover have "OpStoreSafety.live s2 i" using writeLocked_file(3) [OF w] op' rec live by (auto simp: live_def)
    ultimately show ?thesis using run1 mem s' by (simp add: runs_op_def)
  qed
qed

text \<open>An operation that was settled is over: its record says so, or its end is kept to be written.\<close>

definition over :: "store \<Rightarrow> string \<Rightarrow> bool" where
  "over s i \<longleftrightarrow> \<not> OpStoreSafety.live s i \<or> kept_end s i \<noteq> None"

lemma Settle_over:
  assumes "store_ok s" "is_end m"
  shows "store_ok (snd (Settle env i m s))" "over (snd (Settle env i m s)) i"
proof -
  let ?s = "s\<lparr>st_unsettled := AList.update i m (st_unsettled s)\<rparr>"
  obtain r s' where r: "settleLocked env i ?s = (r, s')" by fastforce
  have kept: "kept_end ?s j = (if j = i then Some m else kept_end s j)" for j
    by (simp add: kept_end_def update_conv')
  have same: "file_at ?s = file_at s" "st_dir ?s = st_dir s" by (auto simp: file_at_def fun_eq_iff)
  have ok: "store_ok ?s"
    unfolding store_ok_def using assms kept same by (auto simp: store_ok_def split: if_splits)
  have q: "quiet ?s s'" using settleLocked_post [OF r ok] by simp
  have s': "snd (Settle env i m s) = s'" using r by (simp add: Settle_def)
  show "store_ok (snd (Settle env i m s))" unfolding s' by (rule store_ok_quiet [OF ok q])
  show "over (snd (Settle env i m s)) i" unfolding s' using quiet_kept_end [OF q, of i] kept [of i] by (auto simp: over_def)
qed

lemma progress_state: "\<not> IsTerminal st \<Longrightarrow> keeps_running (\<lambda>op. op\<lparr>op_State := st\<rparr>)"
  by (simp add: keeps_running_def same_identity_def)

lemma end_failed: "is_end (\<lambda>op. op\<lparr>op_State := OpFailed, op_FailureReason := reason\<rparr>)"
  by (simp add: is_end_def same_identity_def)

lemma end_completed: "is_end (\<lambda>op. op\<lparr>op_State := OpCompleted, op_Artifact := art\<rparr>)"
  by (simp add: is_end_def same_identity_def)

subsection \<open>The waits end\<close>

text \<open>A clock that gains at least a fixed time between two looks.\<close>

definition advances :: "(nat \<Rightarrow> time) \<Rightarrow> bool" where
  "advances since \<longleftrightarrow> 0 \<le> since 0 \<and> (\<exists>poll > 0. \<forall>k. since k + poll \<le> since (Suc k))"

lemma advances_passes:
  assumes "advances since"
  shows "\<exists>K. b \<le> since K"
proof -
  obtain poll where poll: "0 < poll" "\<And>k. since k + poll \<le> since (Suc k)" and z: "0 \<le> since 0"
    using assms by (auto simp: advances_def)
  have "b \<le> int (nat b) * poll \<or> b \<le> 0" using poll(1) by (smt (verit) int_nat_eq mult_le_cancel_left1)
  then show ?thesis using since_grows [of since poll "nat b", OF poll(2) z] z by (metis order_trans)
qed

lemma await_returns:
  assumes "advances since"
  shows "\<exists>r. awaitStagingWriters dt bound since look dir = Some r"
proof -
  let ?b = "if bound \<le> 0 then stagingWriterBound else bound"
  obtain K where "?b \<le> since K" using advances_passes [OF assms] by blast
  then obtain b j where "await_loop since look ?b 0 = Some (b, j)" using await_loop_ends [of ?b since K 0 look] by blast
  then show ?thesis by (cases "look 0 = ([], None)") (auto simp: awaitStagingWriters_def Let_def split: bool.splits)
qed

lemma round_ms_ge: "d - 1000000 \<le> round_ms d"
  unfolding round_ms_def Let_def using pos_mod_bound [of 1000000 d] pos_mod_sign [of 1000000 d] by (auto simp: not_less)

lemma role_loop_ends:
  assumes "bound \<le> round_ms (rw_since w K)" "k \<le> K"
  shows "\<exists>r. role_loop dt bound w want k = Some r"
  using assms(2)
proof (induction "K - k" arbitrary: k)
  case 0
  then show ?case using assms(1) by (subst role_loop.simps) (auto simp: Let_def split: option.splits)
next
  case (Suc n)
  then have "\<exists>r. role_loop dt bound w want (Suc k) = Some r" by auto
  then show ?case by (subst role_loop.simps) (auto simp: Let_def split: option.splits)
qed

lemma role_returns:
  assumes "advances (rw_since w)"
  shows "\<exists>role err. backupSourceRole dt bound w want = Some (role, err)"
proof -
  let ?b = "if bound \<le> 0 then backupRoleBound else bound"
  obtain K where "?b + 1000000 \<le> rw_since w K" using advances_passes [OF assms] by blast
  then have "?b \<le> round_ms (rw_since w K)" using round_ms_ge [of "rw_since w K"] by linarith
  then show ?thesis using role_loop_ends [of ?b w K 0] by (auto simp: backupSourceRole_def)
qed

lemma role_loop_role:
  assumes "role_loop dt bound w want k = Some (role, None)"
  shows "(role_claims_nothing want \<or> role = want) \<and> (\<exists>j \<ge> k. role = hs_Role (rw_reading w j))"
proof -
  let ?P = "\<lambda>dt bound w want k r. snd r = None \<longrightarrow>
    (role_claims_nothing want \<or> fst r = want) \<and> (\<exists>j \<ge> k. fst r = hs_Role (rw_reading w j))"
  have "?P dt bound w want k (role, None :: string option)"
  proof (rule role_loop.raw_induct [where P = ?P, OF _ assms])
    fix f dt bound w want k r
    assume IH: "\<And>dt bound w want k r. f dt bound w want k = Some r \<Longrightarrow> ?P dt bound w want k r"
      and body: "(let st = rw_reading w k in
        if role_claims_nothing want \<or> hs_Role st = want then Some (hs_Role st, None)
        else let waited = round_ms (rw_since w k) in
             case rw_ended w k of
               Some e \<Rightarrow> Some (hs_Role st, Some (''the wait for that role ended after '' @ dt waited @ '' ('' @ e @ ''); it last reported '' @
                                       role_string (hs_Role st) @ why_text st))
             | None \<Rightarrow> if waited \<ge> bound
                 then Some (hs_Role st, Some (''it reports '' @ role_string (hs_Role st) @ '' after '' @ dt waited @ why_text st))
                 else f dt bound w want (Suc k)) = Some r"
    show "?P dt bound w want k r"
    proof (cases "f dt bound w want (Suc k) = Some r")
      case True
      then show ?thesis using IH [of dt bound w want "Suc k" r] Suc_leD by blast
    next
      case False
      then show ?thesis using body by (auto simp: Let_def split: if_splits option.splits)
    qed
  qed
  then show ?thesis by simp
qed

subsection \<open>What a run does\<close>

text \<open>A run, step by step in order: it makes the staging directory, runs \<^verbatim>\<open>backupdb\<close>, sends objects, removes the
  staging directory and ends.\<close>

definition run_shape :: "tree_action list \<Rightarrow> string list list \<Rightarrow> (string \<times> string) list \<Rightarrow> tree_action list \<Rightarrow> OperationState \<Rightarrow> run_event list" where
  "run_shape made cmds kept removed st =
     map Tree made @ map Ran cmds @ map (\<lambda>(k, c). Kept k c) kept @ map Tree removed @ [Ended st]"

lemma fail_backup_cases:
  assumes "fail_backup B env W i req reason evs s = Some (evs', s')"
  obtains held reason' removed where
    "awaitStagingWriters (bs_duration_text B) (bs_writerBound B) (bw_since W) (bw_look W) (br_Destination req) = Some held"
    "evs' = evs @ map Tree removed @ [Ended OpFailed]"
    "removed = (if held = None then removeBackupStaging (bw_faults W) (bs_root B) (br_Destination req) else [])"
    "s' = snd (Settle env i (\<lambda>op. op\<lparr>op_State := OpFailed, op_FailureReason := reason'\<rparr>) s)"
  using assms by (auto simp: fail_backup_def Let_def split: option.splits)

lemma fail_backup_over:
  assumes "store_ok s" "fail_backup B env W i req reason evs s = Some (evs', s')"
  shows "store_ok s' \<and> over s' i \<and> (\<exists>evs''. evs' = evs'' @ [Ended OpFailed])"
  using assms(2)
proof (rule fail_backup_cases)
  fix held reason' removed
  assume "evs' = evs @ map Tree removed @ [Ended OpFailed]"
    and "s' = snd (Settle env i (\<lambda>op. op\<lparr>op_State := OpFailed, op_FailureReason := reason'\<rparr>) s)"
  then show ?thesis using Settle_over [OF assms(1) end_failed] by auto
qed

lemma fail_backup_returns:
  assumes "advances (bw_since W)"
  shows "\<exists>evs' s'. fail_backup B env W i req reason evs s = Some (evs', s')"
  using await_returns [OF assms, of "bs_duration_text B" "bs_writerBound B" "bw_look W" "br_Destination req"]
  by (auto simp: fail_backup_def Let_def)

text \<open>A result of a run: one of the two ends, on a store in which the operation is over.\<close>

definition ends_run :: "string \<Rightarrow> (run_event list \<times> store) option \<Rightarrow> bool" where
  "ends_run i r \<longleftrightarrow>
     (\<exists>evs s' st. r = Some (evs @ [Ended st], s') \<and> st \<in> {OpCompleted, OpFailed} \<and> store_ok s' \<and> over s' i)"

lemma fail_backup_ends:
  assumes "advances (bw_since W)" "store_ok s"
  shows "ends_run i (fail_backup B env W i req reason evs s)"
  using fail_backup_returns [OF assms(1), of B env i req reason evs s] fail_backup_over [OF assms(2), of B env W i req reason evs]
  by (fastforce simp: ends_run_def)

lemma upload_and_end_ends:
  assumes "advances (bw_since W)" "runs_op s i"
  shows "ends_run i (upload_and_end B env W i req up engine role evs s)"
proof -
  obtain r s' where u: "Update env i (\<lambda>op. op\<lparr>op_State := OpUploading\<rparr>) s = (r, s')" by fastforce
  have ok: "store_ok s'" using Update_runs [OF assms(2) progress_state u] by (simp add: runs_op_def)
  obtain x kept where x: "do_upload B W (upload_spec W i req up engine role) = (x, kept)" by fastforce
  show ?thesis
  proof (cases r)
    case (Inl e)
    then show ?thesis using u fail_backup_ends [OF assms(1) ok] by (simp add: upload_and_end_def)
  next
    case (Inr op)
    then show ?thesis using u x fail_backup_ends [OF assms(1) ok] Settle_over [OF ok end_completed]
      by (cases x) (auto simp: upload_and_end_def ends_run_def)
  qed
qed

lemma runBackup_ends:
  assumes "runs_op s i" "advances (bw_since W)" "advances (rw_since (bw_role W))" "advances (rw_since (bw_role_after W))"
  shows "ends_run i (runBackup B env W i req s)"
proof -
  obtain r s1 where u: "Update env i (\<lambda>op. op\<lparr>op_State := OpRunningBackup\<rparr>) s = (r, s1)" by fastforce
  have run: "runs_op s1 i" by (rule Update_runs [OF assms(1) progress_state u]) simp
  then have ok: "store_ok s1" by (simp add: runs_op_def)
  note fails = fail_backup_ends [OF assms(2) ok, of i B env req]
  obtain role err where role: "backupSourceRole (bs_duration_text B) (bs_roleBound B) (bw_role W) (requestedRole req) = Some (role, err)"
    using role_returns [OF assms(3)] by blast
  have after: "role_after B W up role' \<noteq> None" for up role'
    using role_returns [OF assms(4), of "bs_duration_text B" "bs_roleBound B" role']
    by (auto simp: role_after_def split: option.splits)
  show ?thesis
    using u role fails upload_and_end_ends [OF assms(2) run]
    unfolding runBackup_def
    by (auto simp: Let_def after split: sum.splits option.splits prod.splits)
qed

text \<open>
  C40. A backup that runs ends. When the clocks of its waits advance, the run returns whatever the store, the
  disk, the commands, the role and the object store answer: its last event is the end of the operation,
  completed or failed, and after it the operation is over in the store: no record says that it runs, or its
  end is kept and written later.
\<close>

theorem a_backup_that_runs_ends:
  assumes "runs_op s i" "advances (bw_since W)" "advances (rw_since (bw_role W))" "advances (rw_since (bw_role_after W))"
  shows "\<exists>evs s' st. runBackup B env W i req s = Some (evs @ [Ended st], s') \<and> st \<in> {OpCompleted, OpFailed} \<and> store_ok s' \<and> over s' i"
  using runBackup_ends [OF assms] by (simp add: ends_run_def)

lemma await_loop_closed:
  assumes "await_loop since look bound k = Some (True, j)"
  shows "look j = ([], None)"
proof -
  let ?P = "\<lambda>since look (bound :: time) (k :: nat) r. fst r \<longrightarrow> look (snd r) = ([], None)"
  have "?P since look bound k (True, j)"
  proof (rule await_loop.raw_induct [where P = ?P, OF _ assms])
    fix f and since :: "nat \<Rightarrow> time" and look :: "nat \<Rightarrow> string list \<times> string option" and bound :: time and k :: nat and r
    assume IH: "\<And>(since :: nat \<Rightarrow> time) look (bound :: time) (k :: nat) r. f since look bound k = Some r \<Longrightarrow> ?P since look bound k r"
      and "(if since k < bound
        then if look (Suc k) = ([], None) then Some (True, Suc k) else f since look bound (Suc k)
        else Some (False, k)) = Some r"
    then show "?P since look bound k r" using IH [of since look bound "Suc k" r] by (auto split: if_splits)
  qed
  then show ?thesis by simp
qed

lemma await_closed:
  assumes "awaitStagingWriters dt bound since look dir = Some None"
  shows "\<exists>m. look m = ([], None)"
proof (cases "look 0 = ([], None)")
  case False
  then obtain b j where "await_loop since look b 0 = Some (True, j)"
    using assms by (auto simp: awaitStagingWriters_def Let_def split: option.splits bool.splits)
  then show ?thesis using await_loop_closed by blast
qed auto

lemma fail_backup_shape:
  assumes "fail_backup B env W i req reason evs s = Some (evs', s')"
  shows "\<exists>removed. evs' = evs @ map Tree removed @ [Ended OpFailed] \<and> (removed \<noteq> [] \<longrightarrow> (\<exists>m. bw_look W m = ([], None)))"
  using assms by (rule fail_backup_cases) (use await_closed in fastforce)

lemma Backup_commands:
  assumes "Backup cli req = (Inr out, cmds)"
  shows "\<exists>cmd. cmds = [cmd] \<and> take 4 cmd = [''cubrid'', ''backupdb'', ''-D'', br_Destination req] \<and> snd (cli cmd) = None"
  using assms by (auto simp: Backup_def Let_def split: if_splits prod.splits option.splits)

text \<open>What holds once the upload begins.\<close>

definition ready_to_upload :: "backup_setting \<Rightarrow> backup_world \<Rightarrow> BackupRequest \<Rightarrow> BackupUpload \<Rightarrow> string \<Rightarrow> CubridRole \<Rightarrow> string list list \<Rightarrow> bool" where
  "ready_to_upload B W req up engine role cmds \<longleftrightarrow>
     br_Upload req = Some up \<and> bw_objects W \<and>
     (\<exists>cmd. cmds = [cmd] \<and> take 4 cmd = [''cubrid'', ''backupdb'', ''-D'', br_Destination req] \<and> snd (bw_cli W cmd) = None) \<and>
     engine = bw_engine W \<and> EngineSeries engine = EngineSeries (up_CubridVersion up) \<and> EngineSeries engine \<noteq> [] \<and>
     (\<exists>k. role = hs_Role (rw_reading (bw_role W) k)) \<and>
     (role_claims_nothing (requestedRole req) \<or> role = requestedRole req) \<and>
     (role = RoleMaster \<or> up_Seed up \<longrightarrow>
        role_claims_nothing role \<or> (\<exists>k. hs_Role (rw_reading (bw_role_after W) k) = role))"

lemma engine_ok:
  assumes "backupEngineVersion printable engine req = Inr v" "br_Upload req = Some up"
  shows "v = engine \<and> EngineSeries engine = EngineSeries (up_CubridVersion up) \<and> EngineSeries engine \<noteq> []"
  using assms by (auto simp: backupEngineVersion_def Let_def split: if_splits)

lemma source_role_ok:
  assumes "backupSourceRole dt bound w want = Some (role, None)"
  shows "(role_claims_nothing want \<or> role = want) \<and> (\<exists>k. role = hs_Role (rw_reading w k))"
  using role_loop_role [of dt _ w want 0 role] assms by (auto simp: backupSourceRole_def)

lemma role_after_ok:
  assumes "role_after B W up role = Some None" "role = RoleMaster \<or> up_Seed up"
  shows "role_claims_nothing role \<or> (\<exists>k. hs_Role (rw_reading (bw_role_after W) k) = role)"
  using assms source_role_ok [of "bs_duration_text B" "bs_roleBound B" "bw_role_after W" role]
  by (auto simp: role_after_def split: if_splits option.splits prod.splits)

lemma upload_and_end_shape:
  assumes "upload_and_end B env W i req up engine role evs s = Some (evs', s')"
  shows "\<exists>kept removed st. evs' = evs @ map (\<lambda>(k, c). Kept k c) kept @ map Tree removed @ [Ended st] \<and>
    (kept = [] \<or> kept = snd (do_upload B W (upload_spec W i req up engine role))) \<and>
    (case st of
       OpCompleted \<Rightarrow> \<exists>res. do_upload B W (upload_spec W i req up engine role) = (Inr res, kept)
     | _ \<Rightarrow> st = OpFailed \<and> (removed \<noteq> [] \<longrightarrow> (\<exists>m. bw_look W m = ([], None))))"
proof -
  obtain r t where u: "Update env i (\<lambda>op. op\<lparr>op_State := OpUploading\<rparr>) s = (r, t)" by fastforce
  obtain x kept where x: "do_upload B W (upload_spec W i req up engine role) = (x, kept)" by fastforce
  show ?thesis
  proof (cases r)
    case (Inl e)
    then have "fail_backup B env W i req (notRecorded OpUploading (bs_store_text B e)) evs t = Some (evs', s')"
      using assms u by (simp add: upload_and_end_def)
    from fail_backup_shape [OF this] obtain removed where "evs' = evs @ map Tree removed @ [Ended OpFailed]"
      "removed \<noteq> [] \<longrightarrow> (\<exists>m. bw_look W m = ([], None))" by blast
    then show ?thesis by - (rule exI [of _ "[]"], rule exI [of _ removed], rule exI [of _ OpFailed], simp)
  next
    case r: (Inr op)
    show ?thesis
    proof (cases x)
      case (Inl e)
      then have "fail_backup B env W i req (''upload failed: '' @ e) (evs @ map (\<lambda>(k, c). Kept k c) kept) t = Some (evs', s')"
        using assms u r x by (simp add: upload_and_end_def)
      from fail_backup_shape [OF this] obtain removed
        where "evs' = (evs @ map (\<lambda>(k, c). Kept k c) kept) @ map Tree removed @ [Ended OpFailed]"
          "removed \<noteq> [] \<longrightarrow> (\<exists>m. bw_look W m = ([], None))" by blast
      then show ?thesis using x by - (rule exI [of _ kept], rule exI [of _ removed], rule exI [of _ OpFailed], simp)
    next
      case (Inr res)
      then show ?thesis using assms u r x
        by - (rule exI [of _ kept], rule exI [of _ "removeBackupStaging (bw_faults W) (bs_root B) (br_Destination req)"],
          rule exI [of _ OpCompleted], simp add: upload_and_end_def)
    qed
  qed
qed

definition in_order :: "backup_setting \<Rightarrow> backup_world \<Rightarrow> string \<Rightarrow> BackupRequest \<Rightarrow> run_event list \<Rightarrow> bool" where
  "in_order B W i req evs \<longleftrightarrow>
   (\<exists>made cmds kept removed st. evs = run_shape made cmds kept removed st \<and> length cmds \<le> 1 \<and>
    (kept \<noteq> [] \<or> st = OpCompleted \<longrightarrow>
       (\<exists>up engine role. ready_to_upload B W req up engine role cmds \<and>
          kept = snd (do_upload B W (upload_spec W i req up engine role)) \<and>
          (st = OpCompleted \<longrightarrow> (\<exists>res. fst (do_upload B W (upload_spec W i req up engine role)) = Inr res)))) \<and>
    (st \<noteq> OpCompleted \<longrightarrow> st = OpFailed \<and> (removed \<noteq> [] \<longrightarrow> (\<exists>m. bw_look W m = ([], None)))))"

lemma in_orderI:
  assumes "evs = run_shape made cmds kept removed st" "length cmds \<le> 1"
    and "kept \<noteq> [] \<or> st = OpCompleted \<Longrightarrow> ready_to_upload B W req up engine role cmds \<and>
          kept = snd (do_upload B W (upload_spec W i req up engine role)) \<and>
          (st = OpCompleted \<longrightarrow> (\<exists>res. fst (do_upload B W (upload_spec W i req up engine role)) = Inr res))"
    and "st \<noteq> OpCompleted \<Longrightarrow> st = OpFailed \<and> (removed \<noteq> [] \<longrightarrow> (\<exists>m. bw_look W m = ([], None)))"
  shows "in_order B W i req evs"
  unfolding in_order_def using assms by blast

lemma failed_in_order:
  assumes "fail_backup B env W i req reason (map Tree made @ map Ran cmds) t = Some (evs, s')" "length cmds \<le> 1"
  shows "in_order B W i req evs"
proof -
  from fail_backup_shape [OF assms(1)] obtain removed where
    "evs = (map Tree made @ map Ran cmds) @ map Tree removed @ [Ended OpFailed]"
    "removed \<noteq> [] \<longrightarrow> (\<exists>m. bw_look W m = ([], None))" by blast
  then show ?thesis using assms(2)
    by (intro in_orderI [where made = made and cmds = cmds and kept = "[]" and removed = removed and st = OpFailed])
       (auto simp: run_shape_def)
qed

lemma uploaded_in_order:
  assumes up: "upload_and_end B env W i req up engine role (map Tree made @ map Ran cmds) t = Some (evs, s')"
    and ready: "ready_to_upload B W req up engine role cmds"
  shows "in_order B W i req evs"
proof -
  obtain kept removed st where
    evs: "evs = (map Tree made @ map Ran cmds) @ map (\<lambda>(k, c). Kept k c) kept @ map Tree removed @ [Ended st]"
    and kept: "kept = [] \<or> kept = snd (do_upload B W (upload_spec W i req up engine role))"
    and st: "case st of
       OpCompleted \<Rightarrow> \<exists>res. do_upload B W (upload_spec W i req up engine role) = (Inr res, kept)
     | _ \<Rightarrow> st = OpFailed \<and> (removed \<noteq> [] \<longrightarrow> (\<exists>m. bw_look W m = ([], None)))"
    using upload_and_end_shape [OF up] by blast
  have fin: "kept = snd (do_upload B W (upload_spec W i req up engine role)) \<and>
      (\<exists>res. fst (do_upload B W (upload_spec W i req up engine role)) = Inr res)" if "st = OpCompleted" using st that by auto
  have fail: "st = OpFailed \<and> (removed \<noteq> [] \<longrightarrow> (\<exists>m. bw_look W m = ([], None)))" if "st \<noteq> OpCompleted"
    using st that by (cases st) simp_all
  show ?thesis
  proof (rule in_orderI [where made = made and cmds = cmds and kept = kept and removed = removed and st = st
        and up = up and engine = engine and role = role])
    show "evs = run_shape made cmds kept removed st" using evs by (simp add: run_shape_def)
    show "length cmds \<le> 1" using ready by (auto simp: ready_to_upload_def)
    assume "kept \<noteq> [] \<or> st = OpCompleted"
    then show "ready_to_upload B W req up engine role cmds \<and>
          kept = snd (do_upload B W (upload_spec W i req up engine role)) \<and>
          (st = OpCompleted \<longrightarrow> (\<exists>res. fst (do_upload B W (upload_spec W i req up engine role)) = Inr res))"
      using ready kept fin by blast
  qed (use fail in blast)
qed

lemma ran_in_order:
  assumes "Backup cli req = (r, cmds)" "fail_backup B env W i req reason (map Tree made @ map Ran cmds) t = Some (evs, s')"
  shows "in_order B W i req evs"
  using failed_in_order [OF assms(2)] assms(1) by (auto simp: Backup_def Let_def split: if_splits prod.splits option.splits)

lemmas not_run_in_order = failed_in_order [where cmds = "[]", simplified]

lemma ready_to_uploadI:
  assumes "backupEngineVersion (bs_printable B) (bw_engine W) req = Inr engine"
    and "backupSourceRole (bs_duration_text B) (bs_roleBound B) (bw_role W) (requestedRole req) = Some (role, None)"
    and "Backup (bw_cli W) req = (Inr out, cmds)" "bw_objects W" "br_Upload req = Some up" "role_after B W up role = Some None"
  shows "ready_to_upload B W req up engine role cmds"
  unfolding ready_to_upload_def
  using engine_ok [OF assms(1,5)] source_role_ok [OF assms(2)] Backup_commands [OF assms(3)] role_after_ok [OF assms(6)] assms(4,5)
  by blast


subsection \<open>A run\<close>

declare role_loop.simps [code] await_loop.simps [code]

definition demo_setting :: backup_setting where
  "demo_setting = \<lparr>bs_printable = (\<lambda>_. True), bs_duration_text = (\<lambda>_. ''30s''), bs_store_text = (\<lambda>_. []),
     bs_sha = (\<lambda>c. ''#'' @ c), bs_encode = (\<lambda>m. bm_Database m), bs_root = ''/b'', bs_roleBound = 0, bs_writerBound = 0\<rparr>"

definition demo_wait :: role_wait where
  "demo_wait = \<lparr>rw_reading = (\<lambda>_. no_status), rw_since = (\<lambda>k. int k * backupRolePoll), rw_ended = (\<lambda>_. None)\<rparr>"

definition demo_upload_io :: upload_io where
  "demo_upload_io = \<lparr>ui_random = Inr (replicate 16 7), ui_walked = Inr [(''appdb_bk0v000'', Regular)], ui_open_error = None,
     ui_files = (\<lambda>_. \<lparr>fi_hashed = Inr ''pages'', fi_sent = Inr ''pages'', fi_put = (True, None), fi_stat = Inr 5\<rparr>),
     ui_manifest_put = (True, None)\<rparr>"

definition demo_life :: life where
  "demo_life = \<lparr>lf_stopRequested = False, lf_stopping = False, lf_starting = False, lf_opsEnded = False, lf_stopped = False,
     lf_ops = 1, lf_disruptive = 0, lf_stopFile = []\<rparr>"

definition demo_bworld :: backup_world where
  "demo_bworld = \<lparr>bw_engine = ''11.4.4.1778'', bw_role = demo_wait, bw_role_after = demo_wait, bw_faults = (\<lambda>_. None),
     bw_cli = (\<lambda>_. ([], None)), bw_objects = True, bw_upload = demo_upload_io, bw_since = (\<lambda>k. int k * stagingWriterPoll),
     bw_look = (\<lambda>_. ([], None)), bw_life = demo_life, bw_now = ''2026-01-01T00:00:00Z''\<rparr>"

definition demo_brequest :: BackupRequest where
  "demo_brequest = \<lparr>br_Database = ''appdb'', br_Destination = ''/b/d/'' @ operationID_of (\<lambda>i. i), br_Level = 0,
     br_Upload = Some \<lparr>up_Bucket = ''backups'', up_Prefix = ''c/appdb'', up_ClusterUID = ''c'', up_CubridVersion = ''11.4'',
       up_SourceInstance = ''c-0'', up_SourceRole = ''unknown'', up_Seed = False\<rparr>\<rparr>"

definition demo_brun :: "(run_event list \<times> store) option" where
  "demo_brun = runBackup demo_setting (demo_env 0) demo_bworld (operationID_of (\<lambda>i. i)) demo_brequest (snd demo_first)"

lemma demo_brun_completed: "map_option (\<lambda>(evs, _). last evs) demo_brun = Some (Ended OpCompleted)"
  by code_simp

theorem a_backup_that_runs_ends_witness:
  "\<exists>evs s' st. demo_brun = Some (evs @ [Ended st], s') \<and> st \<in> {OpCompleted, OpFailed} \<and> store_ok s' \<and> over s' (operationID_of (\<lambda>i. i))"
proof -
  have "advances (\<lambda>k. int k * p)" if "0 < p" for p
    using that by (auto simp: advances_def algebra_simps)
  then show ?thesis unfolding demo_brun_def
    by (intro a_backup_that_runs_ends [OF demo_running])
       (auto simp: demo_bworld_def demo_wait_def stagingWriterPoll_def backupRolePoll_def)
qed


end
