(* ===== verification/Observe.thy ===== *)
theory Observe
  imports DbRegistry Heartbeat Lifecycle
begin

section \<open>Reading the member's CUBRID\<close>

text \<open>
  The rest of \<^verbatim>\<open>internal/instancemanager/cli.go\<close> and \<^verbatim>\<open>convergence.go\<close>: one reading of heartbeat, when
  \<^verbatim>\<open>cubrid heartbeat start\<close> may be issued, and what a slave's applier and a master's log report. The answers
  of the commands, the process list and the state of the context are arguments. Running a command
  (\<^verbatim>\<open>ExecCLI\<close>: process groups, signals, temporary files) is not modelled: an answer is its output and, when
  it failed, an error with the two facts the code asks of it.
\<close>

record cmd_error =
  ce_text :: string
  ce_unread :: bool
  ce_exited :: bool

type_synonym cmd_answer = "string \<times> cmd_error option"

definition HeartbeatStatus :: "cmd_answer \<Rightarrow> HAStatus" where
  "HeartbeatStatus answer =
     (case answer of
        (out, Some err) \<Rightarrow> no_status\<lparr>hs_Reason := ''heartbeat status failed: '' @ ce_text err\<rparr>
      | (out, None) \<Rightarrow> ParseHAStatus out)"

subsection \<open>Whether heartbeat may be started\<close>

definition heartbeatReport :: "string \<Rightarrow> bool" where
  "heartbeatReport out \<longleftrightarrow>
     rx_find False True [Lit ''HA-Node Info''] out \<noteq> None \<or>
     rx_find True True [Rep True 0 cls_space, Lit ''Node '', Rep True 1 cls_nonspace, Lit '' (priority''] out \<noteq> None"

definition heartbeatHeader :: "rx_item list" where
  "heartbeatHeader = [Lit ''HA-Node Info (current '', Rep True 1 (\<lambda>c. c \<noteq> CHR '',''), Lit '', state ''] @
     group True 1 (\<lambda>c. c \<noteq> CHR '')'') @ [Lit '')'']"

record heartbeatObservation =
  hb_startable :: bool
  hb_running :: bool
  hb_status :: HAStatus
  hb_reason :: string

definition no_status_zero :: HAStatus where
  "no_status_zero = no_status\<lparr>hs_Role := RoleOther [], hs_Source := []\<rparr>"

definition not_startable :: "string \<Rightarrow> heartbeatObservation" where
  "not_startable reason = \<lparr>hb_startable = False, hb_running = False, hb_status = no_status_zero, hb_reason = reason\<rparr>"

definition heartbeat_startError :: "heartbeatObservation \<Rightarrow> string option" where
  "heartbeat_startError hb =
     (if \<not> hb_startable hb \<and> \<not> hb_running hb then Some (hb_reason hb @ ''; heartbeat start was not issued'')
      else if hb_running hb \<and> hs_Role (hb_status hb) = RoleUnknown
      then Some (hb_reason hb @ '': heartbeat runs without a confirmed role; heartbeat start was not issued'')
      else None)"

definition observeHeartbeat :: "cmd_answer \<Rightarrow> string option \<Rightarrow> heartbeatObservation" where
  "observeHeartbeat answer ctx =
     (case answer of (out, err) \<Rightarrow>
        if heartbeatReport out
        then let st = ParseHAStatus out;
                 reason = (case FindStringSubmatch False heartbeatHeader out of
                             Some m \<Rightarrow> ''heartbeat reports the current node in state '' @ [CHR 0x27] @ m ! 0 @ [CHR 0x27]
                           | None \<Rightarrow> ''heartbeat prints HA node information without a readable state of the current node'')
             in \<lparr>hb_startable = False, hb_running = True, hb_status = st,
                 hb_reason = reason @ (if hs_Role st = RoleUnknown \<and> FindStringSubmatch False reCurrent out \<noteq> None
                                       then '' ('' @ hs_Reason st @ '')'' else [])\<rparr>
        else let answered = (case err of None \<Rightarrow> True | Some e \<Rightarrow> \<not> ce_unread e \<and> ce_exited e)
             in if \<not> answered \<or> ctx \<noteq> None
                then not_startable (''heartbeat status did not answer: '' @ (case err of Some e \<Rightarrow> ce_text e | None \<Rightarrow> the ctx))
                else (not_startable [])\<lparr>hb_startable := True\<rparr>)"

definition heartbeatVeto :: "string list" where
  "heartbeatVeto = [''cub_master'', ''cub_server'', ''cub_pl'']"

text \<open>One round: the answer of heartbeat status, the context's error after it, and the names of the running
  processes or why they cannot be read.\<close>

record round_facts =
  rf_status :: cmd_answer
  rf_ctx :: "string option"
  rf_processes :: "string + string list"

definition observeQuiet :: "round_facts \<Rightarrow> heartbeatObservation" where
  "observeQuiet f =
     (let hb = observeHeartbeat (rf_status f) (rf_ctx f) in
      if \<not> hb_startable hb then hb
      else case rf_processes f of
             Inl e \<Rightarrow> not_startable (''the process list could not be read: '' @ e)
           | Inr running \<Rightarrow>
               (case List.find (\<lambda>name. name \<in> set running) heartbeatVeto of
                  Some name \<Rightarrow> not_startable (''heartbeat status printed no HA node information, but '' @ name @
                                             '' runs: a start or a stop may be under way'')
                | None \<Rightarrow> hb))"

record start_facts =
  sf_first :: round_facts
  sf_wait :: "string option"
  sf_second :: round_facts

definition observeStartable :: "start_facts \<Rightarrow> heartbeatObservation" where
  "observeStartable f =
     (let hb = observeQuiet (sf_first f) in
      if \<not> hb_startable hb then hb
      else case sf_wait f of
             Some e \<Rightarrow> not_startable (''the wait between two heartbeat status calls ended: '' @ e)
           | None \<Rightarrow> observeQuiet (sf_second f))"

subsection \<open>The applier of a slave and the log of a master\<close>

definition ApplyConvergenceStatus :: "cmd_answer \<Rightarrow> ApplyConvergence" where
  "ApplyConvergenceStatus answer =
     (case answer of
        (out, Some err) \<Rightarrow> no_convergence (''applyinfo failed: '' @ ce_text err)
      | (out, None) \<Rightarrow> parseApplyConvergence out)"

definition logEndOf :: "cmd_answer \<Rightarrow> HAStatus \<Rightarrow> string \<Rightarrow> LSA option" where
  "logEndOf answer st database =
     (if hs_Role st \<noteq> RoleMaster \<or> \<not> hs_ServerActive st \<or> database = [] then None
      else case answer of (out, Some _) \<Rightarrow> None | (out, None) \<Rightarrow> parseLogEnd out)"

text \<open>What follows the last closing parenthesis, if there is one.\<close>

definition after_last_paren :: "string \<Rightarrow> string option" where
  "after_last_paren s =
     (if CHR '')'' \<in> set s then Some (rev (takeWhile (\<lambda>c. c \<noteq> CHR '')'') (rev s))) else None)"

text \<open>What \<^verbatim>\<open>strconv.ParseUint(s, 10, 64)\<close> accepts.\<close>

definition is_uint64 :: "string \<Rightarrow> bool" where
  "is_uint64 s \<longleftrightarrow> s \<noteq> [] \<and> list_all is_digit s \<and> digits_value s < 2 ^ 64"

definition startTicks :: "string \<Rightarrow> string option" where
  "startTicks stat =
     (case after_last_paren stat of
        None \<Rightarrow> None
      | Some rest \<Rightarrow>
          let fields = Fields rest in
          if length fields \<le> 19 then None
          else if is_uint64 (fields ! 19) then Some (fields ! 19) else None)"

definition applierOf :: "HAStatus \<Rightarrow> string \<Rightarrow> ApplierProcess option" where
  "applierOf st logPath = List.find (\<lambda>a. ap_PID a > 0 \<and> Clean (ap_LogPath a) = Clean logPath) (hs_Appliers st)"

text \<open>\<open>stat_of\<close> is the content of \<^verbatim>\<open>/proc/<pid>/stat\<close>, when it can be read.\<close>

definition applierIdentity :: "(int \<Rightarrow> string option) \<Rightarrow> HAStatus \<Rightarrow> string \<Rightarrow> string" where
  "applierIdentity stat_of st logPath =
     (case applierOf st logPath of
        None \<Rightarrow> []
      | Some a \<Rightarrow>
          (case Option.bind (stat_of (ap_PID a)) startTicks of
             None \<Rightarrow> []
           | Some started \<Rightarrow> ''pid:'' @ itoa (ap_PID a) @ '':'' @ started))"

datatype ctx_state = CtxLives | CtxCanceled | CtxDeadline

definition replicationOf ::
  "(string \<Rightarrow> cmd_answer) \<Rightarrow> (int \<Rightarrow> string option) \<Rightarrow> ctx_state \<Rightarrow> HAStatus \<Rightarrow> string \<Rightarrow> string \<Rightarrow> ApplyConvergence option" where
  "replicationOf applyinfo stat_of ctx st database databasesDir =
     (if hs_Role st \<noteq> RoleSlave \<or> database = [] \<or> databasesDir = [] then None
      else let masters = filter (\<lambda>n. ns_State n = role_string RoleMaster) (hs_Nodes st) in
           if length masters \<noteq> 1
           then Some (no_convergence (''the node list names '' @ itoa (int (length masters)) @ '' masters, not one''))
           else let master = ns_Name (hd masters) in
                if \<not> hostLabelPattern master
                then Some (no_convergence ''the master's name in the node list is not a host label'')
                else let logPath = Join [databasesDir, database @ ''_'' @ master];
                         c = ApplyConvergenceStatus (applyinfo logPath);
                         c' = (if ac_Available c then c
                               else case ctx of
                                      CtxCanceled \<Rightarrow> c\<lparr>ac_Reason := ''applyinfo was not read: the request was canceled''\<rparr>
                                    | CtxDeadline \<Rightarrow> c\<lparr>ac_Reason := ''applyinfo did not answer in time''\<rparr>
                                    | CtxLives \<Rightarrow> c)
                     in Some (c'\<lparr>ac_Source := master, ac_Applier := applierIdentity stat_of st logPath\<rparr>))"

subsection \<open>A start needs two quiet rounds\<close>

definition quiet_round :: "round_facts \<Rightarrow> bool" where
  "quiet_round f \<longleftrightarrow>
     \<not> heartbeatReport (fst (rf_status f)) \<and> rf_ctx f = None \<and>
     (case snd (rf_status f) of None \<Rightarrow> True | Some e \<Rightarrow> \<not> ce_unread e \<and> ce_exited e) \<and>
     (\<exists>running. rf_processes f = Inr running \<and> list_all (\<lambda>name. name \<notin> set running) heartbeatVeto)"

lemma observeQuiet_startable: "hb_startable (observeQuiet f) \<longleftrightarrow> quiet_round f"
proof -
  have none: "List.find (\<lambda>name. name \<in> set running) heartbeatVeto = None \<longleftrightarrow> list_all (\<lambda>name. name \<notin> set running) heartbeatVeto" for running
    by (auto simp: find_None_iff list_all_iff)
  show ?thesis
    by (cases "rf_status f"; cases "rf_processes f")
       (auto simp: observeQuiet_def observeHeartbeat_def quiet_round_def not_startable_def Let_def none [symmetric] split: option.splits)
qed

lemma observeQuiet_running: "hb_running (observeQuiet f) \<longleftrightarrow> heartbeatReport (fst (rf_status f))"
  by (cases "rf_status f") (auto simp: observeQuiet_def observeHeartbeat_def not_startable_def Let_def split: option.splits sum.splits)

lemma observeStartable_startable:
  "hb_startable (observeStartable f) \<longleftrightarrow> quiet_round (sf_first f) \<and> sf_wait f = None \<and> quiet_round (sf_second f)"
  by (auto simp: observeStartable_def Let_def observeQuiet_startable not_startable_def split: option.splits)

text \<open>The report is looser than the parser: output that gives a role counts as running heartbeat.\<close>

lemma rx_find_prefix:
  "rx_find False bol (Lit (a @ b) # is) s \<noteq> None \<Longrightarrow> rx_find False bol' [Lit a] s \<noteq> None"
proof (induction s arbitrary: bol bol')
  case (Cons c s)
  show ?case
  proof (cases "take (length a) (c # s) = a")
    case False
    then have "take (length (a @ b)) (c # s) \<noteq> a @ b" by (metis append_eq_conv_conj append_take_drop_id take_append take_take min_def length_append le_add1 take_all_iff)
    then show ?thesis using Cons False by auto
  qed auto
qed (auto split: if_splits)

lemma parsed_role_is_reported:
  assumes "hs_Role (ParseHAStatus out) \<noteq> RoleUnknown"
  shows "heartbeatReport out"
proof -
  have "FindStringSubmatch False reCurrent out \<noteq> None" using assms
    by (cases "FindStringSubmatch False reCurrent out") (auto simp: ParseHAStatus_def no_status_def)
  then have "rx_find False True (Lit (''HA-Node Info'' @ '' (current '') # tl reCurrent) out \<noteq> None"
    by (simp add: FindStringSubmatch_def reCurrent_def)
  then show ?thesis unfolding heartbeatReport_def using rx_find_prefix by blast
qed

end
