(* ===== verification/RestoreRun.thy ===== *)
theory RestoreRun
  imports BackupRun Ownership Observe
begin

section \<open>Running a restore\<close>

text \<open>
  \<^verbatim>\<open>stageArtifact\<close>, \<^verbatim>\<open>stageObject\<close>, \<^verbatim>\<open>checkRestoreEngine\<close> and \<^verbatim>\<open>Restore\<close> of \<^verbatim>\<open>internal/instancemanager/restore.go\<close>,
  \<^verbatim>\<open>haHosts\<close> of \<^verbatim>\<open>habootstrap.go\<close>, \<^verbatim>\<open>activate\<close> of \<^verbatim>\<open>operations.go\<close>, and \<^verbatim>\<open>runRestore\<close>, \<^verbatim>\<open>startRestoredDatabase\<close> and
  \<^verbatim>\<open>ResumeCompletedRestores\<close> of \<^verbatim>\<open>server.go\<close>: the goroutine that takes a restore to its end. As for a backup,
  what is read from outside is a record, \<open>restore_world\<close>, and what is done is a list of events with the store
  that is left.
\<close>

subsection \<open>Staging the artifact\<close>

text \<open>What downloading one object yields: the request fails, the copy breaks off after a part, or all of it.\<close>

datatype download = GetFailed string | CopyFailed string string | Got string

datatype stage_action = PutStaged string string | DropStaged string

fun stage_change :: "(string \<Rightarrow> string option) \<Rightarrow> stage_action \<Rightarrow> (string \<Rightarrow> string option)" where
  "stage_change st (PutStaged name c) = st(name \<mapsto> c)"
| "stage_change st (DropStaged name) = st(name := None)"

definition staged_after :: "stage_action list \<Rightarrow> string \<Rightarrow> string option" where
  "staged_after acts = foldl stage_change Map.empty acts"

text \<open>The error of a step on one object, by the name of the step and the key.\<close>

type_synonym stage_faults = "string \<Rightarrow> string \<Rightarrow> string option"

definition stageObject ::
  "(string \<Rightarrow> string) \<Rightarrow> stage_faults \<Rightarrow> (string \<Rightarrow> download) \<Rightarrow> string \<Rightarrow> ManifestObject \<Rightarrow> string option \<times> stage_action list" where
  "stageObject sha faults get pfx x =
     (let key = mo_Key x; drop_it = (if faults ''remove'' key = None then [DropStaged key] else []) in
      case faults ''mkdir'' key of
        Some e \<Rightarrow> (Some (''stage directory for '' @ key @ '': '' @ e), [])
      | None \<Rightarrow>
          (case get (Join [pfx, key]) of
             GetFailed e \<Rightarrow> (Some (''download '' @ key @ '': '' @ e), [])
           | CopyFailed e part \<Rightarrow>
               (case faults ''create'' key of
                  Some e' \<Rightarrow> (Some (''create staged '' @ key @ '': '' @ e'), [])
                | None \<Rightarrow> (Some (''write staged '' @ key @ '': '' @ e), PutStaged key part # drop_it))
           | Got content \<Rightarrow>
               (case faults ''create'' key of
                  Some e' \<Rightarrow> (Some (''create staged '' @ key @ '': '' @ e'), [])
                | None \<Rightarrow>
                    if int (length content) \<noteq> mo_SizeBytes x
                    then (Some (''object '' @ key @ '' size '' @ itoa (int (length content)) @ '' does not match manifest '' @
                                itoa (mo_SizeBytes x)), PutStaged key content # drop_it)
                    else if sha content \<noteq> mo_SHA256 x
                    then (Some (''object '' @ key @ '' checksum mismatch''), PutStaged key content # drop_it)
                    else (None, [PutStaged key content]))))"

fun stage_objects ::
  "(string \<Rightarrow> string) \<Rightarrow> stage_faults \<Rightarrow> (string \<Rightarrow> download) \<Rightarrow> string \<Rightarrow> ManifestObject list \<Rightarrow> string option \<times> stage_action list" where
  "stage_objects sha faults get pfx [] = (None, [])"
| "stage_objects sha faults get pfx (x # xs) =
     (case stageObject sha faults get pfx x of
        (Some e, acts) \<Rightarrow> (Some e, acts)
      | (None, acts) \<Rightarrow> (case stage_objects sha faults get pfx xs of (e, acts') \<Rightarrow> (e, acts @ acts')))"

definition stageArtifact ::
  "(rune \<Rightarrow> bool) \<Rightarrow> (string \<Rightarrow> string) \<Rightarrow> (string \<Rightarrow> string + BackupManifest) \<Rightarrow> stage_faults \<Rightarrow> (string \<Rightarrow> download) \<Rightarrow> string \<Rightarrow>
     ManifestExpectation \<Rightarrow> (string + BackupManifest) \<times> stage_action list" where
  "stageArtifact printable sha decode faults get pfx exp =
     (case get (Join [pfx, ManifestObjectName]) of
        GetFailed e \<Rightarrow> (Inl (''read manifest: '' @ e), [])
      | CopyFailed e _ \<Rightarrow> (Inl (''read manifest: '' @ e), [])
      | Got data \<Rightarrow>
          (case ParseManifest decode data of
             Inl e \<Rightarrow> (Inl e, [])
           | Inr manifest \<Rightarrow>
               (case Verify printable manifest exp of
                  Some e \<Rightarrow> (Inl e, [])
                | None \<Rightarrow>
                    (case ValidateObjectKeys printable manifest of
                       Some e \<Rightarrow> (Inl e, [])
                     | None \<Rightarrow>
                         (case faults ''mkdir'' [] of
                            Some e \<Rightarrow> (Inl (''create the staging directory: '' @ e), [])
                          | None \<Rightarrow>
                              (case faults ''open'' [] of
                                 Some e \<Rightarrow> (Inl (''open the staging directory: '' @ e), [])
                               | None \<Rightarrow>
                                   (case stage_objects sha faults get pfx (bm_Objects manifest) of
                                      (Some e, acts) \<Rightarrow> (Inl e, acts)
                                    | (None, acts) \<Rightarrow> (Inr manifest, acts))))))))"

subsection \<open>The restore\<close>

definition checkRestoreEngine :: "(rune \<Rightarrow> bool) \<Rightarrow> string \<Rightarrow> string \<Rightarrow> string option" where
  "checkRestoreEngine printable engine declared =
     (let series = EngineSeries engine in
      if series = []
      then Some (''the engine version of this member is not known ('' @ quote printable engine @
                 ''); a restore needs it to check the artifact (ADR-0011)'')
      else if declared \<noteq> [] \<and> EngineSeries declared \<noteq> series
      then Some (''this member runs engine '' @ engine @ '', which is not of the declared version '' @ quote printable declared)
      else None)"

text \<open>The error of a restore: its own, or that of the hook that runs before the command.\<close>

datatype restore_error = RestoreError string | HookError string

record RestoreResult =
  rres_Database :: string
  rres_CubridVersion :: string
  rres_ManifestURI :: string

datatype restore_event =
    Root fs_action
  | Stage stage_action
  | Command "string list"
  | RemoveStaging
  | Finished OperationState

text \<open>What one restore meets; \<open>rs_before\<close> is whether the staging directory was there before.\<close>

record restore_io =
  rs_faults :: Ownership.faults
  rs_part :: "string list"
  rs_hostname :: "string + string"
  rs_before :: bool
  rs_stage :: stage_faults
  rs_get :: "string \<Rightarrow> download"
  rs_cli :: cli

record restore_setting =
  rg_printable :: "rune \<Rightarrow> bool"
  rg_store_text :: "store_error \<Rightarrow> string"
  rg_sha :: "string \<Rightarrow> string"
  rg_decode :: "string \<Rightarrow> string + BackupManifest"
  rg_target_first :: bool

definition empty_root :: dbroot where
  "empty_root = \<lparr>rt_dirs = (\<lambda>_. None), rt_txt = None\<rparr>"

text \<open>A root that does not exist cannot be opened.\<close>

definition root_faults :: "dbroot option \<Rightarrow> Ownership.faults \<Rightarrow> Ownership.faults" where
  "root_faults root faults =
     (if root = None then faults(''open the root'' := Some (False, ''no such file or directory'')) else faults)"

definition root_of :: "dbroot option \<Rightarrow> dbroot" where
  "root_of root = (case root of Some rt \<Rightarrow> rt | None \<Rightarrow> empty_root)"

definition restore_command :: "RestoreRequest \<Rightarrow> string \<Rightarrow> string list" where
  "restore_command req backupDir =
     (if rr_SeedFromMaster req \<noteq> []
      then [''restoreslave'', ''-u'', ''-s'', ''master'', ''-m'', rr_SeedFromMaster req, ''-B'', backupDir, rr_Database req]
      else [''restoredb'', ''-u'', ''-B'', backupDir, rr_Database req])"

definition hasExistingDB :: "Ownership.faults \<Rightarrow> dbroot option \<Rightarrow> string \<Rightarrow> bool" where
  "hasExistingDB faults root database \<longleftrightarrow> faults ''stat the target'' = None \<and> rt_dirs (root_of root) database \<noteq> None"

text \<open>Registering the target and running the command, on a verified artifact.\<close>

definition restore_into ::
  "restore_setting \<Rightarrow> restore_io \<Rightarrow> RestoreRoots \<Rightarrow> RestoreRequest \<Rightarrow> string \<Rightarrow> string \<Rightarrow> dbroot option \<Rightarrow> BackupManifest \<Rightarrow>
     (restore_error + RestoreResult) \<times> restore_event list" where
  "restore_into G io roots req targetDir stagingDir root manifest =
     (case registerRestoreTarget (rg_printable G) (root_faults root (rs_faults io)) (rs_part io) targetDir (root_of root)
             (rr_Database req) (rt_Host roots) (rs_hostname io) (rt_Owner roots) of
        (Some e, acts) \<Rightarrow> (Inl (RestoreError e), map Root acts)
      | (None, acts) \<Rightarrow>
          let command = restore_command req (Join [stagingDir, ''backup'']) in
          case rs_cli io (''cubrid'' # command) of
            (out, Some err) \<Rightarrow>
              (Inl (RestoreError (hd command @ '' failed: '' @ err @ '': '' @ out)),
               map Root acts @ [Command (''cubrid'' # command)] @
               map Root (if rs_faults io ''open the root to undo'' \<noteq> None then []
                         else undo_register (rs_faults io) (rs_part io) (changes (root_of root) acts) (rr_Database req)
                                (rt_txt (root_of root) \<noteq> None)))
          | (out, None) \<Rightarrow>
              (Inr \<lparr>rres_Database = rr_Database req, rres_CubridVersion = bm_CubridVersion manifest,
                    rres_ManifestURI = ''s3://'' @ rr_Bucket req @ [slash] @ Join [rr_Prefix req, ManifestObjectName]\<rparr>,
               map Root acts @ [Command (''cubrid'' # command)]))"

text \<open>Staging and restoring, without the removal of the staging directory; \<open>before\<close> is \<^verbatim>\<open>BeforeRestore\<close>.\<close>

definition stage_and_restore ::
  "restore_setting \<Rightarrow> restore_io \<Rightarrow> RestoreRoots \<Rightarrow> RestoreRequest \<Rightarrow> string \<Rightarrow> string \<Rightarrow> (store \<Rightarrow> string option \<times> store) \<Rightarrow>
     dbroot option \<Rightarrow> store \<Rightarrow> (restore_error + RestoreResult) \<times> restore_event list \<times> store" where
  "stage_and_restore G io roots req targetDir stagingDir before root s =
     (case stageArtifact (rg_printable G) (rg_sha G) (rg_decode G) (rs_stage io) (rs_get io) (rr_Prefix req)
             (restoreExpectation req (rt_EngineVersion roots)) of
        (Inl e, acts) \<Rightarrow> (Inl (RestoreError (''artifact verification failed: '' @ e)), map Stage acts, s)
      | (Inr manifest, acts) \<Rightarrow>
          (case before s of
             (Some e, s') \<Rightarrow> (Inl (HookError e), map Stage acts, s')
           | (None, s') \<Rightarrow>
               (case restore_into G io roots req targetDir stagingDir root manifest of
                  (r, evs) \<Rightarrow> (r, map Stage acts @ evs, s'))))"

definition Restore ::
  "restore_setting \<Rightarrow> restore_io \<Rightarrow> RestoreRoots \<Rightarrow> RestoreRequest \<Rightarrow> (store \<Rightarrow> string option \<times> store) \<Rightarrow> dbroot option \<Rightarrow> store \<Rightarrow>
     (restore_error + RestoreResult) \<times> restore_event list \<times> store" where
  "Restore G io roots req before root s =
     (case validateRestoreRequest (rg_printable G) (rg_target_first G) req of
        Some e \<Rightarrow> (Inl (RestoreError e), [], s)
      | None \<Rightarrow>
          (case confine (rg_printable G) req roots of
             Inl e \<Rightarrow> (Inl (RestoreError e), [], s)
           | Inr (targetDir, stagingDir) \<Rightarrow>
               if rr_SeedFromMaster req \<noteq> [] \<and> rt_Host roots = []
               then (Inl (RestoreError (''seedFromMaster '' @ quote (rg_printable G) (rr_SeedFromMaster req) @
                          '' was given, but this member is not an HA member'')), [], s)
               else case checkRestoreEngine (rg_printable G) (rt_EngineVersion roots) (rr_ExpectedCubridVersion req) of
                      Some e \<Rightarrow> (Inl (RestoreError e), [], s)
                    | None \<Rightarrow>
                        if hasExistingDB (rs_faults io) root (rr_Database req)
                        then (Inl (RestoreError (''target '' @ targetDir @ '' already holds database '' @ quote (rg_printable G) (rr_Database req) @
                                   ''; refusing to overwrite (ADR-0008)'')), [], s)
                        else case registeredInDatabasesTxt
                                    (case rs_faults io ''open databases.txt'' of
                                       Some (_, e) \<Rightarrow> Inl e | None \<Rightarrow> Inr (rt_txt (root_of root))) (rr_Database req) of
                               Inl e \<Rightarrow> (Inl (RestoreError e), [], s)
                             | Inr True \<Rightarrow>
                                 (Inl (RestoreError (''database '' @ quote (rg_printable G) (rr_Database req) @ '' is already registered in '' @
                                       Join [targetDir, ''databases.txt''] @ ''; refusing to overwrite (ADR-0008)'')), [], s)
                             | Inr False \<Rightarrow>
                                 (case stage_and_restore G io roots req targetDir stagingDir before root s of
                                    (r, evs, s') \<Rightarrow>
                                      (r, evs @ (if \<not> isl r \<or> \<not> rs_before io then [RemoveStaging] else []), s'))))"

subsection \<open>The HA member list\<close>

definition is_host_char :: "char \<Rightarrow> bool" where
  "is_host_char c \<longleftrightarrow> is_lower c \<or> is_digit c \<or> c = CHR ''-''"

definition is_host :: "string \<Rightarrow> bool" where
  "is_host l \<longleftrightarrow> l \<noteq> [] \<and> list_all is_host_char l \<and> hd l \<noteq> CHR ''-'' \<and> last l \<noteq> CHR ''-''"

text \<open>The pattern \<^verbatim>\<open>ha_node_list=<group>@<hosts>\<close> at the start of a line. No character of the hosts is a space, so
  the hosts are all of the characters they can be made of, and the rest of the line is blank.\<close>

definition node_list_at :: "string \<Rightarrow> string option" where
  "node_list_at s =
     (case rx_match [Rep True 0 cls_space, Lit ''ha_node_list'', Rep True 0 cls_space, Lit ''='', Rep True 0 cls_space,
                     Rep True 1 cls_word, Lit ''@''] s of
        None \<Rightarrow> None
      | Some (_, r) \<Rightarrow>
          let hosts = takeWhile (\<lambda>c. is_host_char c \<or> c = CHR '':'') r;
              rest = dropWhile (\<lambda>c. cls_space c \<and> c \<noteq> newline) (drop (length hosts) r)
          in if list_all is_host (split_on (CHR '':'') hosts) \<and> (rest = [] \<or> hd rest = newline) then Some hosts else None)"

fun find_node_list :: "bool \<Rightarrow> string \<Rightarrow> string option" where
  "find_node_list bol [] = (if bol then node_list_at [] else None)"
| "find_node_list bol (c # s) =
     (case (if bol then node_list_at (c # s) else None) of
        Some h \<Rightarrow> Some h
      | None \<Rightarrow> find_node_list (c = newline) s)"

text \<open>The path of \<^verbatim>\<open>cubrid_ha.conf\<close> and what reading it gives.\<close>

definition haHosts :: "string \<Rightarrow> string + string \<Rightarrow> string + string" where
  "haHosts confPath conf =
     (if confPath = [] then Inl ''no HA configuration path is set (CUBRID_HA_CONF)''
      else case conf of
             Inl e \<Rightarrow> Inl (''read the HA configuration: '' @ e)
           | Inr data \<Rightarrow>
               (case find_node_list True data of
                  None \<Rightarrow> Inl (confPath @ '' has no usable ha_node_list'')
                | Some hosts \<Rightarrow> Inr hosts))"

subsection \<open>Starting the restored database\<close>

text \<open>\<^verbatim>\<open>activate\<close>, with the stop file and the life of the manager when it looks: a command that starts CUBRID.\<close>

definition activate :: "lstat_answer \<Rightarrow> life \<Rightarrow> cli \<Rightarrow> string list \<Rightarrow> (string \<times> string option) \<times> restore_event list" where
  "activate stop_file life cli args =
     (if fst (honorRecordedStop stop_file life) \<or> lf_stopping life
      then (([], Some (life_error_text errStopping)), [])
      else (cli (''cubrid'' # args), [Command (''cubrid'' # args)]))"

record start_io =
  si_heartbeat :: start_facts
  si_stop_file :: lstat_answer
  si_life :: life
  si_cli :: cli

definition validateRestoreDatabase :: "(rune \<Rightarrow> bool) \<Rightarrow> string \<Rightarrow> string \<Rightarrow> string option" where
  "validateRestoreDatabase printable standaloneDB database =
     (if standaloneDB \<noteq> [] \<and> standaloneDB \<noteq> database
      then Some (''restore database '' @ quote printable database @ '' does not match configured standalone database '' @
                 quote printable standaloneDB)
      else None)"

text \<open>One start command, with what runs ahead of it.\<close>

definition start_with ::
  "start_io \<Rightarrow> (store \<Rightarrow> string option \<times> store) \<Rightarrow> string list \<Rightarrow> string \<Rightarrow> store \<Rightarrow> string option \<times> restore_event list \<times> store" where
  "start_with io before args what s =
     (case before s of
        (Some e, s') \<Rightarrow> (Some e, [], s')
      | (None, s') \<Rightarrow>
          (case activate (si_stop_file io) (si_life io) (si_cli io) args of
             ((out, Some err), evs) \<Rightarrow> (Some (what @ '' failed: '' @ err @ '': '' @ out), evs, s')
           | ((out, None), evs) \<Rightarrow> (None, evs, s')))"

definition start_heartbeat ::
  "start_io \<Rightarrow> (store \<Rightarrow> string option \<times> store) \<Rightarrow> store \<Rightarrow> string option \<times> restore_event list \<times> store" where
  "start_heartbeat io before s =
     (let hb = observeStartable (si_heartbeat io) in
      case heartbeat_startError hb of
        Some e \<Rightarrow> (Some e, [], s)
      | None \<Rightarrow>
          if hb_startable hb then start_with io before [''heartbeat'', ''start''] ''heartbeat start'' s else (None, [], s))"

definition startRestoredDatabase ::
  "(rune \<Rightarrow> bool) \<Rightarrow> start_io \<Rightarrow> string \<Rightarrow> string \<Rightarrow> bool \<Rightarrow> (store \<Rightarrow> string option \<times> store) \<Rightarrow> store \<Rightarrow>
     string option \<times> restore_event list \<times> store" where
  "startRestoredDatabase printable io standaloneDB database haMember before s =
     (case validateRestoreDatabase printable standaloneDB database of
        Some e \<Rightarrow> (Some e, [], s)
      | None \<Rightarrow>
          (case (if standaloneDB \<noteq> [] then start_with io before [''server'', ''start'', database] ''server start'' s else (None, [], s)) of
             (Some e, evs, s') \<Rightarrow> (Some e, evs, s')
           | (None, evs, s') \<Rightarrow>
               if \<not> haMember then (None, evs, s')
               else (case start_heartbeat io before s' of (e, evs', s'') \<Rightarrow> (e, evs @ evs', s''))))"

subsection \<open>The run\<close>

record restore_world =
  rw_engine :: string
  rw_confPath :: string
  rw_conf :: "string + string"
  rw_standaloneDB :: string
  rw_adopt :: Ownership.faults
  rw_reclaim :: Ownership.faults
  rw_restore :: restore_io
  rw_start :: start_io
  rw_clear :: Ownership.faults
  rw_life :: life

definition fail_run :: "life \<Rightarrow> io \<Rightarrow> string \<Rightarrow> string \<Rightarrow> restore_event list \<Rightarrow> store \<Rightarrow> restore_event list \<times> store" where
  "fail_run life env i reason evs s =
     (evs @ [Finished OpFailed],
      snd (Settle env i (\<lambda>op. op\<lparr>op_State := OpFailed, op_FailureReason := stoppingReason life reason\<rparr>) s))"

text \<open>An update of the operation's state as a hook: its error text, if it cannot be recorded.\<close>

definition record_state :: "restore_setting \<Rightarrow> io \<Rightarrow> string \<Rightarrow> OperationState \<Rightarrow> store \<Rightarrow> string option \<times> store" where
  "record_state G env i state s =
     (case Update env i (\<lambda>op. op\<lparr>op_State := state\<rparr>) s of
        (Inl e, s') \<Rightarrow> (Some (notRecorded state (rg_store_text G e)), s')
      | (Inr _, s') \<Rightarrow> (None, s'))"

definition apply_root :: "dbroot option \<Rightarrow> fs_action list \<Rightarrow> dbroot option" where
  "apply_root root acts = map_option (\<lambda>rt. changes rt acts) root"

text \<open>The last part of the run: starting the database, then the end.\<close>

definition start_and_end ::
  "restore_setting \<Rightarrow> io \<Rightarrow> restore_world \<Rightarrow> string \<Rightarrow> RestoreRequest \<Rightarrow> OperationArtifact \<Rightarrow> restore_event list \<Rightarrow> store \<Rightarrow>
     restore_event list \<times> store" where
  "start_and_end G env W i req restored evs s =
     (case startRestoredDatabase (rg_printable G) (rw_start W) (rw_standaloneDB W) (rr_Database req) (rw_standaloneDB W = [])
             (record_state G env i OpStarting) s of
        (Some e, evs', s') \<Rightarrow> fail_run (rw_life W) env i e (evs @ evs') s'
      | (None, evs', s') \<Rightarrow>
          (case Settle env i (\<lambda>op. op\<lparr>op_State := OpCompleted, op_Artifact := Some restored\<rparr>) s' of
             (Some e, s'') \<Rightarrow> (evs @ evs' @ [Finished OpCompleted], s'')
           | (None, s'') \<Rightarrow>
               (evs @ evs' @ [Finished OpCompleted] @ map Root (snd (clearOwned (rw_clear W) (rr_Database req))), s'')))"

text \<open>The part that restores, when there is no restored data to take over.\<close>

definition restore_and_record ::
  "restore_setting \<Rightarrow> io \<Rightarrow> restore_world \<Rightarrow> RestoreRoots \<Rightarrow> string \<Rightarrow> RestoreRequest \<Rightarrow> dbroot option \<Rightarrow> restore_event list \<Rightarrow> store \<Rightarrow>
     restore_event list \<times> store" where
  "restore_and_record G env W roots i req root evs s =
     (case reclaimIncomplete (rg_printable G) (rg_store_text G) state_string env (rw_reclaim W) (rs_part (rw_restore W))
             (rt_Target roots) root (rr_Database req) s of
        (Some e, acts, s1) \<Rightarrow> fail_run (rw_life W) env i (''restore failed: '' @ e) (evs @ map Root acts) s1
      | (None, acts, s1) \<Rightarrow>
          (case Restore G (rw_restore W) roots req (record_state G env i OpRestoring) (apply_root root acts) s1 of
             (Inl (HookError e), evs', s2) \<Rightarrow> fail_run (rw_life W) env i e (evs @ map Root acts @ evs') s2
           | (Inl (RestoreError e), evs', s2) \<Rightarrow> fail_run (rw_life W) env i (''restore failed: '' @ e) (evs @ map Root acts @ evs') s2
           | (Inr res, evs', s2) \<Rightarrow>
               let restored = \<lparr>art_ManifestURI = rres_ManifestURI res, art_ManifestDigest = [], art_SizeBytes = 0,
                               art_Database = rres_Database res, art_CubridVersion = rres_CubridVersion res, art_Level = 0\<rparr>
               in case Update env i (\<lambda>op. op\<lparr>op_Restored := Some restored\<rparr>) s2 of
                    (Inl e, s3) \<Rightarrow>
                      fail_run (rw_life W) env i (''record the restored database: '' @ rg_store_text G e) (evs @ map Root acts @ evs') s3
                  | (Inr _, s3) \<Rightarrow> start_and_end G env W i req restored (evs @ map Root acts @ evs') s3))"

definition runRestore ::
  "restore_setting \<Rightarrow> io \<Rightarrow> restore_world \<Rightarrow> RestoreRoots \<Rightarrow> string \<Rightarrow> RestoreRequest \<Rightarrow> dbroot option \<Rightarrow> store \<Rightarrow>
     restore_event list \<times> store" where
  "runRestore G env W roots0 i req root s =
     (case (if rw_standaloneDB W = [] then haHosts (rw_confPath W) (rw_conf W) else Inr (rt_Host roots0)) of
        Inl e \<Rightarrow>
          fail_run (rw_life W) env i (''restore refused: this member is not standalone and has no usable HA configuration: '' @ e) [] s
      | Inr host \<Rightarrow>
          let roots = roots0\<lparr>rt_Owner := i, rt_EngineVersion := rw_engine W, rt_Host := host\<rparr> in
          case record_state G env i OpDownloading s of
            (Some e, s1) \<Rightarrow> fail_run (rw_life W) env i e [] s1
          | (None, s1) \<Rightarrow>
              (case checkRestoreEngine (rg_printable G) (rw_engine W) (rr_ExpectedCubridVersion req) of
                 Some e \<Rightarrow> fail_run (rw_life W) env i (''restore refused: '' @ e) [] s1
               | None \<Rightarrow>
                   (case adoptRestored (rg_printable G) (rg_store_text G) env (rw_adopt W) root i (rr_Database req) s1 of
                      (Inl e, acts, s2) \<Rightarrow> fail_run (rw_life W) env i (''restore failed: '' @ e) (map Root acts) s2
                    | (Inr (Some restored), acts, s2) \<Rightarrow>
                        if EngineSeries (art_CubridVersion restored) \<noteq> EngineSeries (rw_engine W)
                        then fail_run (rw_life W) env i (''restore refused: the data an earlier attempt restored is of engine '' @
                               art_CubridVersion restored @ '', not of the series of this member's engine '' @ rw_engine W @
                               ''; it is kept and not started (ADR-0011)'') (map Root acts) s2
                        else start_and_end G env W i req restored (map Root acts) s2
                    | (Inr None, acts, s2) \<Rightarrow>
                        restore_and_record G env W roots i req (apply_root root acts) (map Root acts) s2)))"

subsection \<open>Restores that completed before a restart\<close>

text \<open>One entry of the database root: its error, if it is to be reported.\<close>

definition resume_one ::
  "restore_setting \<Rightarrow> io \<Rightarrow> start_io \<Rightarrow> Ownership.faults \<Rightarrow> string \<Rightarrow> string option \<Rightarrow> dbroot \<Rightarrow> string \<Rightarrow> store \<Rightarrow>
     string option \<times> restore_event list \<times> store" where
  "resume_one G env io faults standaloneDB haErr rt database s =
     (if \<not> databaseNamePattern database then (None, [], s)
      else case (if faults ''read the marker'' = None then marker_of rt database else None) of
             None \<Rightarrow> (None, [], s)
           | Some data \<Rightarrow>
               (case Get env (trim_space data) s of
                  (Inl _, s1) \<Rightarrow> (None, [], s1)
                | (Inr op, s1) \<Rightarrow>
                    if op_Kind op \<noteq> OpRestore \<or> op_State op \<noteq> OpCompleted \<or> op_Restored op = None \<or> op_Database op \<noteq> database
                    then (None, [], s1)
                    else case haErr of
                           Some e \<Rightarrow>
                             (Some (''start '' @ database @ '' of completed restore '' @ op_ID op @
                                    '': the HA configuration is not usable: '' @ e), [], s1)
                         | None \<Rightarrow>
                             (case startRestoredDatabase (rg_printable G) io standaloneDB database (standaloneDB = []) (\<lambda>s. (None, s)) s1 of
                                (Some e, evs, s2) \<Rightarrow>
                                  (Some (''start '' @ database @ '' of completed restore '' @ op_ID op @ '': '' @ e), evs, s2)
                              | (None, evs, s2) \<Rightarrow>
                                  (case clearOwned faults database of (e, acts) \<Rightarrow> (e, evs @ map Root acts, s2)))))"

fun resume_each ::
  "restore_setting \<Rightarrow> io \<Rightarrow> (string \<Rightarrow> start_io) \<Rightarrow> (string \<Rightarrow> Ownership.faults) \<Rightarrow> string \<Rightarrow> string option \<Rightarrow> dbroot \<Rightarrow> string list \<Rightarrow> store \<Rightarrow>
     string list \<times> restore_event list \<times> store" where
  "resume_each G env io faults standaloneDB haErr rt [] s = ([], [], s)"
| "resume_each G env io faults standaloneDB haErr rt (d # ds) s =
     (case resume_one G env (io d) (faults d) standaloneDB haErr rt d s of
        (e, evs, s') \<Rightarrow>
          (case resume_each G env io faults standaloneDB haErr rt ds s' of
             (errs, evs', s'') \<Rightarrow> (case e of None \<Rightarrow> errs | Some e' \<Rightarrow> e' # errs, evs @ evs', s'')))"

text \<open>\<open>listing'\<close> is the directories in the database root, none when it does not exist, or why they cannot be read.\<close>

definition ResumeCompletedRestores ::
  "restore_setting \<Rightarrow> io \<Rightarrow> (string \<Rightarrow> start_io) \<Rightarrow> (string \<Rightarrow> Ownership.faults) \<Rightarrow> string \<Rightarrow> string \<Rightarrow> string + string \<Rightarrow>
     string + string list option \<Rightarrow> dbroot \<Rightarrow> store option \<Rightarrow> life \<Rightarrow> string option \<times> restore_event list \<times> store option \<times> life" where
  "ResumeCompletedRestores G env io faults standaloneDB confPath conf listing' rt ops life =
     (case ops of
        None \<Rightarrow> (None, [], None, life)
      | Some s \<Rightarrow>
          (case admitResume life of
             (Some e, life') \<Rightarrow> (Some (life_error_text e), [], Some s, life')
           | (None, life') \<Rightarrow>
               (case listing' of
                  Inl e \<Rightarrow> (Some (''read the database root: '' @ e), [], Some s, ops_done life')
                | Inr None \<Rightarrow> (None, [], Some s, ops_done life')
                | Inr (Some ds) \<Rightarrow>
                    let haErr = (if standaloneDB = [] then (case haHosts confPath conf of Inl e \<Rightarrow> Some e | Inr _ \<Rightarrow> None) else None)
                    in case resume_each G env io faults standaloneDB haErr rt ds s of
                         (errs, evs, s') \<Rightarrow> (join_errors errs, evs, Some s', ops_done life'))))"

subsection \<open>What is staged is what is verified\<close>

definition read_of :: "(string \<Rightarrow> download) \<Rightarrow> bucket_reader" where
  "read_of get key = (case get key of Got c \<Rightarrow> Inr c | GetFailed e \<Rightarrow> Inl e | CopyFailed e _ \<Rightarrow> Inl e)"

lemma read_of_Inr: "read_of get key = Inr c \<longleftrightarrow> get key = Got c"
  by (simp add: read_of_def split: download.splits)

lemma stageObject_None:
  assumes "stageObject sha faults get pfx x = (None, acts)"
  shows "\<exists>c. get (Join [pfx, mo_Key x]) = Got c \<and> int (length c) = mo_SizeBytes x \<and> sha c = mo_SHA256 x \<and> acts = [PutStaged (mo_Key x) c]"
  using assms by (auto simp: stageObject_def Let_def split: option.splits download.splits if_splits)

lemma stage_objects_None:
  assumes "stage_objects sha faults get pfx xs = (None, acts)"
  shows "verify_objects sha (read_of get) pfx xs = None \<and>
    acts = map (\<lambda>x. PutStaged (mo_Key x) (projr (read_of get (Join [pfx, mo_Key x])))) xs"
  using assms
proof (induction xs arbitrary: acts)
  case (Cons x xs)
  obtain a b where "stageObject sha faults get pfx x = (None, a)" "stage_objects sha faults get pfx xs = (None, b)" "acts = a @ b"
    using Cons.prems by (auto split: prod.splits option.splits)
  then show ?case using Cons.IH [of b] stageObject_None [of sha faults get pfx x a]
    by (auto simp flip: read_of_Inr)
qed simp

lemma stage_objects_no_faults:
  assumes "verify_objects sha (read_of get) pfx xs = None"
  shows "\<exists>acts. stage_objects sha (\<lambda>_ _. None) get pfx xs = (None, acts)"
  using assms
proof (induction xs)
  case (Cons x xs)
  obtain c where "get (Join [pfx, mo_Key x]) = Got c" "int (length c) = mo_SizeBytes x" "sha c = mo_SHA256 x"
    "verify_objects sha (read_of get) pfx xs = None"
    using Cons.prems by (auto simp: read_of_Inr split: sum.splits if_splits)
  then show ?case using Cons.IH by (auto simp: stageObject_def)
qed simp

lemma staged_after_puts:
  "staged_after (map (\<lambda>x. PutStaged (k x) (c (k x))) xs) n = (if n \<in> k ` set xs then Some (c n) else None)"
  by (induction xs rule: rev_induct) (auto simp: staged_after_def)

lemma stageArtifact_Inr:
  assumes "stageArtifact printable sha decode faults get pfx exp = (Inr m, acts)"
  shows "VerifyArtifact printable sha decode (read_of get) pfx exp = Inr m \<and>
    staged_after acts = (\<lambda>key. if key \<in> mo_Key ` set (bm_Objects m) then Some (projr (read_of get (Join [pfx, key]))) else None)"
proof -
  obtain data where d: "get (Join [pfx, ManifestObjectName]) = Got data" "ParseManifest decode data = Inr m"
      "Verify printable m exp = None" "ValidateObjectKeys printable m = None"
      "stage_objects sha faults get pfx (bm_Objects m) = (None, acts)"
    using assms by (auto simp: stageArtifact_def split: download.splits sum.splits option.splits prod.splits)
  note o = stage_objects_None [OF d(5)]
  have "VerifyArtifact printable sha decode (read_of get) pfx exp = Inr m"
    using d o by (simp add: VerifyArtifact_def flip: read_of_Inr)
  moreover have "staged_after acts = (\<lambda>key. if key \<in> mo_Key ` set (bm_Objects m) then Some (projr (read_of get (Join [pfx, key]))) else None)"
    using o staged_after_puts [of mo_Key "\<lambda>key. projr (read_of get (Join [pfx, key]))" "bm_Objects m"] by (simp add: fun_eq_iff)
  ultimately show ?thesis by simp
qed

lemma stageArtifact_no_faults:
  assumes "VerifyArtifact printable sha decode (read_of get) pfx exp = Inr m"
  shows "\<exists>acts. stageArtifact printable sha decode (\<lambda>_ _. None) get pfx exp = (Inr m, acts)"
proof -
  obtain data where d: "get (Join [pfx, ManifestObjectName]) = Got data" "ParseManifest decode data = Inr m"
      "Verify printable m exp = None" "ValidateObjectKeys printable m = None"
      "verify_objects sha (read_of get) pfx (bm_Objects m) = None"
    using assms by (auto simp: VerifyArtifact_def read_of_Inr split: sum.splits option.splits)
  obtain acts where "stage_objects sha (\<lambda>_ _. None) get pfx (bm_Objects m) = (None, acts)"
    using stage_objects_no_faults [OF d(5)] by blast
  then show ?thesis using d by (simp add: stageArtifact_def)
qed

text \<open>
  C32. Staging an artifact accepts exactly what verifying it accepts, and reads each object once for both: when
  it succeeds, the verification of the same answers succeeds with the same manifest, and the staging directory
  holds exactly the listed objects with the bytes that were checked; and on a working disk it succeeds whenever
  the verification does.
\<close>

theorem staging_is_verification:
  "(\<forall>faults acts. stageArtifact printable sha decode faults get pfx exp = (Inr m, acts) \<longrightarrow>
      VerifyArtifact printable sha decode (read_of get) pfx exp = Inr m \<and>
      staged_after acts = (\<lambda>key. if key \<in> mo_Key ` set (bm_Objects m) then Some (projr (read_of get (Join [pfx, key]))) else None)) \<and>
   ((\<exists>acts. stageArtifact printable sha decode (\<lambda>_ _. None) get pfx exp = (Inr m, acts)) \<longleftrightarrow>
      VerifyArtifact printable sha decode (read_of get) pfx exp = Inr m)"
  using stageArtifact_Inr stageArtifact_no_faults by blast

text \<open>
  C31. What a completed backup uploaded is what a restore stages. When the store keeps what it is sent and gives it
  back, the staged files do not change between the two readings, the manifest can be read back from its encoding
  and the backup's own description fits the request, staging the location to which the upload returned success
  succeeds: the manifest is the one that was written, the staging directory holds exactly the files of the backup
  below \<^verbatim>\<open>backup\<close>, with their content, and the reported size is the sum of theirs.
\<close>

theorem a_restore_stages_what_a_backup_uploaded:
  assumes up: "UploadBackup sha encode random walked open_error fio manifest_put spec = (Inr result, kept)"
    and pfx: "upload_prefix random spec = Inr pfx" "clean_key pfx"
    and files: "stagedFiles walked = Inr files" "distinct files"
      "list_all (\<lambda>rel. clean_key rel \<and> CHR 0x00 \<notin> set rel \<and> CHR 0x5C \<notin> set rel) files"
    and store: "list_all (\<lambda>rel. fst (fi_put (fio rel)) \<and> fi_sent (fio rel) = fi_hashed (fio rel)) files" "fst manifest_put"
    and loop: "upload_files sha fio pfx files = (Inr objects, ks)"
    and json: "decode (encode (uploaded_manifest spec objects)) = Inr (uploaded_manifest spec objects)"
    and fits: "rr_SeedFromMaster req = []" "bm_Database (sp_Manifest spec) = rr_Database req" "bm_Level (sp_Manifest spec) = 0"
      "EngineSeries (bm_CubridVersion (sp_Manifest spec)) = EngineSeries engine" "EngineSeries engine \<noteq> []"
    and get: "read_of get = reader (bucket_after before kept)"
  shows "\<exists>acts. stageArtifact printable sha decode (\<lambda>_ _. None) get pfx (restoreExpectation req engine) =
      (Inr (uploaded_manifest spec objects), acts) \<and>
    staged_after acts = map_of (map (\<lambda>rel. (''backup/'' @ rel, projr (fi_hashed (fio rel)))) files) \<and>
    ur_SizeBytes result = wrap64 (sum_list (map (\<lambda>rel. int (length (projr (fi_hashed (fio rel))))) files))"
proof -
  note trusted = completed_upload_is_trusted [where printable = printable and before = before and sha = sha and encode = encode
      and decode = decode and io = fio, OF up pfx files store loop json fits]
  then obtain acts where acts: "stageArtifact printable sha decode (\<lambda>_ _. None) get pfx (restoreExpectation req engine) =
      (Inr (uploaded_manifest spec objects), acts)"
    using stageArtifact_no_faults unfolding get [symmetric] by blast
  let ?c = "\<lambda>rel. projr (fi_hashed (fio rel))"
  have keys: "mo_Key ` set objects = (\<lambda>rel. ''backup/'' @ rel) ` set files"
    using trusted by (metis (no_types) image_set)
  have lookup: "map_of (map (\<lambda>rel. (''backup/'' @ rel, ?c rel)) fs) key =
      (if key \<in> (\<lambda>rel. ''backup/'' @ rel) ` set fs then Some (?c (drop 7 key)) else None)" for fs key
    by (induction fs) auto
  have read: "read_of get (Join [pfx, ''backup/'' @ rel]) = Inr (?c rel)" if "rel \<in> set files" for rel
    using trusted that unfolding get by blast
  have "staged_after acts key = map_of (map (\<lambda>rel. (''backup/'' @ rel, ?c rel)) files) key" for key
    using stageArtifact_Inr [OF acts] read unfolding lookup by (auto simp: uploaded_manifest_def keys)
  moreover have "map mo_SizeBytes objects = map (\<lambda>rel. int (length (?c rel))) files"
    using upload_files_Inr [OF loop] by simp
  ultimately show ?thesis using acts trusted by (auto simp: fun_eq_iff)
qed

theorem a_restore_stages_what_a_backup_uploaded_witness:
  "\<exists>acts. stageArtifact (\<lambda>_. False) id demo_unjson (\<lambda>_ _. None)
      (\<lambda>key. case bucket_after (\<lambda>_. None) demo_kept key of None \<Rightarrow> GetFailed ''no such key'' | Some c \<Rightarrow> Got c) demo_prefix
      (restoreExpectation demo_restore_request ''11.4'') = (Inr (uploaded_manifest demo_spec (bm_Objects demo_manifest)), acts) \<and>
    staged_after acts = map_of [(''backup/f'', ''xy'')] \<and> (2 :: int) = wrap64 2"
proof -
  have loop: "upload_files id demo_io demo_prefix [''f''] = (Inr (bm_Objects demo_manifest), [(''p/attempt-00/backup/f'', ''xy'')])"
    and json: "demo_unjson (demo_json (uploaded_manifest demo_spec (bm_Objects demo_manifest))) =
      Inr (uploaded_manifest demo_spec (bm_Objects demo_manifest))"
    and fits: "rr_SeedFromMaster demo_restore_request = []"
      "bm_Database (sp_Manifest demo_spec) = rr_Database demo_restore_request" "bm_Level (sp_Manifest demo_spec) = 0"
      "EngineSeries (bm_CubridVersion (sp_Manifest demo_spec)) = EngineSeries ''11.4''" "EngineSeries ''11.4'' \<noteq> []"
    by code_simp+
  have get: "read_of (\<lambda>key. case bucket_after (\<lambda>_. None) demo_kept key of None \<Rightarrow> GetFailed ''no such key'' | Some c \<Rightarrow> Got c) =
      reader (bucket_after (\<lambda>_. None) demo_kept)"
    by (auto simp: read_of_def reader_def fun_eq_iff split: option.splits)
  show ?thesis
    using a_restore_stages_what_a_backup_uploaded [where printable = "\<lambda>_. False",
        OF demo_upload(1-4) _ _ _ _ loop _ fits get, of demo_unjson] json
    by (simp add: demo_upload(5) demo_io_def)
qed

subsection \<open>What the calls of a run keep of the store\<close>

text \<open>A restore is refused before anything is done, or stages and restores into a target where the database neither
  exists nor is registered.\<close>

lemma Restore_cases:
  assumes "Restore G rio roots req before root s = (r, evs, s')"
  obtains (refused) e where "r = Inl (RestoreError e)" "evs = []" "s' = s"
    | (went_on) targetDir stagingDir evs' where
        "validateRestoreRequest (rg_printable G) (rg_target_first G) req = None"
        "confine (rg_printable G) req roots = Inr (targetDir, stagingDir)"
        "checkRestoreEngine (rg_printable G) (rt_EngineVersion roots) (rr_ExpectedCubridVersion req) = None"
        "\<not> hasExistingDB (rs_faults rio) root (rr_Database req)"
        "\<not> is_registered (root_of root) (rr_Database req)"
        "stage_and_restore G rio roots req targetDir stagingDir before root s = (r, evs', s')"
        "evs = evs' @ (if \<not> isl r \<or> \<not> rs_before rio then [RemoveStaging] else [])"
proof (cases "validateRestoreRequest (rg_printable G) (rg_target_first G) req")
  case None
  note v = this
  show ?thesis
  proof (cases "confine (rg_printable G) req roots")
    case (Inl e)
    then show ?thesis using assms v refused [of e] by (simp add: Restore_def)
  next
    case (Inr ts)
    obtain t d where ts: "ts = (t, d)" by fastforce
    let ?file = "case rs_faults rio ''open databases.txt'' of Some (_, e) \<Rightarrow> Inl e | None \<Rightarrow> Inr (rt_txt (root_of root))"
    obtain x evs' s2 where x: "stage_and_restore G rio roots req t d before root s = (x, evs', s2)" by (metis prod_cases3)
    show ?thesis
    proof (cases "\<not> (rr_SeedFromMaster req \<noteq> [] \<and> rt_Host roots = []) \<and>
        checkRestoreEngine (rg_printable G) (rt_EngineVersion roots) (rr_ExpectedCubridVersion req) = None \<and>
        \<not> hasExistingDB (rs_faults rio) root (rr_Database req) \<and>
        registeredInDatabasesTxt ?file (rr_Database req) = Inr False")
      case True
      then have "r = x" "evs = evs' @ (if \<not> isl r \<or> \<not> rs_before rio then [RemoveStaging] else [])" "s' = s2"
        using assms v Inr ts x by (auto simp: Restore_def)
      moreover have "\<not> is_registered (root_of root) (rr_Database req)"
        using True by (auto simp: registeredInDatabasesTxt_def is_registered_def split: option.splits)
      ultimately show ?thesis using went_on [of t d evs'] True v Inr ts x by simp
    next
      case False
      then have "\<exists>e. r = Inl (RestoreError e) \<and> evs = [] \<and> s' = s"
        using assms v Inr ts by (auto simp: Restore_def split: if_splits option.splits sum.splits bool.splits)
      then show ?thesis using refused by blast
    qed
  qed
qed (use assms refused in \<open>auto simp: Restore_def\<close>)

text \<open>A property of the store that the calls an operation makes for itself keep.\<close>

locale run_store =
  fixes G :: restore_setting
    and env :: io
    and i :: string
    and K :: "store \<Rightarrow> bool"
  assumes get_keeps: "K s \<Longrightarrow> K (snd (Get env j s))"
    and state_keeps: "K s \<Longrightarrow> \<not> IsTerminal st \<Longrightarrow> K (snd (record_state G env i st s))"
    and restored_keeps: "K s \<Longrightarrow> K (snd (Update env i (\<lambda>op. op\<lparr>op_Restored := Some r\<rparr>) s))"
begin

lemma get_eq: "K s \<Longrightarrow> Get env j s = (g, s') \<Longrightarrow> K s'"
  using get_keeps [of s j] by simp

lemma adopt_keeps: "K s \<Longrightarrow> K (snd (snd (adoptRestored printable text env faults root i d s)))"
  using restored_keeps
  by (auto simp: adoptRestored_def dest: get_eq split: option.splits sum.splits prod.splits if_splits) (metis get_eq snd_conv)+

lemma reclaim_keeps_store:
  "K s \<Longrightarrow> K (snd (snd (reclaimIncomplete printable text st_text env faults part target root d s)))"
  by (auto simp: reclaimIncomplete_def Let_def dest: get_eq split: option.splits sum.splits prod.splits if_splits OperationState.splits)

lemma stage_keeps:
  assumes "K s" "\<And>s. K s \<Longrightarrow> K (snd (before s))" "stage_and_restore G' rio roots req t d before root s = (r, evs, s')"
  shows "K s'"
  using assms(1) assms(2) [of s] assms(3) by (auto simp: stage_and_restore_def split: option.splits sum.splits prod.splits)

lemma restore_keeps:
  assumes "K s" "\<And>s. K s \<Longrightarrow> K (snd (before s))" "Restore G' rio roots req before root s = (r, evs, s')"
  shows "K s'"
  using assms(3)
proof (cases rule: Restore_cases)
  case refused
  then show ?thesis using assms(1) by simp
next
  case (went_on t d evs')
  show ?thesis by (rule stage_keeps [OF assms(1) assms(2) went_on(6)])
qed

lemma start_with_keeps:
  assumes "K s" "\<And>s. K s \<Longrightarrow> K (snd (before s))"
  shows "K (snd (snd (start_with sio before args what s)))"
  using assms(1) assms(2) [of s] by (auto simp: start_with_def split: option.splits prod.splits)

lemma start_keeps:
  assumes "K s" "\<And>s. K s \<Longrightarrow> K (snd (before s))"
  shows "K (snd (snd (startRestoredDatabase printable sio sdb d ha before s)))"
proof -
  have hb: "K (snd (snd (start_heartbeat sio before t)))" if "K t" for t
    using that start_with_keeps [where before = before, OF that assms(2)] by (auto simp: start_heartbeat_def Let_def split: option.splits)
  let ?first = "if sdb \<noteq> [] then start_with sio before [''server'', ''start'', d] ''server start'' s else (None, [], s)"
  obtain e evs s1 where first: "?first = (e, evs, s1)" by (metis prod_cases3)
  have "K (snd (snd ?first))" using start_with_keeps [where before = before, OF assms] assms(1) by simp
  then have "K s1" unfolding first by simp
  moreover obtain e' evs' s2 where second: "start_heartbeat sio before s1 = (e', evs', s2)" by (metis prod_cases3)
  ultimately have "K s2" using hb [of s1] by simp
  then show ?thesis unfolding startRestoredDatabase_def first using \<open>K s1\<close> second assms(1) by (simp split: option.split)
qed

end

lemma runs_file: "quiet s s' \<Longrightarrow> runs_op s i \<Longrightarrow> file_at s' (record_name i) = file_at s (record_name i)"
  using quiet_changed [of s s' "record_name i"] by (auto simp: runs_op_def)

text \<open>A call that changes the record of an operation no restart interrupted leaves the record or the changed one.\<close>

lemma updateLocked_file:
  assumes "\<not> interrupted s i" "recorded s i op" "op_ID op = i" "\<And>op. op_ID (m op) = op_ID op" "updateLocked env i m s = (r, s')"
  shows "recorded s' i op \<or> (\<exists>t. recorded s' i ((m op)\<lparr>op_UpdatedAt := t\<rparr>))"
proof -
  obtain d s1 where d: "decodeLocked env i s = (d, s1)" by fastforce
  note eff = decodeLocked_effect [OF d]
  have dir: "file_at s1 = file_at s" using eff by (auto simp: file_at_def fun_eq_iff)
  have int: "i \<notin> set (st_interrupted s1)" using assms(1) eff(1) by (auto simp: interrupted_def same_memory_def)
  show ?thesis
  proof (cases d)
    case (Inl e)
    then show ?thesis using assms(2,5) d dir by (simp add: updateLocked_def readLocked_def)
  next
    case (Inr op0)
    then have "op0 = op" using eff(4) assms(2) by auto
    let ?op = "(m op)\<lparr>op_UpdatedAt := io_now (outcome env s1)\<rparr>"
    obtain w s2 where w: "writeLocked env ?op s1 = (w, s2)" by fastforce
    have "s' = s2" using assms(5) d Inr int w \<open>op0 = op\<close> by (auto simp: updateLocked_def readLocked_def Let_def split: option.splits)
    moreover have "op_ID ?op = i" using assms(3,4) by simp
    ultimately show ?thesis using writeLocked_file(3) [OF w] dir assms(2) by auto
  qed
qed

definition restored_on_record :: "store \<Rightarrow> string \<Rightarrow> bool" where
  "restored_on_record s i \<longleftrightarrow> (\<exists>op. recorded s i op \<and> op_ID op = i \<and> op_Restored op \<noteq> None)"

lemma restored_update:
  assumes "restored_on_record s i" "\<not> interrupted s i" "updateLocked env i m s = (r, s')"
    "\<And>op. op_ID (m op) = op_ID op" "\<And>op. op_Restored op \<noteq> None \<Longrightarrow> op_Restored (m op) \<noteq> None"
  shows "restored_on_record s' i"
proof -
  obtain op where "recorded s i op" "op_ID op = i" "op_Restored op \<noteq> None" using assms(1) by (auto simp: restored_on_record_def)
  then have "recorded s' i op \<or> (\<exists>t. recorded s' i ((m op)\<lparr>op_UpdatedAt := t\<rparr>))" "op_ID (m op) = i" "op_Restored (m op) \<noteq> None"
    using updateLocked_file [OF assms(2) _ _ assms(4,3), of op] assms(4,5) by auto
  then show ?thesis using \<open>op_ID op = i\<close> \<open>op_Restored op \<noteq> None\<close> unfolding restored_on_record_def by fastforce
qed

lemma restored_quiet: "quiet s s' \<Longrightarrow> runs_op s i \<Longrightarrow> restored_on_record s i \<Longrightarrow> restored_on_record s' i"
  using runs_file by (auto simp: restored_on_record_def)

lemma restored_settle:
  assumes "restored_on_record s i" "\<not> interrupted s i"
    "\<And>op. op_ID (m op) = op_ID op" "\<And>op. op_Restored op \<noteq> None \<Longrightarrow> op_Restored (m op) \<noteq> None"
  shows "restored_on_record (snd (Settle env i m s)) i"
proof -
  let ?s = "s\<lparr>st_unsettled := AList.update i m (st_unsettled s)\<rparr>"
  obtain r s' where u: "updateLocked env i m ?s = (r, s')" by fastforce
  have "restored_on_record ?s i" "\<not> interrupted ?s i"
    using assms(1,2) by (auto simp: restored_on_record_def file_at_def interrupted_def)
  then have "restored_on_record s' i" using restored_update [OF _ _ u assms(3,4)] by blast
  then show ?thesis using u
    by (auto simp: Settle_def settleLocked_def update_conv' restored_on_record_def file_at_def Let_def split: sum.splits)
qed

lemma restored_is_progress: "keeps_running (\<lambda>op. op\<lparr>op_Restored := r\<rparr>)"
  by (simp add: keeps_running_def same_identity_def)

lemma record_state_eq:
  "snd (record_state G env i st s) = snd (Update env i (\<lambda>op. op\<lparr>op_State := st\<rparr>) s)"
  by (auto simp: record_state_def split: prod.splits sum.splits)

lemma Update_runs_snd: "runs_op s i \<Longrightarrow> keeps_running m \<Longrightarrow> runs_op (snd (Update env i m s)) i"
  using Update_runs by (metis prod.collapse)

interpretation run_kept: run_store G env i "\<lambda>s. runs_op s i" for G env i
  by unfold_locales
    (auto simp: record_state_eq op_lookup.lookup_keeps intro!: Update_runs_snd progress_state restored_is_progress)

interpretation restored_kept: run_store G env i "\<lambda>s. runs_op s i \<and> restored_on_record s i" for G env i
proof
  fix s j st r
  assume s: "runs_op s i \<and> restored_on_record s i"
  then have ok: "store_ok s" "\<not> interrupted s i" by (auto simp: runs_op_def)
  have up: "restored_on_record (snd (Update env i m s)) i"
    if "\<And>op. op_ID (m op) = op_ID op" "\<And>op. op_Restored op \<noteq> None \<Longrightarrow> op_Restored (m op) \<noteq> None" for m
    using restored_update [OF _ ok(2) _ that] s by (metis Update_def prod.collapse)
  show "runs_op (snd (Get env j s)) i \<and> restored_on_record (snd (Get env j s)) i"
    using s restored_quiet [OF Get_quiet [OF _ ok(1)]] op_lookup.lookup_keeps by (metis prod.collapse)
  show "runs_op (snd (Update env i (\<lambda>op. op\<lparr>op_Restored := Some r\<rparr>) s)) i \<and>
      restored_on_record (snd (Update env i (\<lambda>op. op\<lparr>op_Restored := Some r\<rparr>) s)) i"
    using s up Update_runs_snd restored_is_progress by simp
  assume "\<not> IsTerminal st"
  then show "runs_op (snd (record_state G env i st s)) i \<and> restored_on_record (snd (record_state G env i st s)) i"
    using s up Update_runs_snd progress_state by (simp add: record_state_eq)
qed

lemma restored_recorded:
  assumes "Update env i (\<lambda>op. op\<lparr>op_Restored := Some r\<rparr>) s = (Inr op', s')"
  shows "restored_on_record s' i"
proof -
  let ?m = "\<lambda>op. op\<lparr>op_Restored := Some r\<rparr>"
  obtain op s1 where op: "readLocked env i s = (Inr op, s1)"
    using assms by (auto simp: Update_def updateLocked_def split: prod.splits sum.splits)
  let ?op = "(?m op)\<lparr>op_UpdatedAt := io_now (outcome env s1)\<rparr>"
  have w: "writeLocked env ?op s1 = (None, s')"
    using assms op by (auto simp: Update_def updateLocked_def Let_def split: prod.splits option.splits)
  have "op_ID op = i" using readLocked_post [OF op] by (simp add: read_post_def)
  then show ?thesis using writeLocked_file [OF w] by (auto simp: restored_on_record_def intro!: exI [of _ ?op])
qed

lemma adopt_recorded:
  assumes "adoptRestored printable text env faults root i d s = (Inr (Some restored), acts, s')"
  shows "restored_on_record s' i"
  using assms restored_recorded
  by (auto simp: adoptRestored_def split: if_splits option.splits sum.splits prod.splits)

subsection \<open>A restore that runs ends\<close>

definition is_start_command :: "string list \<Rightarrow> bool" where
  "is_start_command c \<longleftrightarrow> c = [''cubrid'', ''heartbeat'', ''start''] \<or> (\<exists>d. c = [''cubrid'', ''server'', ''start'', d])"

text \<open>When a start command may run: the manager is not stopping, and heartbeat was seen down in two rounds.\<close>

definition may_start :: "start_io \<Rightarrow> string list \<Rightarrow> bool" where
  "may_start io c \<longleftrightarrow>
     \<not> lf_stopping (si_life io) \<and> \<not> fst (honorRecordedStop (si_stop_file io) (si_life io)) \<and>
     (c = [''cubrid'', ''heartbeat'', ''start''] \<longrightarrow>
        quiet_round (sf_first (si_heartbeat io)) \<and> sf_wait (si_heartbeat io) = None \<and> quiet_round (sf_second (si_heartbeat io)))"

definition starts_only :: "start_io \<Rightarrow> restore_event list \<Rightarrow> bool" where
  "starts_only io evs \<longleftrightarrow> (\<forall>e \<in> set evs. \<exists>c. e = Command c \<and> is_start_command c \<and> may_start io c)"

lemma activate_starts:
  assumes "is_start_command (''cubrid'' # args)"
    "args = [''heartbeat'', ''start''] \<Longrightarrow> hb_startable (observeStartable (si_heartbeat io))"
  shows "starts_only io (snd (activate (si_stop_file io) (si_life io) (si_cli io) args))"
  using assms by (auto simp: activate_def starts_only_def may_start_def observeStartable_startable)

lemma start_with_starts:
  assumes "is_start_command (''cubrid'' # args)"
    "args = [''heartbeat'', ''start''] \<Longrightarrow> hb_startable (observeStartable (si_heartbeat io))"
  shows "starts_only io (fst (snd (start_with io before args what s)))"
  using activate_starts [OF assms]
  by (auto simp: start_with_def starts_only_def split: prod.splits option.splits)

lemma start_starts: "starts_only io (fst (snd (startRestoredDatabase printable io sdb d ha before s)))"
proof -
  have server: "starts_only io (fst (snd (start_with io before [''server'', ''start'', d] what s)))" for what s
    by (rule start_with_starts) (auto simp: is_start_command_def)
  have hb: "starts_only io (fst (snd (start_heartbeat io before s)))" for s
    using start_with_starts [of "[''heartbeat'', ''start'']" io before]
    by (auto simp: start_heartbeat_def Let_def is_start_command_def starts_only_def split: option.splits)
  let ?first = "if sdb \<noteq> [] then start_with io before [''server'', ''start'', d] ''server start'' s else (None, [], s)"
  obtain e evs s1 where first: "?first = (e, evs, s1)" by (metis prod_cases3)
  have "starts_only io (fst (snd ?first))" using server by (simp add: starts_only_def)
  then have evs: "starts_only io evs" unfolding first by simp
  obtain e' evs' s2 where second: "start_heartbeat io before s1 = (e', evs', s2)" by (metis prod_cases3)
  then have "starts_only io evs'" using hb [of s1] by simp
  then show ?thesis unfolding startRestoredDatabase_def first using evs second
    by (auto simp: starts_only_def split: option.split)
qed

text \<open>Events ahead of the start: no end and no start command.\<close>

definition calm :: "restore_event list \<Rightarrow> bool" where
  "calm evs \<longleftrightarrow> (\<forall>st. Finished st \<notin> set evs) \<and> (\<forall>c. Command c \<in> set evs \<longrightarrow> \<not> is_start_command c)"

lemma calm_simps [simp]:
  "calm []" "calm (xs @ ys) \<longleftrightarrow> calm xs \<and> calm ys" "calm (map Root acts)" "calm (map Stage sacts)" "calm [RemoveStaging]"
  "calm (Command c # evs) \<longleftrightarrow> \<not> is_start_command c \<and> calm evs"
  by (auto simp: calm_def)

lemma restore_command_is_no_start [simp]: "\<not> is_start_command (''cubrid'' # restore_command req dir)"
  by (simp add: is_start_command_def restore_command_def)

lemma restore_into_calm: "calm (snd (restore_into G rio roots req t d root m))"
  by (auto simp: restore_into_def Let_def split: prod.splits option.splits)

lemma stage_calm: "calm (fst (snd (stage_and_restore G rio roots req t d before root s)))"
  using restore_into_calm [of G rio roots req t d root]
  by (auto simp: stage_and_restore_def split: prod.splits option.splits sum.splits) (metis snd_conv)+

lemma Restore_calm:
  assumes "Restore G rio roots req before root s = (r, evs, s')"
  shows "calm evs"
  using assms
proof (cases rule: Restore_cases)
  case (went_on t d evs')
  then show ?thesis using stage_calm [of G rio roots req t d before root s] by auto
qed simp

text \<open>A result of a run: one end, with what it left in the store, and only starts that were allowed.\<close>

definition ends_restore :: "restore_world \<Rightarrow> string \<Rightarrow> restore_event list \<times> store \<Rightarrow> bool" where
  "ends_restore W i r \<longleftrightarrow>
     (\<exists>evs started st cleared s'.
        r = (evs @ started @ [Finished st] @ map Root cleared, s') \<and> calm evs \<and> starts_only (rw_start W) started \<and>
        st \<in> {OpCompleted, OpFailed} \<and> (cleared \<noteq> [] \<longrightarrow> st = OpCompleted) \<and> store_ok s' \<and> over s' i \<and>
        (started \<noteq> [] \<or> st = OpCompleted \<longrightarrow> restored_on_record s' i))"

lemma fail_run_ends: "store_ok s \<Longrightarrow> calm evs \<Longrightarrow> ends_restore W i (fail_run (rw_life W) env i reason evs s)"
  unfolding ends_restore_def fail_run_def
  by (rule exI [of _ evs], rule exI [of _ "[]"], rule exI [of _ OpFailed], rule exI [of _ "[]"])
     (simp add: Settle_over [OF _ end_failed] starts_only_def)

lemma start_and_end_ends:
  assumes s: "runs_op s i \<and> restored_on_record s i" and calm: "calm evs"
  shows "ends_restore W i (start_and_end G env W i req restored evs s)"
proof -
  let ?go = "startRestoredDatabase (rg_printable G) (rw_start W) (rw_standaloneDB W) (rr_Database req) (rw_standaloneDB W = [])
    (record_state G env i OpStarting) s"
  obtain e evs' s1 where go: "?go = (e, evs', s1)" by (metis prod_cases3)
  have starts: "starts_only (rw_start W) evs'" using start_starts by (metis go fst_conv snd_conv)
  have "runs_op (snd (snd ?go)) i \<and> restored_on_record (snd (snd ?go)) i"
    by (rule restored_kept.start_keeps [OF s]) (rule restored_kept.state_keeps; simp)
  then have s1: "runs_op s1 i" "restored_on_record s1 i" unfolding go by auto
  then have ok: "store_ok s1" "\<not> interrupted s1 i" by (auto simp: runs_op_def)
  have settled: "restored_on_record (snd (Settle env i m s1)) i"
    if "m = (\<lambda>op. op\<lparr>op_State := st, op_FailureReason := reason\<rparr>) \<or> m = (\<lambda>op. op\<lparr>op_State := st, op_Artifact := art\<rparr>)" for m st reason art
    by (rule restored_settle [OF s1(2) ok(2)]) (use that in auto)
  show ?thesis
  proof (cases e)
    case (Some t)
    let ?m = "\<lambda>op. op\<lparr>op_State := OpFailed, op_FailureReason := stoppingReason (rw_life W) t\<rparr>"
    have "start_and_end G env W i req restored evs s = (evs @ evs' @ [Finished OpFailed] @ map Root [], snd (Settle env i ?m s1))"
      by (simp add: start_and_end_def go Some fail_run_def)
    then show ?thesis unfolding ends_restore_def
      using calm starts Settle_over [OF ok(1) end_failed] settled [of ?m] by blast
  next
    case None
    let ?m = "\<lambda>op. op\<lparr>op_State := OpCompleted, op_Artifact := Some restored\<rparr>"
    obtain cleared where "start_and_end G env W i req restored evs s =
        (evs @ evs' @ [Finished OpCompleted] @ map Root cleared, snd (Settle env i ?m s1))"
      by (cases "Settle env i ?m s1"; cases "fst (Settle env i ?m s1)") (auto simp: start_and_end_def go None)
    then show ?thesis unfolding ends_restore_def
      using calm starts Settle_over [OF ok(1) end_completed] settled [of ?m] by blast
  qed
qed

lemma record_state_runs: "runs_op s i \<Longrightarrow> \<not> IsTerminal st \<Longrightarrow> record_state G env i st s = (e, s') \<Longrightarrow> runs_op s' i"
  using run_kept.state_keeps [of s i st G env] by simp

lemma restore_and_record_ends:
  assumes "runs_op s i" "calm evs"
  shows "ends_restore W i (restore_and_record G env W roots i req root evs s)"
proof -
  obtain e acts s1 where reclaim: "reclaimIncomplete (rg_printable G) (rg_store_text G) state_string env (rw_reclaim W)
      (rs_part (rw_restore W)) (rt_Target roots) root (rr_Database req) s = (e, acts, s1)" by (metis prod_cases3)
  have s1: "runs_op s1 i" using run_kept.reclaim_keeps_store [OF assms(1)] by (metis reclaim snd_conv)
  obtain r evs' s2 where r: "Restore G (rw_restore W) roots req (record_state G env i OpRestoring) (apply_root root acts) s1 = (r, evs', s2)"
    by (metis prod_cases3)
  have s2: "runs_op s2 i" by (rule run_kept.restore_keeps [OF s1 _ r]) (rule run_kept.state_keeps; simp)
  have calm: "calm (evs @ map Root acts @ evs')" using assms(2) Restore_calm [OF r] by simp
  have ok: "store_ok s1" "store_ok s2" using s1 s2 by (auto simp: runs_op_def)
  show ?thesis
  proof (cases "e = None \<and> \<not> isl r")
    case True
    then obtain res where res: "r = Inr res" by (cases r) auto
    let ?restored = "\<lparr>art_ManifestURI = rres_ManifestURI res, art_ManifestDigest = [], art_SizeBytes = 0,
      art_Database = rres_Database res, art_CubridVersion = rres_CubridVersion res, art_Level = 0\<rparr>"
    obtain u s3 where u: "Update env i (\<lambda>op. op\<lparr>op_Restored := Some ?restored\<rparr>) s2 = (u, s3)" by fastforce
    have s3: "runs_op s3 i" by (rule Update_runs [OF s2 restored_is_progress u])
    show ?thesis
    proof (cases u)
      case (Inl x)
      then show ?thesis using True reclaim r res u fail_run_ends [OF _ calm] s3
        by (simp add: restore_and_record_def runs_op_def)
    next
      case (Inr op)
      then have "runs_op s3 i \<and> restored_on_record s3 i" using s3 restored_recorded u by blast
      then show ?thesis using True reclaim r res u Inr start_and_end_ends [OF _ calm]
        by (simp add: restore_and_record_def)
    qed
  next
    case False
    then show ?thesis using reclaim r fail_run_ends [OF ok(2) calm] fail_run_ends [OF ok(1), of "evs @ map Root acts"] assms(2)
      by (auto simp: restore_and_record_def split: option.split sum.splits restore_error.split)
  qed
qed

lemma runRestore_ends:
  assumes "runs_op s i"
  shows "ends_restore W i (runRestore G env W roots i req root s)"
proof -
  obtain e s1 where st: "record_state G env i OpDownloading s = (e, s1)" by fastforce
  have s1: "runs_op s1 i" by (rule record_state_runs [OF assms _ st]) simp
  obtain a acts s2 where ad: "adoptRestored (rg_printable G) (rg_store_text G) env (rw_adopt W) root i (rr_Database req) s1 = (a, acts, s2)"
    by (metis prod_cases3)
  have s2: "runs_op s2 i" using run_kept.adopt_keeps [OF s1] by (metis ad snd_conv)
  have ok: "store_ok s" "store_ok s1" "store_ok s2" using assms s1 s2 by (auto simp: runs_op_def)
  have fails: "ends_restore W i (fail_run (rw_life W) env i reason [] s)" "ends_restore W i (fail_run (rw_life W) env i reason [] s1)"
    "ends_restore W i (fail_run (rw_life W) env i reason (map Root acts) s2)" for reason
    using ok by (auto intro!: fail_run_ends)
  have started: "ends_restore W i (start_and_end G env W i req restored (map Root acts) s2)" if "a = Inr (Some restored)" for restored
    using s2 adopt_recorded [OF ad [unfolded that]] by (intro start_and_end_ends) auto
  have went: "ends_restore W i (restore_and_record G env W roots' i req root' (map Root acts) s2)" for roots' root'
    using s2 by (intro restore_and_record_ends) auto
  show ?thesis
    by (simp add: runRestore_def Let_def st ad fails started went split: sum.split option.split)
qed

text \<open>
  C29. A restore that runs ends. Whatever the store, the disk, the object store and the commands answer, the run
  ends once, as completed or failed, and after it the operation is over in the store. Nothing follows the end
  but the removal of the marker of a completed restore. CUBRID is started last, and only when the record of the
  operation says that the data is restored, as it does for a completed restore: the manager is not stopping,
  no stop was requested, and heartbeat is started only after two quiet rounds.
\<close>

theorem a_restore_that_runs_ends:
  assumes "runs_op s i"
  shows "\<exists>evs started st cleared s'.
    runRestore G env W roots i req root s = (evs @ started @ [Finished st] @ map Root cleared, s') \<and>
    calm evs \<and> starts_only (rw_start W) started \<and> st \<in> {OpCompleted, OpFailed} \<and> (cleared \<noteq> [] \<longrightarrow> st = OpCompleted) \<and>
    store_ok s' \<and> over s' i \<and> (started \<noteq> [] \<or> st = OpCompleted \<longrightarrow> restored_on_record s' i)"
  using runRestore_ends [OF assms] by (simp only: ends_restore_def)

subsection \<open>What the restore command runs on\<close>

fun root_action :: "restore_event \<Rightarrow> fs_action list" where
  "root_action (Root a) = [a]"
| "root_action _ = []"

fun stage_actions_of :: "restore_event \<Rightarrow> stage_action list" where
  "stage_actions_of (Stage a) = [a]"
| "stage_actions_of _ = []"

definition root_actions :: "restore_event list \<Rightarrow> fs_action list" where
  "root_actions evs = concat (map root_action evs)"

definition stage_actions :: "restore_event list \<Rightarrow> stage_action list" where
  "stage_actions evs = concat (map stage_actions_of evs)"

lemma actions_simps [simp]:
  "root_actions (xs @ ys) = root_actions xs @ root_actions ys" "stage_actions (xs @ ys) = stage_actions xs @ stage_actions ys"
  "root_actions (map Root acts) = acts" "root_actions (map Stage sacts) = []"
  "stage_actions (map Root acts) = []" "stage_actions (map Stage sacts) = sacts"
  by (simp_all add: root_actions_def stage_actions_def comp_def)

definition no_command :: "restore_event list \<Rightarrow> bool" where
  "no_command evs \<longleftrightarrow> (\<forall>c. Command c \<notin> set evs)"

definition only_starts :: "restore_event list \<Rightarrow> bool" where
  "only_starts evs \<longleftrightarrow> (\<forall>c. Command c \<in> set evs \<longrightarrow> is_start_command c)"

lemma command_simps [simp]:
  "no_command []" "no_command (xs @ ys) \<longleftrightarrow> no_command xs \<and> no_command ys" "no_command (map Root acts)" "no_command (map Stage sacts)"
  "only_starts []" "only_starts (xs @ ys) \<longleftrightarrow> only_starts xs \<and> only_starts ys" "only_starts (map Root acts)" "only_starts (map Stage sacts)"
  "only_starts (Finished st # evs) \<longleftrightarrow> only_starts evs" "only_starts [RemoveStaging]"
  by (auto simp: no_command_def only_starts_def)

lemma starts_only_only: "starts_only io evs \<Longrightarrow> only_starts evs"
  by (auto simp: starts_only_def only_starts_def)

text \<open>At most one command that starts nothing, and it has the property \<open>Q\<close> where it runs.\<close>

definition one_restore :: "(restore_event list \<Rightarrow> string list \<Rightarrow> bool) \<Rightarrow> restore_event list \<Rightarrow> bool" where
  "one_restore Q evs \<longleftrightarrow>
     only_starts evs \<or> (\<exists>pre c post. evs = pre @ Command c # post \<and> no_command pre \<and> only_starts post \<and> Q pre c)"

lemma one_restore_calm: "only_starts evs \<Longrightarrow> one_restore Q evs"
  by (simp add: one_restore_def)

lemma one_restore_more: "one_restore Q evs \<Longrightarrow> only_starts zs \<Longrightarrow> one_restore Q (evs @ zs)"
  unfolding one_restore_def by (metis append.assoc append_Cons command_simps(6))

lemma one_restore_before:
  assumes "one_restore Q evs" "no_command first" "\<And>pre c. Q pre c \<Longrightarrow> Q' (first @ pre) c"
  shows "one_restore Q' (first @ evs)"
proof -
  have "only_starts first" using assms(2) by (auto simp: no_command_def only_starts_def)
  then show ?thesis using assms unfolding one_restore_def by (metis append.assoc command_simps(2,6))
qed

lemma one_restore_where:
  assumes "one_restore Q (pre @ Command c # post)" "\<not> is_start_command c"
  shows "Q pre c \<and> no_command pre \<and> only_starts post"
proof -
  obtain pre' c' post' where eq: "pre @ Command c # post = pre' @ Command c' # post'"
    and q: "no_command pre'" "only_starts post'" "Q pre' c'"
    using assms by (auto simp: one_restore_def only_starts_def)
  have "Command c \<notin> set pre'" "Command c \<notin> set post'" using q assms(2) by (auto simp: no_command_def only_starts_def)
  moreover from this have "c' = c" using eq by (metis append_Cons in_set_conv_decomp restore_event.inject(3) set_ConsD Un_iff set_append)
  ultimately have "pre = pre'" "post = post'" using eq append_Cons_eq_iff [of "Command c" pre' post' pre post] by auto
  then show ?thesis using q \<open>c' = c\<close> by simp
qed

lemma attempt_None: "attempt faults n w acts = (None, acts') \<longleftrightarrow> faults n = None \<and> acts' = acts"
  by (auto simp: attempt_def split: option.splits)

lemma markOwned_None:
  assumes "markOwned faults d owner = (None, acts)" "owner \<noteq> []"
  shows "acts = [PutEntry d ownershipMarker (owner @ [newline])]"
  using assms by (auto simp: markOwned_def attempt_def Let_def split: option.splits)

lemma register_marks:
  assumes reg: "registerRestoreTarget printable faults part t rt d host hn owner = (None, acts)" and owner: "owner \<noteq> []"
  shows "rt_dirs rt d = None" "marker_of (changes rt acts) d = Some (owner @ [newline])" "faults ''open the root'' = None"
proof -
  obtain e marked where m: "markOwned faults d owner = (e, marked)" by fastforce
  obtain l lob where l: "attempt faults ''make the lob directory'' (''create '' @ d @ ''/lob in '' @ t) [PutEntry d ''lob'' []] = (l, lob)"
    by fastforce
  have "\<exists>content. rt_dirs rt d = None \<and> faults ''open the root'' = None \<and> e = None \<and> l = None \<and>
      acts = [MakeDir d] @ marked @ lob @ [WriteTxt content]"
    using reg m l by (cases e; cases l; simp add: registerRestoreTarget_def Let_def attempt_None split: if_split_asm sum.split_asm option.split_asm prod.split_asm; blast)
  then show "rt_dirs rt d = None" "marker_of (changes rt acts) d = Some (owner @ [newline])" "faults ''open the root'' = None"
    using markOwned_None [of faults d owner marked] owner m l by (auto simp: attempt_None marker_of_def ownershipMarker_def)
qed

text \<open>The moment at which the restore command runs, after the changes \<open>pre\<close> to the root \<open>rt\<close>.\<close>

definition ready_to_restore ::
  "restore_setting \<Rightarrow> restore_io \<Rightarrow> RestoreRoots \<Rightarrow> RestoreRequest \<Rightarrow> dbroot option \<Rightarrow> restore_event list \<Rightarrow> string list \<Rightarrow> bool" where
  "ready_to_restore G io roots req root pre c \<longleftrightarrow>
     (\<exists>rt t d m earlier later.
        root = Some rt \<and> confine (rg_printable G) req roots = Inr (t, d) \<and>
        c = ''cubrid'' # restore_command req (Join [d, ''backup'']) \<and>
        VerifyArtifact (rg_printable G) (rg_sha G) (rg_decode G) (read_of (rs_get io)) (rr_Prefix req)
          (restoreExpectation req (rt_EngineVersion roots)) = Inr m \<and>
        staged_after (stage_actions pre) =
          (\<lambda>key. if key \<in> mo_Key ` set (bm_Objects m) then Some (projr (read_of (rs_get io) (Join [rr_Prefix req, key]))) else None) \<and>
        root_actions pre = earlier @ later \<and>
        rt_dirs (changes rt earlier) (rr_Database req) = None \<and> \<not> is_registered (changes rt earlier) (rr_Database req) \<and>
        marker_of (changes rt (earlier @ later)) (rr_Database req) = Some (rt_Owner roots @ [newline]))"

lemma Restore_one:
  assumes r: "Restore G rio roots req before root s = (r, evs, s')" and owner: "rt_Owner roots \<noteq> []"
  shows "one_restore (ready_to_restore G rio roots req root) evs"
  using r
proof (cases rule: Restore_cases)
  case refused
  then show ?thesis by (simp add: one_restore_calm)
next
  case (went_on t d evs')
  obtain m0 sacts where st: "stageArtifact (rg_printable G) (rg_sha G) (rg_decode G) (rs_stage rio) (rs_get rio) (rr_Prefix req)
      (restoreExpectation req (rt_EngineVersion roots)) = (m0, sacts)" by fastforce
  obtain e acts where reg: "registerRestoreTarget (rg_printable G) (root_faults root (rs_faults rio)) (rs_part rio) t (root_of root)
      (rr_Database req) (rt_Host roots) (rs_hostname rio) (rt_Owner roots) = (e, acts)" by fastforce
  let ?c = "''cubrid'' # restore_command req (Join [d, ''backup''])"
  have "only_starts evs' \<or> (\<exists>m post. m0 = Inr m \<and> e = None \<and> only_starts post \<and>
      evs' = (map Stage sacts @ map Root acts) @ Command ?c # post)"
    using went_on(6) st reg
    by (auto simp: stage_and_restore_def restore_into_def Let_def split: sum.splits option.splits prod.splits)
  then show ?thesis
  proof
    assume "only_starts evs'"
    then show ?thesis using went_on(7) by (simp add: one_restore_calm)
  next
    assume "\<exists>m post. m0 = Inr m \<and> e = None \<and> only_starts post \<and> evs' = (map Stage sacts @ map Root acts) @ Command ?c # post"
    then obtain m post where p: "m0 = Inr m" "e = None" "only_starts post" "evs' = (map Stage sacts @ map Root acts) @ Command ?c # post"
      by blast
    note marks = register_marks [OF reg [unfolded p(2)] owner]
    obtain rt where rt: "root = Some rt" using marks(3) by (cases root) (auto simp: root_faults_def)
    have "ready_to_restore G rio roots req root (map Stage sacts @ map Root acts) ?c"
      unfolding ready_to_restore_def
      by (rule exI [of _ rt], rule exI [of _ t], rule exI [of _ d], rule exI [of _ m], rule exI [of _ "[]"], rule exI [of _ acts])
         (use rt went_on(2,5) stageArtifact_Inr [OF st [unfolded p(1)]] marks(1,2) in \<open>simp add: root_of_def\<close>)
    then have "one_restore (ready_to_restore G rio roots req root) evs'"
      unfolding one_restore_def p(4) using p(3) by (metis command_simps(2,3,4))
    then show ?thesis unfolding went_on(7) by (rule one_restore_more) simp
  qed
qed

lemma ready_later:
  assumes "ready_to_restore G rio roots req (apply_root root acts) pre c"
  shows "ready_to_restore G rio roots req root (map Root acts @ pre) c"
proof -
  obtain rt t d m earlier later where *: "root = Some rt" "confine (rg_printable G) req roots = Inr (t, d)"
    "c = ''cubrid'' # restore_command req (Join [d, ''backup''])"
    "VerifyArtifact (rg_printable G) (rg_sha G) (rg_decode G) (read_of (rs_get rio)) (rr_Prefix req)
       (restoreExpectation req (rt_EngineVersion roots)) = Inr m"
    "staged_after (stage_actions pre) =
       (\<lambda>key. if key \<in> mo_Key ` set (bm_Objects m) then Some (projr (read_of (rs_get rio) (Join [rr_Prefix req, key]))) else None)"
    "root_actions pre = earlier @ later"
    "rt_dirs (changes (changes rt acts) earlier) (rr_Database req) = None"
    "\<not> is_registered (changes (changes rt acts) earlier) (rr_Database req)"
    "marker_of (changes (changes rt acts) (earlier @ later)) (rr_Database req) = Some (rt_Owner roots @ [newline])"
    using assms by (auto simp: ready_to_restore_def apply_root_def)
  show ?thesis unfolding ready_to_restore_def
    by (rule exI [of _ rt], rule exI [of _ t], rule exI [of _ d], rule exI [of _ m], rule exI [of _ "acts @ earlier"], rule exI [of _ later])
       (use * in \<open>simp add: changes_append\<close>)
qed

lemma fail_run_more: "fst (fail_run life env i reason evs s) = evs @ [Finished OpFailed]"
  by (simp add: fail_run_def)

lemma start_and_end_more: "\<exists>zs. fst (start_and_end G env W i req restored evs s) = evs @ zs \<and> only_starts zs"
proof -
  let ?go = "startRestoredDatabase (rg_printable G) (rw_start W) (rw_standaloneDB W) (rr_Database req) (rw_standaloneDB W = [])
    (record_state G env i OpStarting) s"
  obtain e evs' s1 where go: "?go = (e, evs', s1)" by (metis prod_cases3)
  have "only_starts evs'" using start_starts starts_only_only by (metis go fst_conv snd_conv)
  moreover obtain u s2 where u: "Settle env i (\<lambda>op. op\<lparr>op_State := OpCompleted, op_Artifact := Some restored\<rparr>) s1 = (u, s2)" by fastforce
  ultimately show ?thesis
    by (cases e; cases u) (auto simp: start_and_end_def go fail_run_def)
qed

lemma one_restore_failed: "one_restore Q evs \<Longrightarrow> one_restore Q (fst (fail_run life env i reason evs s))"
  by (simp add: fail_run_more one_restore_more)

lemma one_restore_started: "one_restore Q evs \<Longrightarrow> one_restore Q (fst (start_and_end G env W i req restored evs s))"
  using start_and_end_more [of G env W i req restored evs s] one_restore_more by fastforce

lemma restore_and_record_one:
  assumes owner: "rt_Owner roots \<noteq> []"
  shows "one_restore (ready_to_restore G (rw_restore W) roots req root)
    (fst (restore_and_record G env W roots i req (apply_root root acts0) (map Root acts0) s))"
proof -
  let ?Q = "ready_to_restore G (rw_restore W) roots req root"
  obtain e acts s1 where reclaim: "reclaimIncomplete (rg_printable G) (rg_store_text G) state_string env (rw_reclaim W)
      (rs_part (rw_restore W)) (rt_Target roots) (apply_root root acts0) (rr_Database req) s = (e, acts, s1)" by (metis prod_cases3)
  let ?root = "apply_root (apply_root root acts0) acts"
  obtain r evs s2 where r: "Restore G (rw_restore W) roots req (record_state G env i OpRestoring) ?root s1 = (r, evs, s2)"
    by (metis prod_cases3)
  have root: "?root = apply_root root (acts0 @ acts)" by (simp add: apply_root_def option.map_comp comp_def changes_append)
  have "one_restore ?Q (map Root (acts0 @ acts) @ evs)"
    by (rule one_restore_before [OF Restore_one [OF r owner]]) (simp_all add: root ready_later)
  then have went: "one_restore ?Q (map Root acts0 @ map Root acts @ evs)" by simp
  have early: "one_restore ?Q (map Root acts0 @ map Root acts)" by (simp add: one_restore_calm)
  show ?thesis
    using one_restore_failed [OF went] one_restore_failed [OF early] one_restore_started [OF went]
    by (simp add: restore_and_record_def reclaim r Let_def split: option.split sum.split restore_error.split prod.split)
qed

lemma record_state_valid:
  assumes "record_state G env i st s = (None, s')"
  shows "i \<noteq> []"
proof -
  obtain op s1 where op: "readLocked env i s = (Inr op, s1)"
    using assms by (auto simp: record_state_def Update_def updateLocked_def split: prod.splits sum.splits)
  then have "isValidOperationID i" using readLocked_post [OF op] by (simp add: read_post_def)
  then show ?thesis by (auto simp: isValidOperationID_def)
qed

text \<open>
  C30. The restore command runs at most once, on verified data and into a new directory of the operation. When a
  run of a restore executes a command that starts nothing, the command is the restore of the requested database
  from the staging directory; the artifact verifies, for the engine of the member; the staging directory holds
  exactly the listed objects, as verified; before it was registered the database had neither a directory nor an
  entry in \<^verbatim>\<open>databases.txt\<close>; and its directory carries the marker of the operation. Every command after it starts
  CUBRID.
\<close>

theorem a_restore_command_runs_on_a_verified_artifact:
  assumes "runRestore G env W roots i req root s = (pre @ Command c # post, s')" "\<not> is_start_command c"
  shows "\<exists>host. ready_to_restore G (rw_restore W) (roots\<lparr>rt_Owner := i, rt_EngineVersion := rw_engine W, rt_Host := host\<rparr>) req root pre c \<and>
    no_command pre \<and> only_starts post"
proof -
  obtain e s1 where st: "record_state G env i OpDownloading s = (e, s1)" by fastforce
  obtain a acts s2 where ad: "adoptRestored (rg_printable G) (rg_store_text G) env (rw_adopt W) root i (rr_Database req) s1 = (a, acts, s2)"
    by (metis prod_cases3)
  let ?roots = "\<lambda>host. roots\<lparr>rt_Owner := i, rt_EngineVersion := rw_engine W, rt_Host := host\<rparr>"
  let ?Q = "\<lambda>host. ready_to_restore G (rw_restore W) (?roots host) req root"
  have fails: "one_restore (?Q host) (fst (fail_run (rw_life W) env i reason [] t))" "one_restore (?Q host) (fst (fail_run (rw_life W) env i reason (map Root acts) t))"
    "one_restore (?Q host) (fst (start_and_end G env W i req restored (map Root acts) t))" for host reason restored t
    by (simp_all add: one_restore_failed one_restore_started one_restore_calm)
  have went: "one_restore (?Q host) (fst (restore_and_record G env W (?roots host) i req (apply_root root acts) (map Root acts) s2))"
    if "e = None" for host
    using record_state_valid st that by (intro restore_and_record_one) auto
  have "\<exists>host. one_restore (?Q host) (fst (runRestore G env W roots i req root s))"
  proof (cases "if rw_standaloneDB W = [] then haHosts (rw_confPath W) (rw_conf W) else Inr (rt_Host roots)")
    case (Inl x)
    show ?thesis unfolding runRestore_def Inl using fails(1) by simp
  next
    case (Inr host)
    show ?thesis unfolding runRestore_def Inr
      by (rule exI [of _ host]) (simp add: Let_def st ad fails went split: sum.split option.split)
  qed
  then show ?thesis using one_restore_where [OF _ assms(2)] unfolding assms(1) by auto
qed

subsection \<open>A run\<close>

definition demo_get :: "string \<Rightarrow> download" where
  "demo_get key = (if key = ''p/manifest.json'' then Got ''json'' else if key = ''p/backup/f'' then Got ''xy'' else GetFailed ''no such key'')"

definition demo_rsetting :: restore_setting where
  "demo_rsetting = \<lparr>rg_printable = (\<lambda>_. True), rg_store_text = (\<lambda>_. []), rg_sha = (\<lambda>c. c), rg_decode = demo_unjson,
     rg_target_first = True\<rparr>"

definition demo_restore_io :: restore_io where
  "demo_restore_io = \<lparr>rs_faults = (\<lambda>_. None), rs_part = [], rs_hostname = Inr ''c-0'', rs_before = False, rs_stage = (\<lambda>_ _. None),
     rs_get = demo_get, rs_cli = (\<lambda>_. ([], None))\<rparr>"

definition demo_round :: round_facts where
  "demo_round = \<lparr>rf_status = (''++ cubrid heartbeat status'', None), rf_ctx = None, rf_processes = Inr [''cub_admin'']\<rparr>"

definition demo_start :: start_io where
  "demo_start = \<lparr>si_heartbeat = \<lparr>sf_first = demo_round, sf_wait = None, sf_second = demo_round\<rparr>, si_stop_file = NotExist,
     si_life = demo_life, si_cli = (\<lambda>_. ([], None))\<rparr>"

definition demo_rworld :: restore_world where
  "demo_rworld = \<lparr>rw_engine = ''11.4.6.1963'', rw_confPath = ''/c/cubrid_ha.conf'', rw_conf = Inr ''ha_node_list=g@c-0:c-1'',
     rw_standaloneDB = [], rw_adopt = (\<lambda>_. None), rw_reclaim = (\<lambda>_. None), rw_restore = demo_restore_io, rw_start = demo_start,
     rw_clear = (\<lambda>_. None), rw_life = demo_life\<rparr>"

definition demo_rroots :: RestoreRoots where
  "demo_rroots = \<lparr>rt_Target = ''/d'', rt_Staging = ''/r'', rt_Host = [], rt_Owner = [], rt_EngineVersion = []\<rparr>"

definition demo_rrequest :: RestoreRequest where
  "demo_rrequest = \<lparr>rr_Database = ''db'', rr_Bucket = ''b'', rr_Prefix = ''p'', rr_ExpectedCubridVersion = ''11.4'',
     rr_StagingDir = ''/r/x'', rr_TargetDir = ''/d'', rr_SeedFromMaster = [], rr_ExpectedClusterUID = []\<rparr>"

definition demo_rrun :: "restore_event list \<times> store" where
  "demo_rrun = runRestore demo_rsetting (demo_env 0) demo_rworld demo_rroots (operationID_of (\<lambda>i. i)) demo_rrequest
     (Some empty_root) (snd demo_first)"

definition demo_pre :: "restore_event list" where
  "demo_pre = [Stage (PutStaged ''backup/f'' ''xy''), Root (MakeDir ''db''),
     Root (PutEntry ''db'' ownershipMarker (operationID_of (\<lambda>i. i) @ [newline])), Root (PutEntry ''db'' ''lob'' []),
     Root (WriteTxt (add_entry [] ''db'' ''/d/db'' ''c-0:c-1''))]"

definition demo_restoredb :: "string list" where
  "demo_restoredb = [''cubrid'', ''restoredb'', ''-u'', ''-B'', ''/r/x/backup'', ''db'']"

definition demo_post :: "restore_event list" where
  "demo_post = [RemoveStaging, Command [''cubrid'', ''heartbeat'', ''start''], Finished OpCompleted, Root (RemoveEntries ''db'' [ownershipMarker])]"

lemma demo_rrun_events: "fst demo_rrun = demo_pre @ Command demo_restoredb # demo_post"
  by code_simp

theorem a_restore_that_runs_ends_witness:
  "\<exists>evs started st cleared s'.
    demo_rrun = (evs @ started @ [Finished st] @ map Root cleared, s') \<and> calm evs \<and> starts_only (rw_start demo_rworld) started \<and>
    st \<in> {OpCompleted, OpFailed} \<and> (cleared \<noteq> [] \<longrightarrow> st = OpCompleted) \<and> store_ok s' \<and> over s' (operationID_of (\<lambda>i. i)) \<and>
    (started \<noteq> [] \<or> st = OpCompleted \<longrightarrow> restored_on_record s' (operationID_of (\<lambda>i. i)))"
  unfolding demo_rrun_def by (rule a_restore_that_runs_ends [OF demo_running])

theorem a_restore_command_runs_on_a_verified_artifact_witness:
  "\<exists>host. ready_to_restore demo_rsetting (rw_restore demo_rworld)
      (demo_rroots\<lparr>rt_Owner := operationID_of (\<lambda>i. i), rt_EngineVersion := rw_engine demo_rworld, rt_Host := host\<rparr>) demo_rrequest
      (Some empty_root) demo_pre demo_restoredb \<and> no_command demo_pre \<and> only_starts demo_post"
proof (rule a_restore_command_runs_on_a_verified_artifact)
  show "runRestore demo_rsetting (demo_env 0) demo_rworld demo_rroots (operationID_of (\<lambda>i. i)) demo_rrequest (Some empty_root)
      (snd demo_first) = (demo_pre @ Command demo_restoredb # demo_post, snd demo_rrun)"
    using demo_rrun_events by (metis demo_rrun_def prod.collapse)
  show "\<not> is_start_command demo_restoredb" by (simp add: is_start_command_def demo_restoredb_def)
qed

theorem staging_is_verification_witness:
  "VerifyArtifact (\<lambda>_. True) (\<lambda>c. c) demo_unjson (read_of demo_get) ''p'' (restoreExpectation demo_rrequest ''11.4'') = Inr demo_manifest \<and>
   staged_after [PutStaged ''backup/f'' ''xy''] =
     (\<lambda>key. if key \<in> mo_Key ` set (bm_Objects demo_manifest) then Some (projr (read_of demo_get (Join [''p'', key]))) else None)"
proof -
  have "stageArtifact (\<lambda>_. True) (\<lambda>c. c) demo_unjson (\<lambda>_ _. None) demo_get ''p'' (restoreExpectation demo_rrequest ''11.4'') =
      (Inr demo_manifest, [PutStaged ''backup/f'' ''xy''])" by code_simp
  with staging_is_verification [of "\<lambda>_. True" "\<lambda>c. c" demo_unjson demo_get "''p''" "restoreExpectation demo_rrequest ''11.4''" demo_manifest]
  show ?thesis by blast
qed

end
