(* ===== verification/HABootstrap.thy ===== *)
theory HABootstrap
  imports RestoreRun
begin

section \<open>Bootstrapping an HA member\<close>

text \<open>
  \<^verbatim>\<open>internal/instancemanager/habootstrap.go\<close>: \<^verbatim>\<open>HAConfig\<close>, \<^verbatim>\<open>createHADatabase\<close> and \<^verbatim>\<open>runHABootstrap\<close>, the goroutine that
  creates the first database of an HA cluster and starts heartbeat. The events are those of a restore. What
  \<^verbatim>\<open>createdb\<close> itself does to the database root is not the manager's: it is the command in the events, and what
  is read from \<^verbatim>\<open>databases.txt\<close> after it failed is an answer of the world. The mutex of \<^verbatim>\<open>databases.txt\<close> is left
  out, as one run is described at a time.
\<close>

subsection \<open>The configuration and the creation\<close>

record HAConfig =
  ha_ConfPath :: string
  ha_VolumeSize :: string
  ha_LogVolumeSize :: string
  ha_Locale :: string

definition withDefaults :: "HAConfig \<Rightarrow> HAConfig" where
  "withDefaults c = c\<lparr>ha_VolumeSize := if ha_VolumeSize c = [] then ''512M'' else ha_VolumeSize c,
                      ha_Locale := if ha_Locale c = [] then ''en_US'' else ha_Locale c\<rparr>"

definition createdb_args :: "HAConfig \<Rightarrow> string \<Rightarrow> string \<Rightarrow> string \<Rightarrow> string list" where
  "createdb_args ha hosts dir database =
     [''createdb'', ''--db-volume-size='' @ ha_VolumeSize ha] @
     (if ha_LogVolumeSize ha \<noteq> [] then [''--log-volume-size='' @ ha_LogVolumeSize ha] else []) @
     [''--server-name='' @ hosts, ''-F'', dir, database, ha_Locale ha]"

text \<open>\<open>ci_txt_after\<close> is what reading \<^verbatim>\<open>databases.txt\<close> gives after \<^verbatim>\<open>createdb\<close> failed.\<close>

record create_io =
  ci_faults :: Ownership.faults
  ci_part :: "string list"
  ci_conf :: "string + string"
  ci_cli :: cli
  ci_txt_after :: "string + string option"

definition createHADatabase ::
  "(rune \<Rightarrow> bool) \<Rightarrow> create_io \<Rightarrow> string \<Rightarrow> HAConfig \<Rightarrow> dbroot option \<Rightarrow> string \<Rightarrow> string \<Rightarrow> string option \<times> restore_event list" where
  "createHADatabase printable io target ha root database owner =
     (case haHosts (ha_ConfPath ha) (ci_conf io) of
        Inl e \<Rightarrow> (Some e, [])
      | Inr hosts \<Rightarrow>
          (case ci_faults io ''make the root'' of
             Some (_, e) \<Rightarrow> (Some (''create the database root: '' @ e), [])
           | None \<Rightarrow>
               (case ci_faults io ''open the root'' of
                  Some (_, e) \<Rightarrow> (Some (''open the database root: '' @ e), [])
                | None \<Rightarrow>
                    (case ci_faults io ''make the directory'' of
                       Some (_, e) \<Rightarrow> (Some (''create the database directory: '' @ e), [])
                     | None \<Rightarrow>
                         if rt_dirs (root_of root) database \<noteq> None
                         then (Some (Join [target, database] @ '' exists although database '' @ quote printable database @
                                     '' is not registered; refusing to create over it''), [])
                         else
                           let take_back = snd (removeTree (ci_faults io) ''take the directory back'' [] (ci_part io) database)
                           in case markOwned (ci_faults io) database owner of
                                (Some e, acts) \<Rightarrow> (Some e, map Root ([MakeDir database] @ acts @ take_back))
                              | (None, acts) \<Rightarrow>
                                  let made = map Root ([MakeDir database] @ acts);
                                      c = ''cubrid'' # createdb_args ha hosts (Join [target, database]) database
                                  in case ci_cli io c of
                                       (out, Some err) \<Rightarrow>
                                         (Some (''createdb failed: '' @ err @ '': '' @ trim_space out),
                                          made @ [Command c] @
                                          map Root (if registeredInDatabasesTxt (ci_txt_after io) database = Inr False then take_back else []))
                                     | (out, None) \<Rightarrow>
                                         (case clearOwned (ci_faults io) database of
                                            (e, acts') \<Rightarrow> (e, made @ [Command c] @ map Root acts'))))))"

subsection \<open>The run\<close>

record boot_world =
  bo_target :: string
  bo_ha :: HAConfig
  bo_part :: "string list"
  bo_faults :: Ownership.faults
  bo_create :: create_io
  bo_start :: start_io
  bo_life :: life

text \<open>The last part: heartbeat, unless it runs in a confirmed role, and the end.\<close>

definition join_and_end :: "restore_setting \<Rightarrow> io \<Rightarrow> boot_world \<Rightarrow> string \<Rightarrow> restore_event list \<Rightarrow> store \<Rightarrow> restore_event list \<times> store" where
  "join_and_end G env W i evs s =
     (case start_heartbeat (bo_start W) (record_state G env i OpStarting) s of
        (Some e, evs', s') \<Rightarrow> fail_run (bo_life W) env i e (evs @ evs') s'
      | (None, evs', s') \<Rightarrow> (evs @ evs' @ [Finished OpCompleted], snd (Settle env i (\<lambda>op. op\<lparr>op_State := OpCompleted\<rparr>) s')))"

definition runHABootstrap ::
  "restore_setting \<Rightarrow> io \<Rightarrow> boot_world \<Rightarrow> string \<Rightarrow> HABootstrapRequest \<Rightarrow> dbroot option \<Rightarrow> store \<Rightarrow> restore_event list \<times> store" where
  "runHABootstrap G env W i req root s =
     (case reclaimIncomplete (rg_printable G) (rg_store_text G) state_string env (bo_faults W) (bo_part W) (bo_target W) root (hr_Database req) s of
        (Some e, acts, s1) \<Rightarrow> fail_run (bo_life W) env i e (map Root acts) s1
      | (None, acts, s1) \<Rightarrow>
          let root1 = apply_root root acts in
          case registeredInDatabasesTxt
                 (case bo_faults W ''open databases.txt'' of Some (_, e) \<Rightarrow> Inl e | None \<Rightarrow> Inr (rt_txt (root_of root1))) (hr_Database req) of
            Inl e \<Rightarrow> fail_run (bo_life W) env i e (map Root acts) s1
          | Inr True \<Rightarrow> join_and_end G env W i (map Root acts) s1
          | Inr False \<Rightarrow>
              (case record_state G env i OpCreating s1 of
                 (Some e, s2) \<Rightarrow> fail_run (bo_life W) env i e (map Root acts) s2
               | (None, s2) \<Rightarrow>
                   (case createHADatabase (rg_printable G) (bo_create W) (bo_target W) (bo_ha W) root1 (hr_Database req) i of
                      (Some e, evs) \<Rightarrow> fail_run (bo_life W) env i e (map Root acts @ evs) s2
                    | (None, evs) \<Rightarrow> join_and_end G env W i (map Root acts @ evs) s2)))"

subsection \<open>A bootstrap that runs ends\<close>

lemma withDefaults_idem: "withDefaults (withDefaults c) = withDefaults c"
  by (simp add: withDefaults_def)

lemma createdb_is_no_start [simp]: "\<not> is_start_command (''cubrid'' # createdb_args ha hosts dir database)"
  by (simp add: is_start_command_def createdb_args_def)

text \<open>The moment at which \<^verbatim>\<open>createdb\<close> runs, after the changes in \<open>pre\<close>.\<close>

definition ready_to_create ::
  "boot_world \<Rightarrow> string \<Rightarrow> HABootstrapRequest \<Rightarrow> dbroot option \<Rightarrow> restore_event list \<Rightarrow> string list \<Rightarrow> bool" where
  "ready_to_create W i req root pre c \<longleftrightarrow>
     (\<exists>hosts earlier later.
        haHosts (ha_ConfPath (bo_ha W)) (ci_conf (bo_create W)) = Inr hosts \<and>
        c = ''cubrid'' # createdb_args (bo_ha W) hosts (Join [bo_target W, hr_Database req]) (hr_Database req) \<and>
        root_actions pre = earlier @ later \<and>
        rt_dirs (changes (root_of root) earlier) (hr_Database req) = None \<and>
        \<not> is_registered (changes (root_of root) earlier) (hr_Database req) \<and>
        marker_of (changes (root_of root) (earlier @ later)) (hr_Database req) = Some (i @ [newline]))"

lemma create_shape:
  assumes "createHADatabase printable cio target ha root database owner = (e, evs)" "owner \<noteq> []"
  obtains (none) "no_command evs" "calm evs" "e \<noteq> None"
    | (ran) hosts later post where "evs = map Root later @ Command (''cubrid'' # createdb_args ha hosts (Join [target, database]) database) # post"
        "no_command post" "calm post" "haHosts (ha_ConfPath ha) (ci_conf cio) = Inr hosts" "rt_dirs (root_of root) database = None"
        "marker_of (changes (root_of root) later) database = Some (owner @ [newline])"
proof -
  let ?f = "ci_faults cio"
  obtain m acts where m: "markOwned ?f database owner = (m, acts)" by fastforce
  show ?thesis
  proof (cases "\<exists>hosts. haHosts (ha_ConfPath ha) (ci_conf cio) = Inr hosts \<and> ?f ''make the root'' = None \<and> ?f ''open the root'' = None \<and>
      ?f ''make the directory'' = None \<and> rt_dirs (root_of root) database = None \<and> m = None")
    case True
    then obtain hosts where t: "haHosts (ha_ConfPath ha) (ci_conf cio) = Inr hosts" "?f ''make the root'' = None"
      "?f ''open the root'' = None" "?f ''make the directory'' = None" "rt_dirs (root_of root) database = None" "m = None" by blast
    have acts: "acts = [PutEntry database ownershipMarker (owner @ [newline])]" using markOwned_None m t(6) assms(2) by blast
    let ?c = "''cubrid'' # createdb_args ha hosts (Join [target, database]) database"
    have "\<exists>post. evs = map Root (MakeDir database # acts) @ Command ?c # map Root post"
      using assms(1) m t by (auto simp: createHADatabase_def Let_def split: prod.splits option.splits)
    then obtain post where "evs = map Root (MakeDir database # acts) @ Command ?c # map Root post" by blast
    then show ?thesis using ran [of "MakeDir database # acts" hosts "map Root post"] t acts by (simp add: marker_of_def)
  next
    case False
    then have "no_command evs \<and> calm evs \<and> e \<noteq> None"
      using assms(1) m by (auto simp: createHADatabase_def Let_def no_command_def calm_def split: sum.splits option.splits if_splits)
    then show ?thesis using none by blast
  qed
qed

text \<open>Heartbeat runs in a confirmed role, so there is nothing to start.\<close>

definition joined :: "start_io \<Rightarrow> bool" where
  "joined sio \<longleftrightarrow> hb_running (observeStartable (si_heartbeat sio)) \<and> hs_Role (hb_status (observeStartable (si_heartbeat sio))) \<noteq> RoleUnknown"

definition ends_bootstrap :: "boot_world \<Rightarrow> string \<Rightarrow> HABootstrapRequest \<Rightarrow> dbroot option \<Rightarrow> restore_event list \<times> store \<Rightarrow> bool" where
  "ends_bootstrap W i req root r \<longleftrightarrow>
     (\<exists>evs started st s'.
        r = (evs @ started @ [Finished st], s') \<and>
        (no_command evs \<or> (\<exists>pre c post. evs = pre @ Command c # post \<and> no_command pre \<and> no_command post \<and> ready_to_create W i req root pre c)) \<and>
        calm evs \<and> starts_only (bo_start W) started \<and> st \<in> {OpCompleted, OpFailed} \<and>
        (st = OpCompleted \<longrightarrow> started = [Command [''cubrid'', ''heartbeat'', ''start'']] \<or> started = [] \<and> joined (bo_start W)) \<and>
        store_ok s' \<and> over s' i)"

lemma start_heartbeat_starts: "starts_only sio (fst (snd (start_heartbeat sio before s)))"
  using start_with_starts [of "[''heartbeat'', ''start'']" sio before]
  by (auto simp: start_heartbeat_def Let_def is_start_command_def starts_only_def split: option.splits)

lemma start_heartbeat_done:
  assumes "start_heartbeat sio before s = (None, evs, s')"
  shows "evs = [Command [''cubrid'', ''heartbeat'', ''start'']] \<or> evs = [] \<and> joined sio"
  using assms
  by (auto simp: start_heartbeat_def joined_def heartbeat_startError_def start_with_def activate_def Let_def
      split: option.splits prod.splits if_splits)

lemma end_completed_only: "is_end (\<lambda>op. op\<lparr>op_State := OpCompleted\<rparr>)"
  by (simp add: is_end_def same_identity_def)

text \<open>What is done ahead of the start: the creation, or no command.\<close>

definition created_well :: "boot_world \<Rightarrow> string \<Rightarrow> HABootstrapRequest \<Rightarrow> dbroot option \<Rightarrow> restore_event list \<Rightarrow> bool" where
  "created_well W i req root evs \<longleftrightarrow>
     calm evs \<and>
     (no_command evs \<or> (\<exists>pre c post. evs = pre @ Command c # post \<and> no_command pre \<and> no_command post \<and> ready_to_create W i req root pre c))"

lemma boot_fails:
  assumes "store_ok s" "created_well W i req root evs" "starts_only (bo_start W) begun"
  shows "ends_bootstrap W i req root (fail_run (bo_life W) env i reason (evs @ begun) s)"
  unfolding ends_bootstrap_def fail_run_def
  by (rule exI [of _ evs], rule exI [of _ begun], rule exI [of _ OpFailed])
     (use assms(2,3) Settle_over [OF assms(1) end_failed] in \<open>simp add: created_well_def\<close>)

lemma join_ends:
  assumes "runs_op s i" "created_well W i req root evs"
  shows "ends_bootstrap W i req root (join_and_end G env W i evs s)"
proof -
  let ?go = "start_heartbeat (bo_start W) (record_state G env i OpStarting) s"
  obtain e begun s1 where go: "?go = (e, begun, s1)" by (metis prod_cases3)
  have "runs_op (snd (snd ?go)) i"
    using run_kept.start_with_keeps [where before = "record_state G env i OpStarting", OF assms(1) run_kept.state_keeps] assms(1)
    by (auto simp: start_heartbeat_def Let_def split: option.splits)
  then have ok: "store_ok s1" unfolding go by (simp add: runs_op_def)
  have starts: "starts_only (bo_start W) begun" using start_heartbeat_starts by (metis go fst_conv snd_conv)
  show ?thesis
  proof (cases e)
    case None
    have "ends_bootstrap W i req root (evs @ begun @ [Finished OpCompleted], snd (Settle env i (\<lambda>op. op\<lparr>op_State := OpCompleted\<rparr>) s1))"
      unfolding ends_bootstrap_def
      by (rule exI [of _ evs], rule exI [of _ begun], rule exI [of _ OpCompleted])
         (use assms(2) starts start_heartbeat_done [OF go [unfolded None]] Settle_over [OF ok end_completed_only] in \<open>simp add: created_well_def\<close>)
    then show ?thesis by (simp add: join_and_end_def go None)
  next
    case (Some t)
    then show ?thesis using boot_fails [OF ok assms(2) starts] by (simp add: join_and_end_def go)
  qed
qed

lemma created_well_none: "created_well W i req root (map Root acts)"
  by (simp add: created_well_def)

lemma create_well:
  assumes create: "createHADatabase printable (bo_create W) (bo_target W) (bo_ha W) (apply_root root acts) (hr_Database req) i = (e, evs)"
    and i: "i \<noteq> []" and "\<not> is_registered (root_of (apply_root root acts)) (hr_Database req)" "root = None \<Longrightarrow> acts = []"
  shows "created_well W i req root (map Root acts @ evs)"
proof -
  have after: "changes (root_of (apply_root root acts)) xs = changes (root_of root) (acts @ xs)" for xs
    using assms(4) by (cases root) (auto simp: apply_root_def root_of_def changes_append)
  from create i show ?thesis
  proof (cases rule: create_shape)
    case none
    then show ?thesis using none by (simp add: created_well_def)
  next
    case (ran hosts later post)
    let ?c = "''cubrid'' # createdb_args (bo_ha W) hosts (Join [bo_target W, hr_Database req]) (hr_Database req)"
    have ready: "ready_to_create W i req root (map Root acts @ map Root later) ?c"
      unfolding ready_to_create_def
      by (rule exI [of _ hosts], rule exI [of _ acts], rule exI [of _ later])
         (use ran assms(3) after [of "[]"] after [of later] in simp)
    have eq: "map Root acts @ evs = (map Root acts @ map Root later) @ Command ?c # post" using ran(1) by simp
    have "calm (map Root acts @ evs)" unfolding eq using ran(3) by simp
    moreover have "\<exists>pre c post. map Root acts @ evs = pre @ Command c # post \<and> no_command pre \<and> no_command post \<and> ready_to_create W i req root pre c"
      by (rule exI [of _ "map Root acts @ map Root later"], rule exI [of _ ?c], rule exI [of _ post]) (use eq ran(2) ready in simp)
    ultimately show ?thesis unfolding created_well_def by blast
  qed
qed

lemma reclaim_no_root: "reclaimIncomplete printable text st_text env f part t None d s = (e, acts, s') \<Longrightarrow> acts = []"
  by (auto simp: reclaimIncomplete_def split: if_splits)

lemma runHABootstrap_ends:
  assumes "runs_op s i"
  shows "ends_bootstrap W i req root (runHABootstrap G env W i req root s)"
proof -
  obtain e acts s1 where reclaim: "reclaimIncomplete (rg_printable G) (rg_store_text G) state_string env (bo_faults W) (bo_part W)
      (bo_target W) root (hr_Database req) s = (e, acts, s1)" by (metis prod_cases3)
  have s1: "runs_op s1 i" using run_kept.reclaim_keeps_store [OF assms] by (metis reclaim snd_conv)
  let ?root = "apply_root root acts"
  let ?file = "case bo_faults W ''open databases.txt'' of Some (_, e) \<Rightarrow> Inl e | None \<Rightarrow> Inr (rt_txt (root_of ?root))"
  obtain u s2 where u: "record_state G env i OpCreating s1 = (u, s2)" by fastforce
  have s2: "runs_op s2 i" by (rule record_state_runs [OF s1 _ u]) simp
  obtain c evs where c: "createHADatabase (rg_printable G) (bo_create W) (bo_target W) (bo_ha W) ?root (hr_Database req) i = (c, evs)" by fastforce
  have ok: "store_ok s1" "store_ok s2" using s1 s2 by (auto simp: runs_op_def)
  note none = created_well_none [of W i req root acts]
  have fails: "ends_bootstrap W i req root (fail_run (bo_life W) env i reason (map Root acts) s1)"
    "ends_bootstrap W i req root (fail_run (bo_life W) env i reason (map Root acts) s2)" for reason
    using boot_fails [OF ok(1) none, of "[]"] boot_fails [OF ok(2) none, of "[]"] by (simp_all add: starts_only_def)
  note joins = join_ends [OF s1 none]
  have created: "ends_bootstrap W i req root (fail_run (bo_life W) env i reason (map Root acts @ evs) s2)"
    "ends_bootstrap W i req root (join_and_end G env W i (map Root acts @ evs) s2)"
    if "u = None" "registeredInDatabasesTxt ?file (hr_Database req) = Inr False" for reason
  proof -
    have "\<not> is_registered (root_of ?root) (hr_Database req)"
      using that(2) by (auto simp: registeredInDatabasesTxt_def is_registered_def split: option.splits)
    then have "created_well W i req root (map Root acts @ evs)"
      using create_well [OF c] record_state_valid u that(1) reclaim_no_root reclaim by blast
    then show "ends_bootstrap W i req root (fail_run (bo_life W) env i reason (map Root acts @ evs) s2)"
      "ends_bootstrap W i req root (join_and_end G env W i (map Root acts @ evs) s2)"
      using boot_fails [OF ok(2), of W i req root _ "[]"] join_ends [OF s2] by (simp_all add: starts_only_def)
  qed
  show ?thesis
    unfolding runHABootstrap_def reclaim prod.case Let_def u c
    by (cases e; cases "registeredInDatabasesTxt ?file (hr_Database req)")
       (auto simp: fails joins created split: bool.split option.split)
qed


subsection \<open>A run\<close>

definition demo_bootworld :: boot_world where
  "demo_bootworld = \<lparr>bo_target = ''/d'',
     bo_ha = withDefaults \<lparr>ha_ConfPath = ''/c/cubrid_ha.conf'', ha_VolumeSize = [], ha_LogVolumeSize = [], ha_Locale = []\<rparr>, bo_part = [],
     bo_faults = (\<lambda>_. None),
     bo_create = \<lparr>ci_faults = (\<lambda>_. None), ci_part = [], ci_conf = Inr ''ha_node_list=g@c-0:c-1'', ci_cli = (\<lambda>_. ([], None)),
                   ci_txt_after = Inr None\<rparr>,
     bo_start = demo_start, bo_life = demo_life\<rparr>"

definition demo_bootrun :: "restore_event list \<times> store" where
  "demo_bootrun = runHABootstrap demo_rsetting (demo_env 0) demo_bootworld (operationID_of (\<lambda>i. i)) \<lparr>hr_Database = ''db''\<rparr> None (snd demo_first)"

lemma demo_bootrun_events:
  "fst demo_bootrun =
     [Root (MakeDir ''db''), Root (PutEntry ''db'' ownershipMarker (operationID_of (\<lambda>i. i) @ [newline])),
      Command [''cubrid'', ''createdb'', ''--db-volume-size=512M'', ''--server-name=c-0:c-1'', ''-F'', ''/d/db'', ''db'', ''en_US''],
      Root (RemoveEntries ''db'' [ownershipMarker]), Command [''cubrid'', ''heartbeat'', ''start''], Finished OpCompleted]"
  by code_simp


end
