(* ===== verification/ImServer.thy ===== *)
theory ImServer
  imports HABootstrap Probe
begin

section \<open>The API of the Instance Manager\<close>

text \<open>
  The handlers of \<^verbatim>\<open>internal/instancemanager/server.go\<close>, with \<^verbatim>\<open>haBootstrap\<close> of \<^verbatim>\<open>habootstrap.go\<close> and the answers of
  \<^verbatim>\<open>errorcode.go\<close>. A request is a record: the headers, the query and the path value that handlers read, and the
  outcome of reading the body. An answer is a status with what is encoded as JSON. A handler returns its answer, what it
  does, in order, and the server it leaves; the operation it starts in the background is an event, and runs by
  the definitions of the theories before this one. The JSON decoders, SHA-256 and the texts of errors are fields of
  \<open>server_setting\<close>, the answers of the disk, of the commands and of the kernel fields of \<open>request_world\<close>. The log and
  the timeouts are left out; an error answer written as a map and one written as \<^verbatim>\<open>ErrorResponse\<close> without a code are
  the same JSON and the same value here.
\<close>

subsection \<open>Requests, answers and the server\<close>

datatype body_read = BodyRead string | BodyTooLarge | BodyUnreadable

record server_request =
  sr_Authorization :: string
  sr_IdempotencyKey :: string
  sr_Body :: body_read
  sr_query :: "string \<Rightarrow> string"
  sr_id :: string

datatype answer_body =
    AnsError ErrorResponse
  | AnsOperation Operation
  | AnsOperations "Operation list"
  | AnsStatus HAStatus
  | AnsConvergence ApplyConvergence
  | AnsBackup BackupRequest string
  | AnsText string

type_synonym http_answer = "int \<times> answer_body"

datatype job = RunBackup string BackupRequest | RunRestore string RestoreRequest | RunHABootstrap string HABootstrapRequest

datatype server_event = OnTree tree_action | OnStaging staging_action | OnCommand "string list" | Starts job

record server =
  sv_token :: string
  sv_store :: "store option"
  sv_objects :: bool
  sv_version :: string
  sv_standaloneDB :: string
  sv_backupStagingRoot :: string
  sv_replicationDB :: string
  sv_databasesDir :: string
  sv_life :: life

record server_setting =
  ss_printable :: "rune \<Rightarrow> bool"
  ss_target_first :: bool
  ss_error_text :: "manager_error \<Rightarrow> string"
  ss_store_text :: "store_error \<Rightarrow> string"
  ss_sha :: "string \<Rightarrow> string"
  ss_backup :: "string \<Rightarrow> BackupRequest option"
  ss_restore :: "string \<Rightarrow> RestoreRequest option"
  ss_bootstrap :: "string \<Rightarrow> HABootstrapRequest option"

text \<open>\<open>qw_rel\<close> is the answer of \<^verbatim>\<open>cubrid_rel\<close>.\<close>

record request_world =
  qw_env :: io
  qw_held :: holders
  qw_faults :: Staging.faults
  qw_staging :: staging
  qw_cli :: cli
  qw_rel :: cmd_answer

type_synonym handler = "server_request \<Rightarrow> server \<Rightarrow> http_answer \<times> server_event list \<times> server"

definition maxRequestBody :: nat where
  "maxRequestBody = 16384"

definition error_answer :: "int \<Rightarrow> string \<Rightarrow> http_answer" where
  "error_answer status msg = (status, AnsError \<lparr>ers_Error = msg, ers_Code = []\<rparr>)"

definition writeError :: "int \<Rightarrow> string \<Rightarrow> string \<Rightarrow> http_answer" where
  "writeError status code msg = (status, AnsError \<lparr>ers_Error = msg, ers_Code = code\<rparr>)"

definition writeErr :: "server_setting \<Rightarrow> int \<Rightarrow> manager_error \<Rightarrow> http_answer" where
  "writeErr S status err = writeError status (errorCode status err) (ss_error_text S err)"

definition readBody :: "server_request \<Rightarrow> http_answer + string" where
  "readBody r =
     (case sr_Body r of
        BodyTooLarge \<Rightarrow> Inl (error_answer 413 (''the request body is larger than '' @ itoa (int maxRequestBody) @ '' bytes''))
      | BodyUnreadable \<Rightarrow> Inl (error_answer 400 ''cannot read request body'')
      | BodyRead body \<Rightarrow> Inr body)"

subsection \<open>Authentication\<close>

definition auth :: "(string \<Rightarrow> string) \<Rightarrow> handler \<Rightarrow> handler" where
  "auth sha nxt r sv =
     (if trim_space (sv_token sv) = [] \<or> sha (sr_Authorization r) \<noteq> sha (''Bearer '' @ sv_token sv)
      then (writeError 401 CodeUnauthorized ''unauthorized'', [], sv)
      else nxt r sv)"

subsection \<open>Backups\<close>

definition readEngineVersion :: "cmd_answer \<Rightarrow> string" where
  "readEngineVersion answer = (case answer of (out, Some _) \<Rightarrow> [] | (out, None) \<Rightarrow> ParseEngineVersion out)"

definition engineVersion :: "cmd_answer \<Rightarrow> server \<Rightarrow> string \<times> server" where
  "engineVersion rel sv =
     (if sv_version sv \<noteq> [] then (sv_version sv, sv)
      else (readEngineVersion rel, sv\<lparr>sv_version := readEngineVersion rel\<rparr>))"

definition backupPreflight :: "server \<Rightarrow> BackupRequest \<Rightarrow> (int \<times> manager_error) option" where
  "backupPreflight sv req =
     (if (case br_Upload req of None \<Rightarrow> True | Some up \<Rightarrow> up_Bucket up = [])
      then Some (400, OtherError ''a backup needs an upload with a bucket; it is not run without one'')
      else if \<not> sv_objects sv
      then Some (412, OtherError (''this Instance Manager was started without object storage '' @
             ''(IM_S3_ENDPOINT is not set); the Pod has to be restarted with the cluster's spec.objectStorage''))
      else None)"

text \<open>Without an operation store the backup runs while the request waits.\<close>

definition backup_now :: "server_setting \<Rightarrow> request_world \<Rightarrow> BackupRequest \<Rightarrow> server \<Rightarrow> http_answer \<times> server_event list \<times> server" where
  "backup_now S W req sv =
     (case (if br_Upload req \<noteq> None
            then (case engineVersion (qw_rel W) sv of
                    (v, sv') \<Rightarrow> (case backupEngineVersion (ss_printable S) v req of Inl e \<Rightarrow> Some e | Inr _ \<Rightarrow> None, sv'))
            else (None, sv)) of
        (Some e, sv') \<Rightarrow> (error_answer 500 (''backup refused: '' @ e), [], sv'\<lparr>sv_life := ops_done (sv_life sv')\<rparr>)
      | (None, sv') \<Rightarrow>
          let sv'' = sv'\<lparr>sv_life := ops_done (sv_life sv')\<rparr> in
          case createBackupStaging (qw_faults W) (sv_backupStagingRoot sv) (br_Destination req) of
            (Some e, acts) \<Rightarrow> (error_answer 500 e, map OnTree acts, sv'')
          | (None, acts) \<Rightarrow>
              (case Backup (qw_cli W) req of
                 (Inl e, cmds) \<Rightarrow> (error_answer 500 e, map OnTree acts @ map OnCommand cmds, sv'')
               | (Inr out, cmds) \<Rightarrow> ((200, AnsBackup req out), map OnTree acts @ map OnCommand cmds, sv'')))"

text \<open>The cause decides the status of a refused start.\<close>

definition refusal_status :: "manager_error \<Rightarrow> int" where
  "refusal_status err = (if is_store is_conflict err \<or> is_store is_in_progress err \<or> err = ErrBackupStagingInUse then 409 else 500)"

definition backup_recorded ::
  "server_setting \<Rightarrow> request_world \<Rightarrow> string \<Rightarrow> string \<Rightarrow> BackupRequest \<Rightarrow> store \<Rightarrow> server \<Rightarrow> http_answer \<times> server_event list \<times> server" where
  "backup_recorded S W key body req s sv =
     (let leave = (\<lambda>sv. sv\<lparr>sv_life := ops_done (sv_life sv)\<rparr>) in
      if key = [] then (error_answer 400 ''Idempotency-Key header is required'', [], leave sv)
      else case backupPreflight sv req of
             Some (status, err) \<Rightarrow> (writeErr S status err, [], leave sv)
           | None \<Rightarrow>
               (case recordBackup (ss_error_text S) (ss_store_text S) (qw_env W) (qw_held W) (qw_faults W) (sv_backupStagingRoot sv)
                       (qw_staging W) key (ss_sha S body) req s of
                  (Inl err, acts, s') \<Rightarrow>
                    (writeErr S (refusal_status err) err, map OnStaging acts, leave (sv\<lparr>sv_store := Some s'\<rparr>))
                | (Inr (op, path), acts, s') \<Rightarrow>
                    if path = [] then ((202, AnsOperation op), map OnStaging acts, leave (sv\<lparr>sv_store := Some s'\<rparr>))
                    else ((202, AnsOperation op), map OnStaging acts @ [Starts (RunBackup (op_ID op) (req\<lparr>br_Destination := path\<rparr>))],
                          sv\<lparr>sv_store := Some s'\<rparr>)))"

definition backup :: "server_setting \<Rightarrow> request_world \<Rightarrow> handler" where
  "backup S W r sv =
     (case readBody r of
        Inl a \<Rightarrow> (a, [], sv)
      | Inr body \<Rightarrow>
          (case ss_backup S body of
             None \<Rightarrow> (error_answer 400 ''invalid request body'', [], sv)
           | Some req0 \<Rightarrow>
               (case validateBackupRequest (ss_printable S) req0 of
                  Some e \<Rightarrow> (error_answer 400 e, [], sv)
                | None \<Rightarrow>
                    (case confineBackupDestination (ss_printable S) (br_Destination req0) (sv_backupStagingRoot sv) of
                       Inl e \<Rightarrow> (error_answer 400 e, [], sv)
                     | Inr destination \<Rightarrow>
                         let req = req0\<lparr>br_Destination := destination\<rparr> in
                         case admit (sv_life sv) of
                           (Some e, life) \<Rightarrow> (error_answer 503 (life_error_text e), [], sv\<lparr>sv_life := life\<rparr>)
                         | (None, life) \<Rightarrow>
                             (case sv_store sv of
                                None \<Rightarrow> backup_now S W req (sv\<lparr>sv_life := life\<rparr>)
                              | Some s \<Rightarrow> backup_recorded S W (sr_IdempotencyKey r) body req s (sv\<lparr>sv_life := life\<rparr>))))))"

subsection \<open>Restores and the HA bootstrap\<close>

text \<open>The two record their operation alike once the request is accepted.\<close>

definition start_disruptive ::
  "server_setting \<Rightarrow> request_world \<Rightarrow> OperationKind \<Rightarrow> string \<Rightarrow> string \<Rightarrow> string \<Rightarrow> (string \<Rightarrow> job) \<Rightarrow> store \<Rightarrow> server \<Rightarrow>
     http_answer \<times> server_event list \<times> server" where
  "start_disruptive S W kind key body database run s sv =
     (if key = [] then (error_answer 400 ''Idempotency-Key header is required'', [], sv)
      else case admitDisruptive (sv_life sv) of
             (Some e, life) \<Rightarrow> (error_answer 503 (life_error_text e), [], sv\<lparr>sv_life := life\<rparr>)
           | (None, life) \<Rightarrow>
               (case FindOrCreate (qw_env W) kind key (ss_sha S body) database s of
                  (Inl e, s') \<Rightarrow>
                    (writeErr S (refusal_status (StoreError e)) (StoreError e), [], sv\<lparr>sv_store := Some s', sv_life := endDisruptive life\<rparr>)
                | (Inr (op, True), s') \<Rightarrow> ((202, AnsOperation op), [], sv\<lparr>sv_store := Some s', sv_life := endDisruptive life\<rparr>)
                | (Inr (op, False), s') \<Rightarrow> ((202, AnsOperation op), [Starts (run (op_ID op))], sv\<lparr>sv_store := Some s', sv_life := life\<rparr>)))"

definition restorePrepare :: "server_setting \<Rightarrow> request_world \<Rightarrow> handler" where
  "restorePrepare S W r sv =
     (case (if sv_objects sv then sv_store sv else None) of
        None \<Rightarrow> (error_answer 503 ''restore is not enabled (no operation/object store)'', [], sv)
      | Some s \<Rightarrow>
          (case readBody r of
             Inl a \<Rightarrow> (a, [], sv)
           | Inr body \<Rightarrow>
               (case ss_restore S body of
                  None \<Rightarrow> (error_answer 400 ''invalid request body'', [], sv)
                | Some req \<Rightarrow>
                    (case validateRestoreRequest (ss_printable S) (ss_target_first S) req of
                       Some e \<Rightarrow> (error_answer 400 e, [], sv)
                     | None \<Rightarrow>
                         (case validateRestoreDatabase (ss_printable S) (sv_standaloneDB sv) (rr_Database req) of
                            Some e \<Rightarrow> (error_answer 400 e, [], sv)
                          | None \<Rightarrow>
                              start_disruptive S W OpRestore (sr_IdempotencyKey r) body (rr_Database req)
                                (\<lambda>i. RunRestore i req) s sv)))))"

definition haBootstrap :: "server_setting \<Rightarrow> request_world \<Rightarrow> handler" where
  "haBootstrap S W r sv =
     (case sv_store sv of
        None \<Rightarrow> (error_answer 503 ''HA bootstrap is not enabled (no operation store)'', [], sv)
      | Some s \<Rightarrow>
          if sv_standaloneDB sv \<noteq> []
          then (writeError 409 CodeNotAnHAMember ''this member is a standalone server, not an HA member'', [], sv)
          else case readBody r of
                 Inl a \<Rightarrow> (a, [], sv)
               | Inr body \<Rightarrow>
                   (case ss_bootstrap S body of
                      None \<Rightarrow> (error_answer 400 ''invalid request body'', [], sv)
                    | Some req \<Rightarrow>
                        if \<not> databaseNamePattern (hr_Database req)
                        then (error_answer 400 ''database name is not a plain identifier'', [], sv)
                        else start_disruptive S W OpHABootstrap (sr_IdempotencyKey r) body (hr_Database req)
                               (\<lambda>i. RunHABootstrap i req) s sv))"

subsection \<open>Reading\<close>

definition findOperations :: "server_setting \<Rightarrow> request_world \<Rightarrow> handler" where
  "findOperations S W r sv =
     (if sr_query r ''idempotencyKey'' = [] then (error_answer 400 ''idempotencyKey is required'', [], sv)
      else case sv_store sv of
             None \<Rightarrow> (error_answer 503 ''operations are not enabled'', [], sv)
           | Some s \<Rightarrow>
               (case FindByKey (qw_env W) (sr_query r ''idempotencyKey'') s of
                  (Inl e, s') \<Rightarrow> (error_answer 500 (ss_store_text S e), [], sv\<lparr>sv_store := Some s'\<rparr>)
                | (Inr ops, s') \<Rightarrow> ((200, AnsOperations ops), [], sv\<lparr>sv_store := Some s'\<rparr>)))"

definition getOperation :: "server_setting \<Rightarrow> request_world \<Rightarrow> handler" where
  "getOperation S W r sv =
     (case sv_store sv of
        None \<Rightarrow> (error_answer 404 ''operations are not enabled'', [], sv)
      | Some s \<Rightarrow>
          (case Get (qw_env W) (sr_id r) s of
             (Inl e, s') \<Rightarrow>
               (if is_not_found e then error_answer 404 ''operation not found'' else error_answer 500 (ss_store_text S e),
                [], sv\<lparr>sv_store := Some s'\<rparr>)
           | (Inr op, s') \<Rightarrow> ((200, AnsOperation op), [], sv\<lparr>sv_store := Some s'\<rparr>)))"

text \<open>\<open>applyinfo\<close> is the answer of \<^verbatim>\<open>cubrid applyinfo\<close> for a copied log.\<close>

definition convergence :: "server_setting \<Rightarrow> (string \<Rightarrow> string \<Rightarrow> cmd_answer) \<Rightarrow> handler" where
  "convergence S applyinfo r sv =
     (let db = sr_query r ''database''; requested = sr_query r ''copiedLogPath'' in
      if db = [] \<or> requested = [] then (error_answer 400 ''database and copiedLogPath are required'', [], sv)
      else case confineCopiedLogPath (ss_printable S) db requested (sv_databasesDir sv) of
             Inl e \<Rightarrow> (error_answer 400 e, [], sv)
           | Inr copied \<Rightarrow>
               ((200, AnsConvergence (ApplyConvergenceStatus (applyinfo db copied))),
                [OnCommand [''cubrid'', ''applyinfo'', ''-L'', copied, ''-a'', ''-v'', db]], sv))"

record role_world =
  rl_status :: cmd_answer
  rl_rel :: cmd_answer
  rl_applyinfo :: "string \<Rightarrow> cmd_answer"
  rl_stat :: "int \<Rightarrow> string option"
  rl_ctx :: ctx_state
  rl_logEnd :: cmd_answer
  rl_unfinished :: "UnfinishedDatabase option"

text \<open>\<open>rl_unfinished\<close> is what \<^const>\<open>unfinishedDatabase\<close> gives, which reads the store and the database root.\<close>

definition role :: "role_world \<Rightarrow> handler" where
  "role W r sv =
     (let st0 = HeartbeatStatus (rl_status W) in
      case engineVersion (rl_rel W) sv of
        (v, sv') \<Rightarrow>
          let st1 = st0\<lparr>hs_EngineVersion := v\<rparr>;
              st2 = st1\<lparr>hs_Replication := replicationOf (rl_applyinfo W) (rl_stat W) (rl_ctx W) st1 (sv_replicationDB sv) (sv_databasesDir sv)\<rparr>;
              st3 = st2\<lparr>hs_LogEnd := logEndOf (rl_logEnd W) st2 (sv_replicationDB sv)\<rparr>
          in ((200, AnsStatus (st3\<lparr>hs_Unfinished := rl_unfinished W\<rparr>)), [], sv'))"

definition haStatus :: "cmd_answer \<Rightarrow> handler" where
  "haStatus status r sv = ((200, AnsStatus (HeartbeatStatus status)), [], sv)"

text \<open>\<open>stop\<close> is what \<^verbatim>\<open>Stop\<close> does and returns.\<close>

definition shutdown :: "(string \<Rightarrow> server \<Rightarrow> string option \<times> server) \<Rightarrow> handler" where
  "shutdown stop r sv =
     (case stop (sr_query r ''database'') sv of
        (Some e, sv') \<Rightarrow> (error_answer 500 e, [], sv')
      | (None, sv') \<Rightarrow> ((200, AnsText ''shutdown''), [], sv'))"

subsection \<open>The routes\<close>

datatype route =
    GetRole | GetHAStatus | GetConvergence | PostHABootstrap | PostBackup | PostRestorePrepare | GetOperations | GetOneOperation | PostShutdown

record api_world =
  aw_request :: request_world
  aw_role :: role_world
  aw_applyinfo :: "string \<Rightarrow> string \<Rightarrow> cmd_answer"
  aw_status :: cmd_answer
  aw_stop :: "string \<Rightarrow> server \<Rightarrow> string option \<times> server"

fun handler_of :: "server_setting \<Rightarrow> api_world \<Rightarrow> route \<Rightarrow> handler" where
  "handler_of S W GetRole = role (aw_role W)"
| "handler_of S W GetHAStatus = haStatus (aw_status W)"
| "handler_of S W GetConvergence = convergence S (aw_applyinfo W)"
| "handler_of S W PostHABootstrap = haBootstrap S (aw_request W)"
| "handler_of S W PostBackup = backup S (aw_request W)"
| "handler_of S W PostRestorePrepare = restorePrepare S (aw_request W)"
| "handler_of S W GetOperations = findOperations S (aw_request W)"
| "handler_of S W GetOneOperation = getOperation S (aw_request W)"
| "handler_of S W PostShutdown = shutdown (aw_stop W)"

definition Handler :: "server_setting \<Rightarrow> api_world \<Rightarrow> route \<Rightarrow> handler" where
  "Handler S W rt = auth (ss_sha S) (handler_of S W rt)"

subsection \<open>Only the token opens the API\<close>

lemmas handler_defs = role_def haStatus_def convergence_def haBootstrap_def backup_def restorePrepare_def findOperations_def getOperation_def
  shutdown_def start_disruptive_def

lemmas answer_defs = error_answer_def writeError_def writeErr_def refusal_status_def

lemma backup_now_not_401: "fst (fst (backup_now S W req sv)) \<noteq> 401"
  by (auto simp: backup_now_def answer_defs Let_def split: prod.splits option.splits sum.splits)

lemma backup_recorded_not_401: "fst (fst (backup_recorded S W key body req s sv)) \<noteq> 401"
  by (auto simp: backup_recorded_def backupPreflight_def answer_defs Let_def split: prod.splits option.splits sum.splits if_splits)

lemma readBody_not_401: "readBody r = Inl a \<Longrightarrow> fst a \<noteq> 401"
  by (auto simp: readBody_def error_answer_def split: body_read.splits)

lemma start_disruptive_not_401: "fst (fst (start_disruptive S W kind key body database run s sv)) \<noteq> 401"
  by (auto simp: start_disruptive_def answer_defs split: prod.splits option.splits sum.splits bool.splits)

lemma handler_not_401: "fst (fst (handler_of S W rt r sv)) \<noteq> 401"
proof (cases rt)
  case PostBackup
  then show ?thesis
    by (auto simp: backup_def Let_def error_answer_def backup_now_not_401 backup_recorded_not_401 readBody_not_401 split: prod.split option.split sum.split)
next
  case PostRestorePrepare
  then show ?thesis
    by (auto simp: restorePrepare_def error_answer_def start_disruptive_not_401 readBody_not_401 split: option.split sum.split)
next
  case PostHABootstrap
  then show ?thesis
    by (auto simp: haBootstrap_def answer_defs start_disruptive_not_401 readBody_not_401 split: option.split sum.split)
qed (auto simp: role_def haStatus_def convergence_def findOperations_def getOperation_def shutdown_def error_answer_def Let_def
      split: prod.split option.split sum.split)


subsection \<open>The count of running operations\<close>

definition jobs :: "server_event list \<Rightarrow> job list" where
  "jobs evs = concat (map (\<lambda>e. case e of Starts j \<Rightarrow> [j] | _ \<Rightarrow> []) evs)"

fun disruptive_job :: "job \<Rightarrow> bool" where
  "disruptive_job (RunBackup i req) = False"
| "disruptive_job _ = True"

lemma jobs_simps [simp]:
  "jobs [] = []" "jobs (xs @ ys) = jobs xs @ jobs ys" "jobs (map OnTree ts) = []" "jobs (map OnStaging sts) = []"
  "jobs (map OnCommand cs) = []" "jobs (Starts j # evs) = j # jobs evs" "jobs (OnCommand c # evs) = jobs evs"
  by (simp_all add: jobs_def comp_def)

text \<open>The life of the manager with these jobs admitted to it.\<close>

definition with_jobs :: "job list \<Rightarrow> life \<Rightarrow> life" where
  "with_jobs js l = l\<lparr>lf_ops := lf_ops l + length js, lf_disruptive := lf_disruptive l + int (length (filter disruptive_job js))\<rparr>"

definition counted :: "server \<Rightarrow> http_answer \<times> server_event list \<times> server \<Rightarrow> bool" where
  "counted sv r \<longleftrightarrow>
     sv_life (snd (snd r)) = with_jobs (jobs (fst (snd r))) (sv_life sv) \<and> length (jobs (fst (snd r))) \<le> 1 \<and>
     (jobs (fst (snd r)) \<noteq> [] \<longrightarrow> \<not> lf_stopping (sv_life sv) \<and> \<not> lf_starting (sv_life sv) \<and> fst (fst r) = 202)"

lemma with_no_jobs [simp]: "with_jobs [] l = l"
  by (simp add: with_jobs_def)

lemma start_disruptive_counted:
  assumes "\<And>i. disruptive_job (run i)"
  shows "counted sv (start_disruptive S W kind key body database run s sv)"
  using assms
  by (auto simp: counted_def start_disruptive_def admitDisruptive_def admit_def endDisruptive_def ops_done_def with_jobs_def
      split: prod.splits option.splits sum.splits bool.splits if_splits)

lemma engineVersion_life: "engineVersion rel sv = (v, sv') \<Longrightarrow> sv_life sv' = sv_life sv"
  by (auto simp: engineVersion_def split: if_splits)

lemma admit_done: "admit l = (None, l') \<Longrightarrow> ops_done l' = l \<and> l' = l\<lparr>lf_ops := Suc (lf_ops l)\<rparr> \<and> \<not> lf_stopping l \<and> \<not> lf_starting l"
  by (auto simp: admit_def ops_done_def split: if_splits)

lemma backup_now_counted:
  assumes "admit (sv_life sv) = (None, l)"
  shows "counted sv (backup_now S W req (sv\<lparr>sv_life := l\<rparr>))"
  using admit_done [OF assms]
  by (auto simp: counted_def backup_now_def Let_def split: prod.splits option.splits sum.splits dest: engineVersion_life)

lemma backup_recorded_counted:
  assumes "admit (sv_life sv) = (None, l)"
  shows "counted sv (backup_recorded S W key body req s (sv\<lparr>sv_life := l\<rparr>))"
  using admit_done [OF assms]
  by (auto simp: counted_def backup_recorded_def with_jobs_def Let_def split: prod.splits option.splits sum.splits)

lemma handler_counted:
  assumes "rt \<noteq> PostShutdown"
  shows "counted sv (handler_of S W rt r sv)"
proof (cases rt)
  case PostBackup
  have "admit (sv_life sv) = (Some e, l) \<Longrightarrow> l = sv_life sv" for e l by (auto simp: admit_def split: if_splits)
  then show ?thesis using PostBackup backup_now_counted [of sv] backup_recorded_counted [of sv]
    by (simp add: backup_def Let_def split: prod.split option.split sum.split) (auto simp: counted_def)
next
  case PostRestorePrepare
  then show ?thesis using start_disruptive_counted [of "\<lambda>i. RunRestore i req" for req]
    by (simp add: restorePrepare_def split: option.split sum.split) (auto simp: counted_def)
next
  case PostHABootstrap
  then show ?thesis using start_disruptive_counted [of "\<lambda>i. RunHABootstrap i req" for req]
    by (simp add: haBootstrap_def split: option.split sum.split) (auto simp: counted_def)
qed (use assms engineVersion_life in \<open>auto simp: counted_def role_def haStatus_def convergence_def findOperations_def getOperation_def Let_def
      split: prod.splits option.splits sum.splits\<close>)

text \<open>
  C26. The count of running operations is exact. Whatever a request to the API asks for and whatever fails on the
  way, the manager counts one operation more afterwards exactly when a run was started for it, and one disruptive
  operation more exactly when that run is a restore or an HA bootstrap; nothing else of its life has changed, at
  most one run is started, and only while the manager is neither stopping nor starting. (A stop changes the life
  itself.)
\<close>

theorem the_count_of_running_operations_is_exact:
  assumes "rt \<noteq> PostShutdown" "Handler S W rt r sv = (a, evs, sv')"
  shows "sv_life sv' = with_jobs (jobs evs) (sv_life sv) \<and> length (jobs evs) \<le> 1 \<and>
    (jobs evs \<noteq> [] \<longrightarrow> \<not> lf_stopping (sv_life sv) \<and> \<not> lf_starting (sv_life sv) \<and> fst a = 202)"
proof -
  have "counted sv (Handler S W rt r sv)"
    using handler_counted [OF assms(1)] by (simp add: Handler_def auth_def) (simp add: counted_def)
  then show ?thesis by (simp add: assms(2) counted_def)
qed

subsection \<open>A start that is accepted is carried out\<close>

text \<open>What is promised of a job, from the store it is started on: its run ends and leaves its operation over. The
  waits of a backup are bounded by clocks that advance.\<close>

fun carried_out :: "job \<Rightarrow> store \<Rightarrow> bool" where
  "carried_out (RunBackup i req) s \<longleftrightarrow>
     (\<forall>B env W. advances (bw_since W) \<longrightarrow> advances (rw_since (bw_role W)) \<longrightarrow> advances (rw_since (bw_role_after W)) \<longrightarrow>
        ends_run i (runBackup B env W i req s))"
| "carried_out (RunRestore i req) s \<longleftrightarrow> (\<forall>G env W roots root. ends_restore W i (runRestore G env W roots i req root s))"
| "carried_out (RunHABootstrap i req) s \<longleftrightarrow> (\<forall>G env W root. ends_bootstrap W i req root (runHABootstrap G env W i req root s))"

fun job_id :: "job \<Rightarrow> string" where
  "job_id (RunBackup i req) = i"
| "job_id (RunRestore i req) = i"
| "job_id (RunHABootstrap i req) = i"

lemma runs_carried_out: "runs_op s (job_id j) \<Longrightarrow> carried_out j s"
  using runBackup_ends runRestore_ends runHABootstrap_ends by (cases j) auto

lemma created_runs:
  assumes inv: "sys_inv Y" and fresh: "fresh_ids env (sy_store Y)" and kk: "kind \<noteq> KindOther []" "key \<noteq> []"
    and f: "FindOrCreate env kind key hash db (sy_store Y) = (Inr (op, False), s')"
  shows "runs_op s' (op_ID op)"
  using f sys_invD(1) [OF inv] fresh
proof (cases rule: FindOrCreate_cases)
  case (created op' s)
  then have op: "op' = op" by simp
  note add = added_file [OF created(7)]
  let ?Y = "Y\<lparr>sy_store := s\<rparr>"
  have inv': "sys_inv ?Y" by (rule sys_inv_quiet [OF inv created(2)])
  have "record_name (op_ID op') \<notin> fst ` set (st_dir s)" using created(7) by (simp add: added_def)
  then have "kept_end s (op_ID op') = None" "\<not> interrupted s (op_ID op')"
    using sys_invD(4) [OF inv', of "op_ID op'"] by (auto simp: tracked_def)
  moreover have "store_ok s'" using store_ok_added [OF _ created(7,6) kk] sys_invD(1) [OF inv'] by simp
  moreover have "live s' (op_ID op')" using add(1) created(6) by (auto simp: OpStoreSafety.live_def pending_op_def)
  ultimately show ?thesis using add(2,3) by (simp add: runs_op_def op)
qed simp_all

lemma staging_is_progress: "keeps_running (\<lambda>op. op\<lparr>op_StagingDir := path\<rparr>)"
  by (simp add: keeps_running_def same_identity_def)

lemma recordBackup_started:
  assumes "recordBackup et sx env held faults root st key hash req s = (Inr (op, path), acts, s')" "path \<noteq> []"
  obtains lives es s1 s2 s3 s4 u where
    "liveStagingOwners (Get env) held faults st (Base (br_Destination req)) s = (Inr (lives, es), s1)"
    "refused_owner (Get env) key lives s1 = (None, s2)"
    "FindOrCreate env OpBackup key hash (br_Database req) s2 = (Inr (op, False), s3)"
    "claimBackupStaging (Get env) held faults root st (Base (br_Destination req)) (op_ID op) s3 = (Inr path, acts, s4)"
    "Update env (op_ID op) (\<lambda>o'. o'\<lparr>op_StagingDir := path\<rparr>) s4 = (Inr u, s')"
  using assms
  by (auto simp: recordBackup_def Let_def split: option.splits prod.splits sum.splits bool.splits)

lemma recordBackup_runs:
  assumes inv: "sys_inv Y" and fresh: "fresh_ids env (sy_store Y)" and key: "key \<noteq> []"
    and r: "recordBackup et sx env held faults root st key hash req (sy_store Y) = (Inr (op, path), acts, s')" "path \<noteq> []"
  shows "runs_op s' (op_ID op)"
  using r
proof (rule recordBackup_started)
  fix lives es s1 s2 s3 s4 u
  let ?n = "Base (br_Destination req)"
  assume l: "liveStagingOwners (Get env) held faults st ?n (sy_store Y) = (Inr (lives, es), s1)"
    and o: "refused_owner (Get env) key lives s1 = (None, s2)"
    and f: "FindOrCreate env OpBackup key hash (br_Database req) s2 = (Inr (op, False), s3)"
    and c: "claimBackupStaging (Get env) held faults root st ?n (op_ID op) s3 = (Inr path, acts, s4)"
    and u: "Update env (op_ID op) (\<lambda>o'. o'\<lparr>op_StagingDir := path\<rparr>) s4 = (Inr u, s')"
  have s1: "store_ok s1 \<and> quiet (sy_store Y) s1"
    using quiet_lookup.listing_keeps [of "sy_store Y" "sy_store Y" env held faults st ?n] sys_invD(1) [OF inv] l by simp
  have q: "quiet (sy_store Y) s2" using quiet_lookup.refused_keeps [OF s1, of env key lives] o by simp
  have "runs_op s3 (op_ID op)"
    using created_runs [OF sys_inv_quiet [OF inv q] _ _ key, of env OpBackup hash "br_Database req" op s3] fresh_ids_quiet [OF q fresh] f by simp
  then have "runs_op s4 (op_ID op)" using op_lookup.kept.claim_keeps [of s3 "op_ID op" env held faults root st ?n "op_ID op"] c by simp
  then show ?thesis using Update_runs [OF _ staging_is_progress u] by blast
qed

text \<open>What holds of a started job: the answer names its operation, and the operation runs in the store.\<close>

definition started_well :: "http_answer \<times> server_event list \<times> server \<Rightarrow> bool" where
  "started_well r \<longleftrightarrow>
     (\<forall>j \<in> set (jobs (fst (snd r))). \<exists>op s'.
        fst r = (202, AnsOperation op) \<and> job_id j = op_ID op \<and> sv_store (snd (snd r)) = Some s' \<and> runs_op s' (op_ID op))"

lemma started_none: "jobs (fst (snd r)) = [] \<Longrightarrow> started_well r"
  by (simp add: started_well_def)

lemma start_disruptive_started:
  assumes "sys_inv Y" "fresh_ids (qw_env W) (sy_store Y)" "kind \<noteq> KindOther []" "\<And>i. job_id (run i) = i"
  shows "started_well (start_disruptive S W kind key body database run (sy_store Y) sv)"
proof -
  obtain f s' where f: "FindOrCreate (qw_env W) kind key (ss_sha S body) database (sy_store Y) = (f, s')" by fastforce
  have "runs_op s' (op_ID op)" if "f = Inr (op, False)" "key \<noteq> []" for op
    using created_runs [OF assms(1,2,3) that(2)] f that(1) by blast
  then show ?thesis using assms(4)
    by (auto simp: start_disruptive_def f started_well_def split: prod.split option.split sum.split bool.split)
qed

lemma backup_now_started: "started_well (backup_now S W req sv)"
  by (rule started_none) (auto simp: backup_now_def Let_def split: prod.splits option.splits sum.splits)

lemma backup_recorded_started:
  assumes "sys_inv Y" "fresh_ids (qw_env W) (sy_store Y)"
  shows "started_well (backup_recorded S W key body req (sy_store Y) sv)"
proof -
  obtain f acts s' where f: "recordBackup (ss_error_text S) (ss_store_text S) (qw_env W) (qw_held W) (qw_faults W) (sv_backupStagingRoot sv)
      (qw_staging W) key (ss_sha S body) req (sy_store Y) = (f, acts, s')" by (metis prod_cases3)
  have "runs_op s' (op_ID op)" if "f = Inr (op, path)" "path \<noteq> []" "key \<noteq> []" for op path
    using recordBackup_runs [OF assms that(3)] f that(1,2) by blast
  then show ?thesis
    by (auto simp: backup_recorded_def Let_def f started_well_def split: prod.split option.split sum.split)
qed

lemma handler_started:
  assumes inv: "sys_inv Y" and st: "sv_store sv = Some (sy_store Y)" and fresh: "fresh_ids (qw_env (aw_request W)) (sy_store Y)"
  shows "started_well (handler_of S W rt r sv)"
proof (cases rt)
  case PostBackup
  then show ?thesis using backup_recorded_started [OF inv fresh] backup_now_started st
    by (simp add: backup_def Let_def started_none split: prod.split option.split sum.split)
next
  case PostRestorePrepare
  then show ?thesis using start_disruptive_started [OF inv fresh, of OpRestore "\<lambda>i. RunRestore i req" for req] st
    by (simp add: restorePrepare_def started_none split: option.split sum.split)
next
  case PostHABootstrap
  then show ?thesis using start_disruptive_started [OF inv fresh, of OpHABootstrap "\<lambda>i. RunHABootstrap i req" for req] st
    by (simp add: haBootstrap_def started_none split: option.split sum.split)
qed (auto simp: role_def haStatus_def convergence_def findOperations_def getOperation_def shutdown_def Let_def
      split: prod.splits option.splits sum.splits intro!: started_none)

text \<open>
  C25. A start that is accepted is carried out. In every state the manager can reach, when a request to the API
  starts a run, the answer is 202 with the operation of that run, which the store records as running, and the run
  ends and leaves the operation over, whatever fails in it: a backup when its waits are measured by clocks that
  advance, a restore and an HA bootstrap always.
\<close>

theorem an_accepted_start_is_carried_out:
  assumes "manager_reach Y" "sv_store sv = Some (sy_store Y)" "fresh_ids (qw_env (aw_request W)) (sy_store Y)"
    and "Handler S W rt r sv = (a, evs, sv')" "Starts j \<in> set evs"
  shows "\<exists>op s'. a = (202, AnsOperation op) \<and> job_id j = op_ID op \<and> sv_store sv' = Some s' \<and> runs_op s' (op_ID op) \<and> carried_out j s'"
proof -
  have "started_well (Handler S W rt r sv)"
    using handler_started [OF reach_sys_inv [OF assms(1)] assms(2,3)] by (simp add: Handler_def auth_def started_none)
  moreover have "j \<in> set (jobs evs)" using assms(5) by (induction evs) (auto simp: jobs_def)
  ultimately show ?thesis using runs_carried_out by (fastforce simp: assms(4) started_well_def)
qed

subsection \<open>A request\<close>

definition demo_api :: server_setting where
  "demo_api = \<lparr>ss_printable = (\<lambda>_. True), ss_target_first = True, ss_error_text = (\<lambda>_. []), ss_store_text = (\<lambda>_. []), ss_sha = (\<lambda>c. c),
     ss_backup = (\<lambda>_. None), ss_restore = (\<lambda>b. if b = ''restore'' then Some demo_rrequest else None), ss_bootstrap = (\<lambda>_. None)\<rparr>"

definition demo_api_world :: api_world where
  "demo_api_world =
     \<lparr>aw_request = \<lparr>qw_env = demo_env 1, qw_held = (\<lambda>_ _. ([], None)), qw_faults = (\<lambda>_. None), qw_staging = (\<lambda>_. None),
                    qw_cli = (\<lambda>_. ([], None)), qw_rel = ([], None)\<rparr>,
      aw_role = \<lparr>rl_status = ([], None), rl_rel = ([], None), rl_applyinfo = (\<lambda>_. ([], None)), rl_stat = (\<lambda>_. None), rl_ctx = CtxLives,
                 rl_logEnd = ([], None), rl_unfinished = None\<rparr>,
      aw_applyinfo = (\<lambda>_ _. ([], None)), aw_status = ([], None), aw_stop = (\<lambda>_ sv. (None, sv))\<rparr>"

definition demo_server :: server where
  "demo_server = \<lparr>sv_token = ''t'', sv_store = Some (snd demo_first), sv_objects = True, sv_version = [], sv_standaloneDB = [],
     sv_backupStagingRoot = ''/b'', sv_replicationDB = ''db'', sv_databasesDir = ''/d'', sv_life = demo_life\<rparr>"

definition demo_srequest :: server_request where
  "demo_srequest = \<lparr>sr_Authorization = ''Bearer t'', sr_IdempotencyKey = ''k9'', sr_Body = BodyRead ''restore'', sr_query = (\<lambda>_. []), sr_id = []\<rparr>"

definition demo_answer :: "http_answer \<times> server_event list \<times> server" where
  "demo_answer = Handler demo_api demo_api_world PostRestorePrepare demo_srequest demo_server"

lemma demo_answer_starts: "fst (snd demo_answer) = [Starts (RunRestore (operationID_of (\<lambda>i. i + 1)) demo_rrequest)]"
  by code_simp


theorem the_count_of_running_operations_is_exact_witness:
  "jobs (fst (snd demo_answer)) \<noteq> [] \<and>
   sv_life (snd (snd demo_answer)) = with_jobs (jobs (fst (snd demo_answer))) (sv_life demo_server) \<and> length (jobs (fst (snd demo_answer))) \<le> 1"
proof -
  have "Handler demo_api demo_api_world PostRestorePrepare demo_srequest demo_server =
      (fst demo_answer, fst (snd demo_answer), snd (snd demo_answer))" by (simp add: demo_answer_def)
  from the_count_of_running_operations_is_exact [OF _ this] show ?thesis by (simp add: demo_answer_starts)
qed

theorem an_accepted_start_is_carried_out_witness:
  "\<exists>op s'. fst demo_answer = (202, AnsOperation op) \<and> operationID_of (\<lambda>i. i + 1) = op_ID op \<and>
     sv_store (snd (snd demo_answer)) = Some s' \<and> runs_op s' (op_ID op) \<and>
     carried_out (RunRestore (operationID_of (\<lambda>i. i + 1)) demo_rrequest) s'"
proof -
  have st: "sv_store demo_server = Some (sy_store demo_sys2)" by (simp add: demo_server_def demo_store)
  have "fresh_ids (demo_env 1) (snd demo_first)"
    using demo_ids(1) demo_first_facts(2) by (intro demo_fresh) (metis (no_types) list.set(1,2) list.set_map record_name_inject singletonD)
  then have fresh: "fresh_ids (qw_env (aw_request demo_api_world)) (sy_store demo_sys2)" by (simp add: demo_store demo_api_world_def)
  have "Handler demo_api demo_api_world PostRestorePrepare demo_srequest demo_server =
      (fst demo_answer, fst (snd demo_answer), snd (snd demo_answer))" by (simp add: demo_answer_def)
  from an_accepted_start_is_carried_out [OF demo_reach2 st fresh this, unfolded demo_answer_starts] show ?thesis by simp
qed

end
