(* ===== verification/Spec2Isabelle.thy ===== *)
theory Spec2Isabelle
  imports OpSystem HAStatus RollingUpdate BackupTarget Probe Artifact Lifecycle Watchdog Ownership Staging ImServer
begin

text \<open>
  A verification of the CUBRID Kubernetes operator.

  \<^bold>\<open>The program.\<close> The operator (\<^verbatim>\<open>internal/controller\<close>) runs CUBRID clusters on Kubernetes. Each member of a cluster is
  a Pod with an Instance Manager (\<^verbatim>\<open>internal/instancemanager\<close>), a process that runs CUBRID's utilities on the member
  and serves an HTTP API. The operator asks the managers for roles and replication, decides from the answers which
  member is the primary, whether a Pod may be restarted for an update and which member runs a backup, and starts
  backups, restores and the first database by requests with an idempotency key. A manager records every such
  operation in a durable store, runs it in the background and answers what became of it.

  \<^bold>\<open>The Instance Manager.\<close>
  \<^item> \<open>OpStore\<close>, \<open>OpStoreSafety\<close>, \<open>OpSystem\<close>: \<^verbatim>\<open>operation.go\<close> and \<^verbatim>\<open>opstore.go\<close>. The store is a record with the directory of
    record files, the ends that could not be written and the operations a restart interrupted; every access takes its
    outcome from an argument. \<open>OpSystem\<close> is the transition system of all calls, crashes, restarts and damage of files:
    at most one operation of a database runs, a key starts one run for ever, and no operation of an earlier process is
    answered as running.
  \<^item> \<open>ImApi\<close>, \<open>ImServer\<close>: the requests, the error codes of \<^verbatim>\<open>errorcode.go\<close> and the handlers of \<^verbatim>\<open>server.go\<close>. Only the token
    opens the API; the count of running operations is exact on every path; an accepted start is carried out.
  \<^item> \<open>Lifecycle\<close>, \<open>Runs\<close>: \<^verbatim>\<open>operations.go\<close>, the admission of operations and the stop, as interleaved steps of goroutines
    that refine a gate: nothing starts CUBRID after a successful stop. \<open>Watchdog\<close> is \<^verbatim>\<open>watchdog.go\<close>.
  \<^item> \<open>Heartbeat\<close>, \<open>Engine\<close>, \<open>Observe\<close>: \<^verbatim>\<open>role.go\<close>, \<^verbatim>\<open>convergence.go\<close> and the readings of \<^verbatim>\<open>cli.go\<close>, with the regular
    expressions as matchers over \<open>GoText\<close>; parsing reads back what heartbeat prints.
  \<^item> \<open>Confine\<close>, \<open>GoPath\<close>: the checks of requests and of the paths they name.
  \<^item> \<open>Artifact\<close>: \<^verbatim>\<open>upload.go\<close>, \<^verbatim>\<open>manifest.go\<close> and \<^verbatim>\<open>verify.go\<close>. What is trusted is the artifact that was asked for, whole;
    an upload that was cut off is not.
  \<^item> \<open>Staging\<close>, \<open>BackupRun\<close>: \<^verbatim>\<open>staging.go\<close>, \<^verbatim>\<open>stagingwriter.go\<close> and \<^verbatim>\<open>runBackup\<close>. A running operation keeps its files, and a
    run of a backup is in order and ends.
  \<^item> \<open>DbRegistry\<close>, \<open>Ownership\<close>: \<^verbatim>\<open>databases.txt\<close> and \<^verbatim>\<open>ownership.go\<close>: only unfinished work of the manager is removed,
    wherever the removal is cut off.
  \<^item> \<open>RestoreRun\<close>, \<open>HABootstrap\<close>: \<^verbatim>\<open>restore.go\<close>, \<^verbatim>\<open>runRestore\<close> and \<^verbatim>\<open>habootstrap.go\<close>. The restore command runs on a verified
    artifact into a new directory, CUBRID is started only with the restored data on record, what a backup uploaded is
    what a restore stages, and both runs end.

  \<^bold>\<open>The operator.\<close>
  \<^item> \<open>Api\<close>: the resource types, of \<^verbatim>\<open>api/v1alpha1\<close>.
  \<^item> \<open>ImClient\<close>, \<open>Probe\<close>: \<^verbatim>\<open>imclient.go\<close> and \<^verbatim>\<open>roleprober.go\<close>: the calls to a manager and what is made of every answer.
  \<^item> \<open>Resolve\<close>, \<open>HAStatus\<close>, \<open>Replication\<close>: \<^verbatim>\<open>haresolve.go\<close>, \<^verbatim>\<open>replication.go\<close> and \<^verbatim>\<open>applierpositions.go\<close>: when a primary is
    resolved, what the status shows, and when a slave is reported as stalled.
  \<^item> \<open>RollingUpdate\<close>, \<open>BackupTarget\<close>: \<^verbatim>\<open>update.go\<close>, \<^verbatim>\<open>rollingplan.go\<close> and \<^verbatim>\<open>backuptarget.go\<close>: an update deletes only a safe
    slave, and a backup runs only on a safe member.

  \<^bold>\<open>Conventions.\<close> \<open>Prelude\<close> has Go's values and the shared lemmas. A time is an integer of nanoseconds and 64-bit
  arithmetic is written out with \<open>wrap64\<close>; a pointer is an option; an enumeration has a constructor for other strings;
  an error is a text or a constructor of its own. What comes from outside, the API server, the network, the disk, the
  commands, SHA-256, JSON and the Unicode tables, is an argument, and a step that may fail fails by an argument. What a
  run does is a list of events or of changes in order, so that a crash is a prefix of it. A loop that waits is a
  partial function, with the proof that it returns when its clock advances; everything else is total, and no fuel is
  used.

  \<^bold>\<open>Interfaces.\<close> The locales are \<open>invariant_system\<close> and \<open>refinement\<close> for transition systems, \<open>log_order\<close> for addresses of the
  log, \<open>registry\<close> for \<^verbatim>\<open>databases.txt\<close>, \<open>store_lookup\<close> and \<open>owner_lookup\<close> for what staging needs of the store, and
  \<open>run_store\<close> for what a run needs of it. Each is interpreted on the definitions of the model.

  \<^bold>\<open>Not modelled.\<close> The reconcilers of \<^verbatim>\<open>cubridcluster_controller.go\<close>, \<^verbatim>\<open>cubridbackup_controller.go\<close>, \<^verbatim>\<open>habootstrap.go\<close>,
  \<^verbatim>\<open>bootstrap.go\<close> and \<^verbatim>\<open>transitions.go\<close> of the operator and the builders of Kubernetes objects (broker, placement, network
  policy, Pod template, Services, disruption budget), whose effect is in the API server; the readiness probe; the
  execution of commands and process groups; file locks and fsync; metrics, events and log lines; the command lines;
  generated code; and the tests.
\<close>

end
